(* ===== verification/Prelude.thy ===== *)
theory Prelude
  imports Main "HOL-Library.Sublist" "HOL-Library.Multiset"
begin

text \<open>
  Shared vocabulary of the development: Rust strings as lists of Unicode scalar values with
  the standard-library operations the sources call (\<open>chars\<close>, \<open>len\<close>, \<open>trim\<close>,
  \<open>split_whitespace\<close>, \<open>lines\<close>, \<open>join\<close>, \<open>strip_prefix\<close>, \<open>replace\<close>, \<open>format!\<close> of
  an unsigned integer), saturating unsigned arithmetic, and the generic lemmas on lists
  that several components use.
\<close>

named_theorems str_simps "unfolding of the string operations"

section \<open>Unsigned machine integers\<close>

text \<open>
  A \<open>usize\<close> or \<open>u64\<close> is a natural number. Where the sources say \<open>saturating_sub\<close>, the
  truncating subtraction of \<^typ>\<open>nat\<close> is that operation; \<open>saturating_add\<close> is written out.
\<close>

definition u64_max :: nat where
  "u64_max = 2 ^ 64 - 1"

definition sat_add :: "nat \<Rightarrow> nat \<Rightarrow> nat" where
  "sat_add a b = min (a + b) u64_max"

lemma sat_add_le_max [simp]: "sat_add a b \<le> u64_max"
  by (simp add: sat_add_def)

lemma sat_add_mono: "a \<le> a' \<Longrightarrow> b \<le> b' \<Longrightarrow> sat_add a b \<le> sat_add a' b'"
  by (auto simp: sat_add_def min_def)

lemma sat_add_exact: "a + b \<le> u64_max \<Longrightarrow> sat_add a b = a + b"
  by (simp add: sat_add_def)

text \<open>\<open>usize::div_ceil\<close>.\<close>

definition div_ceil :: "nat \<Rightarrow> nat \<Rightarrow> nat" where
  "div_ceil a b = (a + b - 1) div b"

lemma div_ceil_mono: "a \<le> a' \<Longrightarrow> div_ceil a b \<le> div_ceil a' b"
  by (simp add: div_ceil_def div_le_mono)

lemma div_ceil_0 [simp]: "0 < b \<Longrightarrow> div_ceil 0 b = 0"
  by (simp add: div_ceil_def)

lemma div_ceil_le_iff:
  assumes "0 < b"
  shows "div_ceil a b \<le> n \<longleftrightarrow> a \<le> n * b"
proof -
  have "div_ceil a b \<le> n \<longleftrightarrow> (a + b - 1) div b < n + 1"
    by (auto simp: div_ceil_def)
  also have "\<dots> \<longleftrightarrow> a + b - 1 < (n + 1) * b"
    using assms by (simp add: div_less_iff_less_mult)
  also have "\<dots> \<longleftrightarrow> a \<le> n * b"
    using assms by auto
  finally show ?thesis .
qed

lemma div_ceil_add_le:
  assumes "0 < b"
  shows "div_ceil (a + c) b \<le> div_ceil a b + div_ceil c b"
proof -
  have "a \<le> div_ceil a b * b" "c \<le> div_ceil c b * b"
    using div_ceil_le_iff [OF assms] by blast+
  then have "a + c \<le> (div_ceil a b + div_ceil c b) * b"
    by (simp add: add_mult_distrib)
  then show ?thesis
    using div_ceil_le_iff [OF assms] by blast
qed

section \<open>Strings\<close>

text \<open>
  A Rust \<open>char\<close> is a Unicode scalar value, here its code point; a \<open>String\<close> is the list of
  its characters. \<open>s.chars().count()\<close> is \<^term>\<open>length\<close>; \<open>s.len()\<close> counts UTF-8 bytes.
\<close>

type_synonym rchar = int
type_synonym rstr = "rchar list"

definition lit :: "string \<Rightarrow> rstr" where
  "lit s = map of_char s"

lemma length_lit [simp]: "length (lit s) = length s"
  by (simp add: lit_def)

definition utf8_len :: "rchar \<Rightarrow> nat" where
  "utf8_len c = (if c < 0x80 then 1 else if c < 0x800 then 2 else if c < 0x10000 then 3 else 4)"

definition byte_len :: "rstr \<Rightarrow> nat" where
  "byte_len s = sum_list (map utf8_len s)"

lemma utf8_len_pos [simp]: "0 < utf8_len c"
  by (simp add: utf8_len_def)

lemma byte_len_Nil [simp]: "byte_len [] = 0"
  and byte_len_Cons [simp]: "byte_len (c # s) = utf8_len c + byte_len s"
  and byte_len_append [simp]: "byte_len (s @ t) = byte_len s + byte_len t"
  by (simp_all add: byte_len_def)

lemma byte_len_eq_0 [simp]: "byte_len s = 0 \<longleftrightarrow> s = []"
  by (cases s) (auto simp: utf8_len_def)

lemma length_le_byte_len: "length s \<le> byte_len s"
  by (induction s) (auto simp: utf8_len_def)

text \<open>\<open>char::is_whitespace\<close>: the Unicode \<open>White_Space\<close> property.\<close>

definition is_whitespace :: "rchar \<Rightarrow> bool" where
  "is_whitespace c \<longleftrightarrow> (9 \<le> c \<and> c \<le> 13) \<or> c = 0x20 \<or> c = 0x85 \<or> c = 0xA0 \<or> c = 0x1680 \<or>
     (0x2000 \<le> c \<and> c \<le> 0x200A) \<or> c = 0x2028 \<or> c = 0x2029 \<or> c = 0x202F \<or> c = 0x205F \<or> c = 0x3000"

definition trim_start :: "rstr \<Rightarrow> rstr" where
  "trim_start s = dropWhile is_whitespace s"

definition trim_end :: "rstr \<Rightarrow> rstr" where
  "trim_end s = rev (dropWhile is_whitespace (rev s))"

definition trim :: "rstr \<Rightarrow> rstr" where
  "trim s = trim_end (trim_start s)"

lemma trim_eq_Nil: "trim s = [] \<longleftrightarrow> (\<forall>c \<in> set s. is_whitespace c)"
proof -
  have "trim s = [] \<longleftrightarrow> (\<forall>c \<in> set (dropWhile is_whitespace s). is_whitespace c)"
    by (simp add: trim_def trim_end_def trim_start_def)
  also have "\<dots> \<longleftrightarrow> dropWhile is_whitespace s = []"
    by (metis dropWhile_eq_Nil_conv empty_iff hd_dropWhile hd_in_set list.set(1))
  finally show ?thesis by simp
qed

text \<open>\<open>s.split(p)\<close>: the pieces between the separators, empty pieces included.\<close>

fun split_on :: "(rchar \<Rightarrow> bool) \<Rightarrow> rstr \<Rightarrow> rstr list" where
  "split_on p [] = [[]]"
| "split_on p (c # s) =
     (if p c then [] # split_on p s
      else (case split_on p s of [] \<Rightarrow> [[c]] | w # ws \<Rightarrow> (c # w) # ws))"

definition split_whitespace :: "rstr \<Rightarrow> rstr list" where
  "split_whitespace s = filter (\<lambda>w. w \<noteq> []) (split_on is_whitespace s)"

fun join :: "rstr \<Rightarrow> rstr list \<Rightarrow> rstr" where
  "join sep [] = []"
| "join sep [w] = w"
| "join sep (w # v # ws) = w @ sep @ join sep (v # ws)"

definition starts_with :: "rstr \<Rightarrow> rstr \<Rightarrow> bool" where
  "starts_with p s \<longleftrightarrow> take (length p) s = p"

definition strip_prefix :: "rstr \<Rightarrow> rstr \<Rightarrow> rstr option" where
  "strip_prefix p s = (if starts_with p s then Some (drop (length p) s) else None)"

definition ends_with :: "rstr \<Rightarrow> rstr \<Rightarrow> bool" where
  "ends_with p s \<longleftrightarrow> starts_with (rev p) (rev s)"

definition strip_suffix :: "rstr \<Rightarrow> rstr \<Rightarrow> rstr option" where
  "strip_suffix p s = (if ends_with p s then Some (take (length s - length p) s) else None)"

lemma starts_with_prefix: "starts_with p s \<longleftrightarrow> prefix p s"
proof
  assume "starts_with p s"
  then have "s = p @ drop (length p) s"
    by (metis append_take_drop_id starts_with_def)
  then show "prefix p s" by (metis prefixI)
qed (auto simp: starts_with_def prefix_def)

text \<open>\<open>s.trim_start_matches(p)\<close>: the prefix is removed as often as it matches.\<close>

function trim_start_matches :: "rstr \<Rightarrow> rstr \<Rightarrow> rstr" where
  "trim_start_matches p s =
     (if p \<noteq> [] \<and> starts_with p s then trim_start_matches p (drop (length p) s) else s)"
  by pat_completeness auto
termination
proof (relation "measure (\<lambda>(p, s). length s)", simp)
  fix p s :: rstr
  assume *: "p \<noteq> [] \<and> starts_with p s"
  then have "length p \<le> length s"
    by (metis starts_with_prefix prefix_length_le)
  with * show "((p, drop (length p) s), p, s) \<in> measure (\<lambda>(p, s). length s)"
    by (cases p) auto
qed

declare trim_start_matches.simps [simp del]

text \<open>
  \<open>str::lines\<close>: the pieces that end at a newline, the newline and a carriage return before
  it removed; a final piece without newline is a line when it is not empty.
\<close>

definition chomp_cr :: "rstr \<Rightarrow> rstr" where
  "chomp_cr w = (if w \<noteq> [] \<and> last w = 13 then butlast w else w)"

fun lines_of :: "rstr list \<Rightarrow> rstr list" where
  "lines_of [] = []"
| "lines_of [w] = (if w = [] then [] else [w])"
| "lines_of (w # v # ws) = chomp_cr w # lines_of (v # ws)"

definition str_lines :: "rstr \<Rightarrow> rstr list" where
  "str_lines s = lines_of (split_on (\<lambda>c. c = 10) s)"

text \<open>\<open>char::to_ascii_lowercase\<close>, \<open>is_ascii_alphanumeric\<close>.\<close>

definition to_ascii_lower :: "rchar \<Rightarrow> rchar" where
  "to_ascii_lower c = (if 65 \<le> c \<and> c \<le> 90 then c + 32 else c)"

definition is_ascii_alnum :: "rchar \<Rightarrow> bool" where
  "is_ascii_alnum c \<longleftrightarrow> (48 \<le> c \<and> c \<le> 57) \<or> (65 \<le> c \<and> c \<le> 90) \<or> (97 \<le> c \<and> c \<le> 122)"

text \<open>\<open>str::contains\<close> and \<open>str::replace\<close>, the latter on the leftmost non-overlapping matches;
  an empty pattern matches before every character and at the end.\<close>

fun str_contains :: "rstr \<Rightarrow> rstr \<Rightarrow> bool" where
  "str_contains p [] \<longleftrightarrow> p = []"
| "str_contains p (c # s) \<longleftrightarrow> starts_with p (c # s) \<or> str_contains p s"

function replace_from :: "rstr \<Rightarrow> rstr \<Rightarrow> rstr \<Rightarrow> rstr" where
  "replace_from p r [] = []"
| "replace_from p r (c # s) =
     (if p \<noteq> [] \<and> starts_with p (c # s) then r @ replace_from p r (drop (length p) (c # s))
      else c # replace_from p r s)"
  by pat_completeness auto
termination
  by (relation "measure (\<lambda>(p, r, s). length s)") (auto simp: starts_with_prefix dest: prefix_length_le)

definition str_replace :: "rstr \<Rightarrow> rstr \<Rightarrow> rstr \<Rightarrow> rstr" where
  "str_replace s p r = (if p = [] then r @ concat (map (\<lambda>c. c # r) s) else replace_from p r s)"

lemma str_contains_sublist: "str_contains p s \<longleftrightarrow> sublist p s"
  by (induction s) (auto simp: starts_with_prefix sublist_Cons_right)

text \<open>\<open>format!("{n}")\<close> of an unsigned integer.\<close>

fun dec :: "nat \<Rightarrow> rstr" where
  "dec n = (if n < 10 then [48 + int n] else dec (n div 10) @ [48 + int (n mod 10)])"

declare dec.simps [simp del]

lemma dec_nonempty [simp]: "dec n \<noteq> []"
  by (subst dec.simps) simp

lemma dec_digits: "c \<in> set (dec n) \<Longrightarrow> 48 \<le> c \<and> c \<le> 57"
proof (induction n rule: dec.induct)
  case (1 n)
  then show ?case
    by (cases "n < 10") (auto simp: dec.simps [of n])
qed

definition str_of_bool :: "bool \<Rightarrow> rstr" where
  "str_of_bool b = (if b then lit ''true'' else lit ''false'')"

section \<open>Lists\<close>

text \<open>\<open>iter().position(p)\<close>.\<close>

fun position :: "('a \<Rightarrow> bool) \<Rightarrow> 'a list \<Rightarrow> nat option" where
  "position p [] = None"
| "position p (x # xs) = (if p x then Some 0 else map_option Suc (position p xs))"

lemma position_SomeD:
  "position p xs = Some i \<Longrightarrow> i < length xs \<and> p (xs ! i) \<and> (\<forall>j < i. \<not> p (xs ! j))"
proof (induction xs arbitrary: i)
  case Nil
  then show ?case by simp
next
  case (Cons x xs)
  show ?case
  proof (cases "p x")
    case True
    with Cons.prems show ?thesis by auto
  next
    case False
    with Cons.prems obtain k where k: "position p xs = Some k" "i = Suc k" by auto
    from Cons.IH [OF k(1)] False k(2) show ?thesis
      by (auto simp: nth_Cons split: nat.splits)
  qed
qed

lemma position_None_iff: "position p xs = None \<longleftrightarrow> (\<forall>x \<in> set xs. \<not> p x)"
  by (induction xs) auto

text \<open>\<open>iter().find_map(f)\<close>.\<close>

fun find_map :: "('a \<Rightarrow> 'b option) \<Rightarrow> 'a list \<Rightarrow> 'b option" where
  "find_map f [] = None"
| "find_map f (x # xs) = (case f x of None \<Rightarrow> find_map f xs | Some y \<Rightarrow> Some y)"

lemma find_map_SomeD: "find_map f xs = Some y \<Longrightarrow> \<exists>x \<in> set xs. f x = Some y"
  by (induction xs) (auto split: option.splits)

lemma find_map_None_iff: "find_map f xs = None \<longleftrightarrow> (\<forall>x \<in> set xs. f x = None)"
  by (induction xs) (auto split: option.splits)

lemma join_snoc: "ws \<noteq> [] \<Longrightarrow> join sep (ws @ [w]) = join sep ws @ sep @ w"
  by (induction sep ws rule: join.induct) auto

lemma length_join_le: "length (join sep ws) = sum_list (map length ws) + length sep * (length ws - 1)"
  by (induction sep ws rule: join.induct) auto

lemma length_join_perm: "mset (map length ws) = mset (map length vs) \<Longrightarrow> length (join sep ws) = length (join sep vs)"
  by (metis length_join_le mset_eq_length length_map sum_mset_sum_list)

lemma foldl_invariant: "P a \<Longrightarrow> (\<And>a x. x \<in> set xs \<Longrightarrow> P a \<Longrightarrow> P (f a x)) \<Longrightarrow> P (foldl f a xs)"
  by (induction xs arbitrary: a) auto

text \<open>Strictly increasing indexes select a subsequence.\<close>

lemma subseq_of_sorted_indexes:
  assumes "sorted is" "distinct is" "set is \<subseteq> {..<length xs}"
  shows "subseq (map ((!) xs) is) xs"
proof -
  have "is = filter (\<lambda>i. i \<in> set is) [0..<length xs]"
    using assms by (intro sorted_distinct_set_unique) (auto simp: sorted_wrt_filter)
  then have "subseq is [0..<length xs]" by (metis subseq_filter_left)
  then have "subseq (map ((!) xs) is) (map ((!) xs) [0..<length xs])" by (rule subseq_map)
  then show ?thesis by (simp add: map_nth)
qed

section \<open>Results\<close>

text \<open>
  \<open>Result<T, E>\<close> is the sum \<open>'e + 'a\<close> with the error on the left; \<open>rbind\<close> is the \<open>?\<close>
  operator followed by the rest of the function, \<open>map_err\<close> and \<open>unwrap_or\<close> are the methods.
\<close>

fun rbind :: "'e + 'a \<Rightarrow> ('a \<Rightarrow> 'e + 'b) \<Rightarrow> 'e + 'b" where
  "rbind (Inl e) f = Inl e"
| "rbind (Inr x) f = f x"

fun map_err :: "('e \<Rightarrow> 'f) \<Rightarrow> 'e + 'a \<Rightarrow> 'f + 'a" where
  "map_err f (Inl e) = Inl (f e)"
| "map_err f (Inr x) = Inr x"

fun unwrap_or :: "'e + 'a \<Rightarrow> 'a \<Rightarrow> 'a" where
  "unwrap_or (Inl _) d = d"
| "unwrap_or (Inr x) d = x"

definition is_ok :: "'e + 'a \<Rightarrow> bool" where
  "is_ok r \<longleftrightarrow> (case r of Inl _ \<Rightarrow> False | Inr _ \<Rightarrow> True)"

lemma is_ok_simps [simp]: "\<not> is_ok (Inl e)" "is_ok (Inr x)"
  by (simp_all add: is_ok_def)

lemma is_ok_iff: "is_ok r \<longleftrightarrow> (\<exists>x. r = Inr x)"
  by (cases r) simp_all

lemma is_ok_unit: "is_ok r \<longleftrightarrow> r = Inr ()"
  by (cases r) simp_all

lemma rbind_eq_Inr: "rbind r f = Inr y \<longleftrightarrow> (\<exists>x. r = Inr x \<and> f x = Inr y)"
  by (cases r) simp_all

lemma map_err_eq_Inr [simp]: "map_err f r = Inr x \<longleftrightarrow> r = Inr x"
  by (cases r) simp_all

lemma is_ok_rbind: "is_ok (rbind r f) \<longleftrightarrow> (\<exists>x. r = Inr x \<and> is_ok (f x))"
  by (cases r) simp_all

lemma is_ok_map_err [simp]: "is_ok (map_err f r) \<longleftrightarrow> is_ok r"
  by (cases r) simp_all

end
