(* ===== verification/F64.thy ===== *)
theory F64
  imports Complex_Main Prelude
begin

text \<open>
  The IEEE-754 binary64 arithmetic behind the ratio-based budgets: a \<open>f64\<close> is NaN, an infinity
  or a finite value, and every operation is the exact rational result rounded to nearest, ties
  to even, at 53 bits of precision with the subnormal exponent bound. The two zeros are one
  value: no operation of the sources tells them apart. Casts to \<open>usize\<close> saturate as in Rust.
\<close>

section \<open>Rounding\<close>

fun nlog2 :: "nat \<Rightarrow> nat" where
  "nlog2 n = (if n < 2 then 0 else Suc (nlog2 (n div 2)))"

declare nlog2.simps [simp del]

lemma nlog2_bounds: "0 < n \<Longrightarrow> 2 ^ nlog2 n \<le> n \<and> n < 2 ^ Suc (nlog2 n)"
proof (induction n rule: nlog2.induct)
  case (1 n)
  show ?case
  proof (cases "n < 2")
    case True
    with 1 show ?thesis by (simp add: nlog2.simps)
  next
    case False
    then have "2 ^ nlog2 (n div 2) \<le> n div 2" "n div 2 < 2 ^ Suc (nlog2 (n div 2))"
      using 1 by auto
    with False show ?thesis
      by (subst (1 2) nlog2.simps) auto
  qed
qed

text \<open>The binary exponent of a positive rational.\<close>

definition ilog2 :: "rat \<Rightarrow> int" where
  "ilog2 x =
     (let (n, d) = quotient_of x;
          k = int (nlog2 (nat n)) - int (nlog2 (nat d))
      in if 2 powi k \<le> x then k else k - 1)"

lemma powi_nat_diff: "(2::rat) powi (int a - int b) = 2 ^ a / 2 ^ b"
  by (simp add: power_int_diff)

lemma ilog2_bounds:
  assumes "0 < x"
  shows "2 powi ilog2 x \<le> x" "x < 2 powi (ilog2 x + 1)"
proof -
  obtain n d where nd: "quotient_of x = (n, d)" by fastforce
  have d: "0 < d" using quotient_of_denom_pos [OF nd] .
  have x: "x = of_int n / of_int d" using quotient_of_div [OF nd] .
  with assms d have n: "0 < n" by (simp add: zero_less_divide_iff)
  define a b where "a = nlog2 (nat n)" and "b = nlog2 (nat d)"
  have "2 ^ a \<le> nat n" "nat n < 2 ^ Suc a" "2 ^ b \<le> nat d" "nat d < 2 ^ Suc b"
    using nlog2_bounds [of "nat n"] nlog2_bounds [of "nat d"] n d by (auto simp: a_def b_def)
  then have "(2::rat) ^ a \<le> of_nat (nat n)" "of_nat (nat n) < (2::rat) ^ Suc a"
       "(2::rat) ^ b \<le> of_nat (nat d)" "of_nat (nat d) < (2::rat) ^ Suc b"
    by (metis of_nat_le_iff of_nat_less_iff of_nat_numeral of_nat_power)+
  then have q: "(2::rat) ^ a \<le> of_int n" "of_int n < (2::rat) ^ Suc a"
       "(2::rat) ^ b \<le> of_int d" "of_int d < (2::rat) ^ Suc b"
    using n d by simp_all
  have hi: "x < 2 ^ Suc a / 2 ^ b"
    unfolding x using q d n by (intro frac_less) auto
  have lo: "2 ^ a / 2 ^ Suc b < x"
    unfolding x using q d n by (intro frac_less2) auto
  let ?k = "int a - int b"
  have e: "ilog2 x = (if 2 powi ?k \<le> x then ?k else ?k - 1)"
    by (simp add: ilog2_def nd a_def b_def)
  have hi': "x < 2 powi (?k + 1)"
    using hi powi_nat_diff [of "Suc a" b] by (simp add: algebra_simps)
  have lo': "2 powi (?k - 1) < x"
    using lo powi_nat_diff [of a "Suc b"] by (simp add: algebra_simps)
  show "2 powi ilog2 x \<le> x" "x < 2 powi (ilog2 x + 1)"
    using e hi' lo' by auto
qed

text \<open>Round half to even.\<close>

definition rhe :: "rat \<Rightarrow> int" where
  "rhe x = (let n = \<lfloor>x\<rfloor>; f = x - of_int n in
     if f < 1/2 then n else if f > 1/2 then n + 1 else if even n then n else n + 1)"

lemma rhe_of_int [simp]: "rhe (of_int n) = n"
  by (simp add: rhe_def)

lemma rhe_bounds: "\<lfloor>x\<rfloor> \<le> rhe x" "rhe x \<le> \<lfloor>x\<rfloor> + 1"
  by (auto simp: rhe_def Let_def)

lemma rhe_mono:
  assumes "x \<le> y" shows "rhe x \<le> rhe y"
proof (cases "\<lfloor>x\<rfloor> = \<lfloor>y\<rfloor>")
  case True
  with assms show ?thesis by (auto simp: rhe_def Let_def)
next
  case False
  with floor_mono [OF assms] have "\<lfloor>x\<rfloor> + 1 \<le> \<lfloor>y\<rfloor>" by simp
  with rhe_bounds [of x] rhe_bounds [of y] show ?thesis by linarith
qed

lemma rhe_le_int: "x \<le> of_int n \<Longrightarrow> rhe x \<le> n"
  and rhe_ge_int: "of_int n \<le> x \<Longrightarrow> n \<le> rhe x"
  using rhe_mono [of x "of_int n"] rhe_mono [of "of_int n" x] by simp_all

definition ulp_exp :: "rat \<Rightarrow> int" where
  "ulp_exp x = max (ilog2 x - 52) (- 1074)"

definition rnd_pos :: "rat \<Rightarrow> rat" where
  "rnd_pos x = of_int (rhe (x / 2 powi ulp_exp x)) * 2 powi ulp_exp x"

definition rnd :: "rat \<Rightarrow> rat" where
  "rnd x = (if x = 0 then 0 else if 0 < x then rnd_pos x else - rnd_pos (- x))"

text \<open>A multiple of the unit in the last place bounds the rounded value as it bounds the exact one.\<close>

lemma rnd_pos_le_grid: "x \<le> of_int m * 2 powi ulp_exp x \<Longrightarrow> rnd_pos x \<le> of_int m * 2 powi ulp_exp x"
  unfolding rnd_pos_def
  by (intro mult_right_mono) (simp_all add: rhe_le_int divide_le_eq)

lemma rnd_pos_ge_grid: "of_int m * 2 powi ulp_exp x \<le> x \<Longrightarrow> of_int m * 2 powi ulp_exp x \<le> rnd_pos x"
  unfolding rnd_pos_def
  by (intro mult_right_mono) (simp_all add: rhe_ge_int le_divide_eq)

lemma powi_grid: "q \<le> k \<Longrightarrow> \<exists>m. (2::rat) powi k = of_int m * 2 powi q"
proof -
  assume "q \<le> k"
  then have "(2::rat) powi k = 2 ^ nat (k - q) * 2 powi q"
    by (metis power_int_add_numeral add.commute diff_add_cancel diff_ge_0_iff_ge int_nat_eq
        power_int_add power_int_of_nat zero_neq_numeral)
  then have "(2::rat) powi k = of_int (2 ^ nat (k - q)) * 2 powi q"
    by simp
  then show ?thesis by blast
qed

lemma rnd_pos_le_powi:
  assumes "x \<le> 2 powi k" "ulp_exp x \<le> k" shows "rnd_pos x \<le> 2 powi k"
proof -
  obtain m where "(2::rat) powi k = of_int m * 2 powi ulp_exp x"
    using powi_grid [OF assms(2)] by blast
  with assms(1) rnd_pos_le_grid [of x m] show ?thesis by simp
qed

lemma rnd_pos_ge_powi:
  assumes "2 powi k \<le> x" "ulp_exp x \<le> k" shows "2 powi k \<le> rnd_pos x"
proof -
  obtain m where "(2::rat) powi k = of_int m * 2 powi ulp_exp x"
    using powi_grid [OF assms(2)] by blast
  with assms(1) rnd_pos_ge_grid [of m x] show ?thesis by simp
qed

lemma powi_less_iff2: "(2::rat) powi a < 2 powi b \<longleftrightarrow> a < b"
  by (metis less_numeral_extra(4) linorder_not_less one_less_numeral_iff power_int_increasing
      power_int_strict_increasing semiring_norm(76) one_le_numeral)

lemma ilog2_mono:
  assumes "0 < x" "x \<le> y" shows "ilog2 x \<le> ilog2 y"
proof -
  have "(2::rat) powi ilog2 x < 2 powi (ilog2 y + 1)"
    using ilog2_bounds(1) [OF assms(1)] ilog2_bounds(2) [of y] assms by linarith
  then show ?thesis by (simp add: powi_less_iff2)
qed

lemma ilog2_unique:
  assumes "0 < x" "2 powi k \<le> x" "x < 2 powi (k + 1)" shows "ilog2 x = k"
proof -
  have "(2::rat) powi k < 2 powi (ilog2 x + 1)" "(2::rat) powi ilog2 x < 2 powi (k + 1)"
    using ilog2_bounds [OF assms(1)] assms by linarith+
  then show ?thesis by (simp add: powi_less_iff2)
qed

lemma rnd_pos_mono:
  assumes "0 < x" "x \<le> y" shows "rnd_pos x \<le> rnd_pos y"
proof (cases "ulp_exp x = ulp_exp y")
  case True
  with assms(2) show ?thesis
    unfolding rnd_pos_def by (simp add: mult_right_mono rhe_mono divide_right_mono)
next
  case False
  have le: "ilog2 x \<le> ilog2 y" by (rule ilog2_mono [OF assms])
  with False have lt: "ilog2 x < ilog2 y" "ulp_exp x \<le> ilog2 y" "ulp_exp y \<le> ilog2 y"
    by (auto simp: ulp_exp_def)
  then have "x \<le> 2 powi ilog2 y"
    using ilog2_bounds(2) [OF assms(1)] power_int_increasing [of "ilog2 x + 1" "ilog2 y" "2::rat"]
    by linarith
  then have "rnd_pos x \<le> 2 powi ilog2 y" using rnd_pos_le_powi lt by blast
  also have "\<dots> \<le> rnd_pos y"
    using rnd_pos_ge_powi ilog2_bounds(1) [of y] assms lt by force
  finally show ?thesis .
qed

lemma rnd_pos_nonneg: "0 < x \<Longrightarrow> 0 \<le> rnd_pos x"
  using rhe_ge_int [of 0 "x / 2 powi ulp_exp x"] by (simp add: rnd_pos_def)

lemma rnd_mono: "x \<le> y \<Longrightarrow> rnd x \<le> rnd y"
  using rnd_pos_mono [of x y] rnd_pos_mono [of "- y" "- x"] rnd_pos_nonneg [of y] rnd_pos_nonneg [of "- x"]
  by (auto simp: rnd_def)

lemma rnd_0 [simp]: "rnd 0 = 0"
  by (simp add: rnd_def)

lemma rnd_nonneg: "0 \<le> x \<Longrightarrow> 0 \<le> rnd x"
  using rnd_mono [of 0 x] by simp

lemma rnd_pos_grid: "x = of_int m * 2 powi ulp_exp x \<Longrightarrow> rnd_pos x = x"
  using rnd_pos_le_grid [of x m] rnd_pos_ge_grid [of m x] by simp

lemma of_nat_grid:
  assumes "q \<le> 0" shows "\<exists>m. (of_nat n :: rat) = of_int m * 2 powi q"
proof -
  obtain m where "(1::rat) = of_int m * 2 powi q"
    using powi_grid [OF assms] by auto
  then have "(of_nat n :: rat) = of_int (int n * m) * 2 powi q"
    by (metis mult.assoc mult.right_neutral of_int_mult of_int_of_nat_eq)
  then show ?thesis by blast
qed

text \<open>Naturals up to \<open>2^53\<close> are represented exactly.\<close>

lemma rnd_exact_2_53: "rnd (2 ^ 53) = 2 ^ 53"
proof -
  have "ilog2 (2 ^ 53) = 53" by (rule ilog2_unique) simp_all
  then have "rnd_pos (2 ^ 53) = 2 ^ 53"
    by (intro rnd_pos_grid [of _ "2 ^ 52"]) (simp add: ulp_exp_def)
  then show ?thesis by (simp add: rnd_def)
qed

lemma rnd_exact_nat:
  assumes "n \<le> 2 ^ 53" shows "rnd (of_nat n) = of_nat n"
proof (cases "n = 0 \<or> n = 2 ^ 53")
  case True
  with rnd_exact_2_53 show ?thesis by auto
next
  case False
  with assms have n: "0 < n" "n < 2 ^ 53" by auto
  then have "(of_nat n :: rat) < of_nat (2 ^ 53)" by (simp only: of_nat_less_iff)
  then have "(2::rat) powi ilog2 (of_nat n) < 2 powi 53"
    using ilog2_bounds(1) [of "of_nat n"] n by simp
  then have "ulp_exp (of_nat n) \<le> 0" by (simp only: powi_less_iff2 ulp_exp_def)
  then obtain m where "(of_nat n :: rat) = of_int m * 2 powi ulp_exp (of_nat n)"
    using of_nat_grid by blast
  with n show ?thesis by (simp add: rnd_def rnd_pos_grid)
qed

section \<open>Values and operations\<close>

datatype f64 = NaN | PosInf | NegInf | Fin rat

definition f64_huge :: rat where
  "f64_huge = 2 ^ 1024"

definition f64_round :: "rat \<Rightarrow> f64" where
  "f64_round x = (let r = rnd x in
     if f64_huge \<le> r then PosInf else if r \<le> - f64_huge then NegInf else Fin r)"

fun f64_le :: "f64 \<Rightarrow> f64 \<Rightarrow> bool" where
  "f64_le NaN _ = False"
| "f64_le _ NaN = False"
| "f64_le NegInf _ = True"
| "f64_le _ PosInf = True"
| "f64_le (Fin x) (Fin y) = (x \<le> y)"
| "f64_le _ _ = False"

fun f64_lt :: "f64 \<Rightarrow> f64 \<Rightarrow> bool" where
  "f64_lt NaN _ = False"
| "f64_lt _ NaN = False"
| "f64_lt (Fin x) (Fin y) = (x < y)"
| "f64_lt NegInf y = (y \<noteq> NegInf)"
| "f64_lt x PosInf = (x \<noteq> PosInf)"
| "f64_lt _ _ = False"

text \<open>Sign of a non-NaN value, for the infinite cases of the product.\<close>

fun f64_sgn :: "f64 \<Rightarrow> int" where
  "f64_sgn NaN = 0"
| "f64_sgn PosInf = 1"
| "f64_sgn NegInf = - 1"
| "f64_sgn (Fin x) = (if x = 0 then 0 else if 0 < x then 1 else - 1)"

definition f64_inf :: "int \<Rightarrow> f64" where
  "f64_inf s = (if s = 0 then NaN else if 0 < s then PosInf else NegInf)"

fun f64_mul :: "f64 \<Rightarrow> f64 \<Rightarrow> f64" where
  "f64_mul NaN _ = NaN"
| "f64_mul _ NaN = NaN"
| "f64_mul (Fin x) (Fin y) = f64_round (x * y)"
| "f64_mul x y = f64_inf (f64_sgn x * f64_sgn y)"

text \<open>Division, for the non-negative divisors of the sources (\<open>0/0\<close> is NaN).\<close>

fun f64_div :: "f64 \<Rightarrow> f64 \<Rightarrow> f64" where
  "f64_div NaN _ = NaN"
| "f64_div _ NaN = NaN"
| "f64_div (Fin x) (Fin y) = (if y = 0 then f64_inf (f64_sgn (Fin x)) else f64_round (x / y))"
| "f64_div (Fin x) _ = Fin 0"
| "f64_div x (Fin y) = f64_inf (f64_sgn x * (if y = 0 then 1 else f64_sgn (Fin y)))"
| "f64_div _ _ = NaN"

fun f64_floor :: "f64 \<Rightarrow> f64" where
  "f64_floor (Fin x) = Fin (of_int \<lfloor>x\<rfloor>)"
| "f64_floor x = x"

definition f64_of_usize :: "nat \<Rightarrow> f64" where
  "f64_of_usize n = f64_round (of_nat n)"

text \<open>\<open>x as usize\<close>: truncation, saturating at both ends, NaN to zero.\<close>

fun f64_to_usize :: "f64 \<Rightarrow> nat" where
  "f64_to_usize NaN = 0"
| "f64_to_usize NegInf = 0"
| "f64_to_usize PosInf = u64_max"
| "f64_to_usize (Fin x) = min (nat \<lfloor>x\<rfloor>) u64_max"

text \<open>\<open>(limit as f64 * ratio).floor() as usize\<close>, the shape of every threshold of the sources.\<close>

definition scale_floor :: "f64 \<Rightarrow> f64 \<Rightarrow> nat" where
  "scale_floor x ratio = f64_to_usize (f64_floor (f64_mul x ratio))"

lemma f64_round_Fin:
  assumes "f64_round x = Fin r" shows "r = rnd x"
  using assms by (auto simp: f64_round_def Let_def split: if_splits)

lemma f64_huge_gt: "(2::rat) ^ 53 < f64_huge"
  unfolding f64_huge_def by (rule power_strict_increasing) simp_all

lemma f64_huge_pos: "0 < f64_huge"
  by (simp add: f64_huge_def)

lemma f64_of_usize_exact: "n \<le> 2 ^ 53 \<Longrightarrow> f64_of_usize n = Fin (of_nat n)"
proof -
  assume n: "n \<le> 2 ^ 53"
  then have "(of_nat n :: rat) \<le> of_nat (2 ^ 53)" by (simp only: of_nat_le_iff)
  then have "(of_nat n :: rat) < f64_huge" using f64_huge_gt by simp
  moreover have "- f64_huge < of_nat n"
    using f64_huge_pos by (meson less_le_trans neg_less_0_iff_less of_nat_0_le_iff)
  ultimately show ?thesis
    by (simp add: f64_of_usize_def f64_round_def rnd_exact_nat [OF n])
qed

text \<open>The threshold computation is monotone in the ratio and, for a ratio in \<open>[0,1]\<close>, shrinks.\<close>

lemma f64_to_usize_floor_round:
  "0 \<le> x \<Longrightarrow> f64_to_usize (f64_floor (f64_round x)) =
     (if f64_huge \<le> rnd x then u64_max else min (nat \<lfloor>rnd x\<rfloor>) u64_max)"
  using rnd_nonneg [of x] f64_huge_pos by (simp add: f64_round_def)

lemma f64_to_usize_round_mono:
  assumes "0 \<le> x" "x \<le> y"
  shows "f64_to_usize (f64_floor (f64_round x)) \<le> f64_to_usize (f64_floor (f64_round y))"
proof -
  have r: "rnd x \<le> rnd y" by (rule rnd_mono [OF assms(2)])
  then have n: "min (nat \<lfloor>rnd x\<rfloor>) u64_max \<le> min (nat \<lfloor>rnd y\<rfloor>) u64_max"
    by (intro min.mono nat_mono floor_mono) simp_all
  have "0 \<le> y" using assms by (rule order_trans)
  with assms(1) r n show ?thesis
    by (simp add: f64_to_usize_floor_round)
qed

lemma scale_floor_mono:
  "0 \<le> x \<Longrightarrow> 0 \<le> a \<Longrightarrow> a \<le> b \<Longrightarrow> scale_floor (Fin x) (Fin a) \<le> scale_floor (Fin x) (Fin b)"
  by (simp add: scale_floor_def f64_to_usize_round_mono mult_left_mono)

lemma scale_floor_shrinks:
  assumes "n \<le> 2 ^ 53" "0 \<le> a" "a \<le> 1"
  shows "scale_floor (Fin (of_nat n)) (Fin a) \<le> n"
proof -
  have r: "f64_round (of_nat n) = Fin (of_nat n)"
    using f64_of_usize_exact [OF assms(1)] by (simp add: f64_of_usize_def)
  have "scale_floor (Fin (of_nat n)) (Fin a) \<le> f64_to_usize (f64_floor (f64_round (of_nat n)))"
    unfolding scale_floor_def f64_mul.simps
    using assms by (intro f64_to_usize_round_mono) (auto simp: mult_left_le)
  then show ?thesis by (simp add: r)
qed

end
