(* ===== verification/Messages.thy ===== *)
theory Messages
  imports F64
begin

text \<open>
  The conversation data of \<open>crates/agent-types\<close> and the constructors of \<open>crates/agent-llm\<close>:
  roles, content blocks, chat messages, provider usage counters, requests and responses, the
  compression metadata, and the outcome of a run. \<open>serde_json::Value\<close> is the JSON tree; its
  printer and parser belong to the \<open>serde_json\<close> crate and are parameters where they are used.
\<close>

section \<open>JSON values\<close>

datatype json =
    JNull
  | JBool bool
  | JNumber rstr
  | JString rstr
  | JArray "json list"
  | JObject "(rstr \<times> json) list"

text \<open>\<open>Value::get(key)\<close>: a member of an object, nothing on other values.\<close>

fun json_get :: "rstr \<Rightarrow> json \<Rightarrow> json option" where
  "json_get k (JObject kvs) = map_of kvs k"
| "json_get k _ = None"

fun json_as_str :: "json \<Rightarrow> rstr option" where
  "json_as_str (JString s) = Some s"
| "json_as_str _ = None"

fun json_as_array :: "json \<Rightarrow> json list option" where
  "json_as_array (JArray vs) = Some vs"
| "json_as_array _ = None"

section \<open>Messages\<close>

datatype message_role = System | User | Assistant | Tool

datatype content_block =
    Text rstr
  | ToolUse (call_id_of: rstr) (tool_name_of: rstr) (input_of: json)
  | ToolResult (call_id_of: rstr) (tool_name_of: rstr) (output_of: rstr) (is_error_of: bool)
  | ImageBlock rstr
  | DocumentBlock rstr

record chat_message =
  role :: message_role
  blocks :: "content_block list"
  message_id :: "rstr option"
  timestamp_ms :: nat
  api_usage_tokens :: "nat option"
  reasoning_content :: "rstr option"
  estimated_tokens :: "nat option"

fun role_as_str :: "message_role \<Rightarrow> rstr" where
  "role_as_str System = lit ''system''"
| "role_as_str User = lit ''user''"
| "role_as_str Assistant = lit ''assistant''"
| "role_as_str Tool = lit ''tool''"

definition chat_new ::
  "message_role \<Rightarrow> content_block list \<Rightarrow> rstr option \<Rightarrow> nat \<Rightarrow> nat option \<Rightarrow> chat_message" where
  "chat_new r bs mid ts usage =
     \<lparr>role = r, blocks = bs, message_id = mid, timestamp_ms = ts, api_usage_tokens = usage,
      reasoning_content = None, estimated_tokens = None\<rparr>"

definition chat_text :: "message_role \<Rightarrow> rstr \<Rightarrow> nat \<Rightarrow> chat_message" where
  "chat_text r t ts = chat_new r [Text t] None ts None"

definition chat_user :: "rstr \<Rightarrow> chat_message" where
  "chat_user t = chat_text User t 0"

definition chat_system :: "rstr \<Rightarrow> chat_message" where
  "chat_system t = chat_text System t 0"

definition chat_assistant :: "rstr \<Rightarrow> nat \<Rightarrow> chat_message" where
  "chat_assistant t ts = chat_text Assistant t ts"

definition chat_tool_result :: "rstr \<Rightarrow> rstr \<Rightarrow> rstr \<Rightarrow> bool \<Rightarrow> nat \<Rightarrow> chat_message" where
  "chat_tool_result cid name out err ts = chat_new Tool [ToolResult cid name out err] None ts None"

definition text_content :: "chat_message \<Rightarrow> rstr option" where
  "text_content m = find_map (\<lambda>b. case b of Text t \<Rightarrow> Some t | _ \<Rightarrow> None) (blocks m)"

text \<open>Identifiers of the calls a message makes and of the calls it answers.\<close>

fun use_id :: "content_block \<Rightarrow> rstr option" where
  "use_id (ToolUse cid _ _) = Some cid"
| "use_id _ = None"

fun result_id :: "content_block \<Rightarrow> rstr option" where
  "result_id (ToolResult cid _ _ _) = Some cid"
| "result_id _ = None"

definition tool_use_ids :: "chat_message \<Rightarrow> rstr list" where
  "tool_use_ids m = List.map_filter use_id (blocks m)"

definition tool_result_ids :: "chat_message \<Rightarrow> rstr list" where
  "tool_result_ids m = List.map_filter result_id (blocks m)"

section \<open>Requests, responses, usage\<close>

datatype response_format = RText | JsonObject | JsonSchema rstr json
datatype tool_choice = Auto | Required | NoTools | Specific rstr
datatype reasoning_effort = EDefault | EOff | EHigh | EMax

record tool_decl =
  td_name :: rstr
  td_description :: rstr
  td_parameters :: json

record llm_request =
  lr_messages :: "chat_message list"
  lr_tools :: "tool_decl list"
  lr_tool_choice :: tool_choice
  lr_max_tokens :: "nat option"
  lr_temperature :: "f64 option"
  lr_response_format :: response_format
  lr_reasoning_effort :: reasoning_effort

definition llm_request_new :: "chat_message list \<Rightarrow> llm_request" where
  "llm_request_new ms = \<lparr>lr_messages = ms, lr_tools = [], lr_tool_choice = Auto, lr_max_tokens = None,
     lr_temperature = None, lr_response_format = RText, lr_reasoning_effort = EDefault\<rparr>"

record completion_config =
  cc_max_tokens :: nat
  cc_temperature :: f64

definition completion_validate :: "completion_config \<Rightarrow> rstr + unit" where
  "completion_validate c =
     (if cc_max_tokens c = 0 then Inl (lit ''max_tokens must be greater than zero'')
      else if f64_lt (cc_temperature c) (Fin 0) \<or> f64_lt (Fin 2) (cc_temperature c)
      then Inl (lit ''temperature must be between 0.0 and 2.0'')
      else Inr ())"

fun effort_next :: "reasoning_effort \<Rightarrow> reasoning_effort" where
  "effort_next EDefault = EOff"
| "effort_next EOff = EHigh"
| "effort_next EHigh = EMax"
| "effort_next EMax = EDefault"

fun effort_as_str :: "reasoning_effort \<Rightarrow> rstr" where
  "effort_as_str EDefault = lit ''default''"
| "effort_as_str EOff = lit ''off''"
| "effort_as_str EHigh = lit ''high''"
| "effort_as_str EMax = lit ''max''"

definition effort_from_str :: "rstr \<Rightarrow> rstr + reasoning_effort" where
  "effort_from_str v =
     (let s = map to_ascii_lower (trim v) in
      if s = lit ''default'' \<or> s = lit ''auto'' then Inr EDefault
      else if s = lit ''off'' \<or> s = lit ''none'' \<or> s = lit ''disabled'' then Inr EOff
      else if s = lit ''high'' then Inr EHigh
      else if s = lit ''max'' \<or> s = lit ''xhigh'' \<or> s = lit ''maximum'' then Inr EMax
      else Inl (lit ''invalid reasoning effort '' @ [39] @ s @ [39] @
                lit '' (expected default, off, high, or max)''))"

record usage =
  prompt_tokens :: nat
  completion_tokens :: nat
  total_tokens :: nat
  cached_tokens :: nat
  cache_write_tokens :: nat

definition usage_default :: usage where
  "usage_default = \<lparr>prompt_tokens = 0, completion_tokens = 0, total_tokens = 0,
     cached_tokens = 0, cache_write_tokens = 0\<rparr>"

definition usage_add_assign :: "usage \<Rightarrow> usage \<Rightarrow> usage" where
  "usage_add_assign self u =
     \<lparr>prompt_tokens = sat_add (prompt_tokens self) (prompt_tokens u),
      completion_tokens = sat_add (completion_tokens self) (completion_tokens u),
      total_tokens = sat_add (total_tokens self) (total_tokens u),
      cached_tokens = sat_add (cached_tokens self) (cached_tokens u),
      cache_write_tokens = sat_add (cache_write_tokens self) (cache_write_tokens u)\<rparr>"

record tool_use_block =
  tub_call_id :: rstr
  tub_tool_name :: rstr
  tub_input :: json

datatype stop_reason = EndTurn | MaxTokens | StopToolUse | ContentFilter

record assistant_message =
  am_text :: "rstr option"
  am_reasoning :: "rstr option"
  am_tool_calls :: "tool_use_block list"
  am_usage :: usage
  am_stop_reason :: stop_reason

record compression_meta =
  last_compact_turn :: "nat option"
  compact_summary :: "rstr option"

definition meta_default :: compression_meta where
  "meta_default = \<lparr>last_compact_turn = None, compact_summary = None\<rparr>"

datatype context_severity = Normal | AutoCompact | Blocking

record context_analysis =
  ca_severity :: context_severity
  ca_estimated_tokens :: nat
  ca_should_compact :: bool
  ca_total_tokens :: nat
  ca_available_tokens :: nat
  ca_usage_ratio :: f64

definition needs_compression :: "context_analysis \<Rightarrow> bool" where
  "needs_compression a = ca_should_compact a"

record compressed_view =
  cv_messages :: "chat_message list"
  cv_removed_count :: nat
  cv_summary :: "rstr option"
  cv_updated_meta :: compression_meta
  cv_estimated_tokens :: nat

section \<open>Lemmas\<close>

lemma tool_use_ids_iff: "cid \<in> set (tool_use_ids m) \<longleftrightarrow> (\<exists>b \<in> set (blocks m). use_id b = Some cid)"
  by (force simp: tool_use_ids_def List.map_filter_def)

lemma tool_result_ids_iff:
  "cid \<in> set (tool_result_ids m) \<longleftrightarrow> (\<exists>b \<in> set (blocks m). result_id b = Some cid)"
  by (force simp: tool_result_ids_def List.map_filter_def)

lemma chat_new_sel [simp]:
  "role (chat_new r bs mid ts u) = r" "blocks (chat_new r bs mid ts u) = bs"
  "message_id (chat_new r bs mid ts u) = mid" "timestamp_ms (chat_new r bs mid ts u) = ts"
  "estimated_tokens (chat_new r bs mid ts u) = None"
  by (simp_all add: chat_new_def)

lemma text_message_ids [simp]:
  "tool_use_ids (chat_text r t ts) = []" "tool_result_ids (chat_text r t ts) = []"
  by (simp_all add: chat_text_def tool_use_ids_def tool_result_ids_def List.map_filter_def)

text \<open>Accumulating usage never wraps and never loses tokens below the counter's maximum.\<close>

lemma usage_add_assign_mono:
  "total_tokens self \<le> u64_max \<Longrightarrow> total_tokens self \<le> total_tokens (usage_add_assign self u)"
  by (simp add: usage_add_assign_def sat_add_def)

end
