(* ===== verification/ToolOutput.thy ===== *)
theory ToolOutput
  imports Messages
begin

text \<open>
  Results of tool calls (\<open>agent-types/src/tool\<close>) and how they enter the conversation
  (\<open>crates/core/src/tool_exec.rs\<close>): rendering, the byte and line truncation of large outputs with
  its UTF-8 boundary search, the preview of user answers, and the tool-result message. The file the
  full output is saved to is outside the model: the path it was saved under is an argument.
\<close>

section \<open>Tool execution types\<close>

record final_tool_call =
  fc_call_id :: rstr
  fc_tool_name :: rstr
  fc_input :: json
  fc_extra :: "json option"

record effect_profile =
  reads_filesystem :: bool
  writes_filesystem :: bool
  network_access :: bool
  side_effects :: bool

datatype raw_tool_outcome = Success rstr | OutcomeError rstr

datatype tool_execution_error =
  NotFound rstr | ExecutionFailed rstr | ToolTimeout nat | PermissionDenied rstr

datatype pre_hook_result = PreAllow "json option" | PreDeny rstr | PreTransform json "json option"
datatype post_hook_result = PostAccept | PostTransform rstr
datatype error_hook_result = Propagate | Recover rstr

datatype tool_execution_result =
    Denied (final_call: final_tool_call) "pre_hook_result list" "error_hook_result list"
      "tool_execution_error option"
  | Completed (final_call: final_tool_call) raw_tool_outcome "pre_hook_result list" "post_hook_result list"
  | Suspended (final_call: final_tool_call) "pre_hook_result list" rstr
  | Failed (final_call: final_tool_call) "pre_hook_result list" "error_hook_result list" tool_execution_error

definition result_call_id :: "tool_execution_result \<Rightarrow> rstr" where
  "result_call_id r = fc_call_id (final_call r)"

definition result_tool_name :: "tool_execution_result \<Rightarrow> rstr" where
  "result_tool_name r = fc_tool_name (final_call r)"

text \<open>\<open>Display\<close> of an execution error.\<close>

fun tool_error_to_string :: "tool_execution_error \<Rightarrow> rstr" where
  "tool_error_to_string (NotFound n) = lit ''tool not found: '' @ n"
| "tool_error_to_string (ExecutionFailed m) = lit ''execution failed: '' @ m"
| "tool_error_to_string (ToolTimeout ms) = lit ''timeout after '' @ dec ms @ lit ''ms''"
| "tool_error_to_string (PermissionDenied m) = lit ''permission denied: '' @ m"

fun is_failure_result :: "tool_execution_result \<Rightarrow> bool" where
  "is_failure_result (Completed _ (OutcomeError _) _ _) = True"
| "is_failure_result (Completed _ (Success _) _ _) = False"
| "is_failure_result (Failed _ _ _ _) = True"
| "is_failure_result (Denied _ _ _ _) = True"
| "is_failure_result (Suspended _ _ _) = False"

fun tool_output :: "tool_execution_result \<Rightarrow> rstr" where
  "tool_output (Completed _ (Success out) _ _) = out"
| "tool_output (Completed _ (OutcomeError m) _ _) = m"
| "tool_output (Failed _ _ _ e) = tool_error_to_string e"
| "tool_output (Denied _ _ _ e) =
     lit ''denied: '' @ (case e of Some err \<Rightarrow> tool_error_to_string err | None \<Rightarrow> [])"
| "tool_output (Suspended _ _ token) = lit ''suspended:'' @ token"

definition build_framework_failed_tool_result :: "final_tool_call \<Rightarrow> rstr \<Rightarrow> tool_execution_result" where
  "build_framework_failed_tool_result call message = Failed call [] [] (ExecutionFailed message)"

definition is_parallel_safe :: "effect_profile \<Rightarrow> bool" where
  "is_parallel_safe p \<longleftrightarrow>
     \<not> writes_filesystem p \<and> \<not> side_effects p \<and> (reads_filesystem p \<or> network_access p)"

section \<open>UTF-8\<close>

definition is_scalar :: "rchar \<Rightarrow> bool" where
  "is_scalar c \<longleftrightarrow> 0 \<le> c \<and> c < 0x110000"

definition utf8_bytes :: "rchar \<Rightarrow> int list" where
  "utf8_bytes c =
     (if c < 0x80 then [c]
      else if c < 0x800 then [0xC0 + c div 64, 0x80 + c mod 64]
      else if c < 0x10000 then [0xE0 + c div 4096, 0x80 + c div 64 mod 64, 0x80 + c mod 64]
      else [0xF0 + c div 262144, 0x80 + c div 4096 mod 64, 0x80 + c div 64 mod 64, 0x80 + c mod 64])"

definition as_bytes :: "rstr \<Rightarrow> int list" where
  "as_bytes s = concat (map utf8_bytes s)"

text \<open>\<open>b & 0xC0 == 0x80\<close> on a byte.\<close>

definition is_continuation :: "int \<Rightarrow> bool" where
  "is_continuation b \<longleftrightarrow> b div 64 = 2"

fun boundary_loop :: "int list \<Rightarrow> nat \<Rightarrow> nat" where
  "boundary_loop bytes i =
     (if 0 < i \<and> is_continuation (bytes ! i) then boundary_loop bytes (i - 1) else i)"

declare boundary_loop.simps [simp del]

definition char_boundary_before :: "rstr \<Rightarrow> nat \<Rightarrow> nat" where
  "char_boundary_before s index =
     (if byte_len s \<le> index then byte_len s else boundary_loop (as_bytes s) index)"

text \<open>
  The longest prefix of at most \<open>n\<close> bytes, and the slice \<open>&s[..n]\<close>, which panics (\<open>None\<close>) when \<open>n\<close>
  is not a character boundary.
\<close>

fun take_bytes :: "nat \<Rightarrow> rstr \<Rightarrow> rstr" where
  "take_bytes n [] = []"
| "take_bytes n (c # s) = (if utf8_len c \<le> n then c # take_bytes (n - utf8_len c) s else [])"

definition str_slice_to :: "rstr \<Rightarrow> nat \<Rightarrow> rstr option" where
  "str_slice_to s n = (if byte_len (take_bytes n s) = n then Some (take_bytes n s) else None)"

section \<open>Truncation\<close>

definition max_tool_output_bytes :: nat where
  "max_tool_output_bytes = 50 * 1024"

definition max_tool_output_lines :: nat where
  "max_tool_output_lines = 2000"

record preview_state =
  pv_total_lines :: nat
  pv_kept_bytes :: nat
  pv_kept_lines :: nat
  pv_hit_byte_limit :: bool
  pv_done :: bool
  pv_preview :: rstr

definition preview_init :: preview_state where
  "preview_init = \<lparr>pv_total_lines = 0, pv_kept_bytes = 0, pv_kept_lines = 0, pv_hit_byte_limit = False,
     pv_done = False, pv_preview = []\<rparr>"

definition preview_step :: "preview_state \<Rightarrow> rstr \<Rightarrow> preview_state" where
  "preview_step st line =
     (let st = st\<lparr>pv_total_lines := pv_total_lines st + 1\<rparr> in
      if pv_done st then st
      else let line_size = byte_len line + (if pv_preview st = [] then 0 else 1) in
        if max_tool_output_lines < pv_kept_lines st + 1 then st\<lparr>pv_done := True\<rparr>
        else if max_tool_output_bytes < pv_kept_bytes st + line_size
        then st\<lparr>pv_hit_byte_limit := True, pv_done := True\<rparr>
        else st\<lparr>pv_preview := (if pv_preview st = [] then [] else pv_preview st @ [10]) @ line,
                pv_kept_bytes := pv_kept_bytes st + line_size,
                pv_kept_lines := pv_kept_lines st + 1\<rparr>)"

text \<open>The byte-level fallback; a slice off a boundary would panic (\<open>None\<close>).\<close>

definition preview_fallback :: "rstr \<Rightarrow> preview_state \<Rightarrow> preview_state option" where
  "preview_fallback output st =
     (if pv_preview st = [] \<and> 0 < byte_len output then
        let boundary = char_boundary_before output max_tool_output_bytes in
        map_option (\<lambda>p. st\<lparr>pv_preview := p, pv_kept_bytes := boundary, pv_kept_lines := 0,
          pv_hit_byte_limit := True\<rparr>) (str_slice_to output boundary)
      else Some st)"

definition truncation_notice :: "preview_state \<Rightarrow> nat \<Rightarrow> rstr option \<Rightarrow> rstr" where
  "truncation_notice st total_bytes saved_path =
     [10] @ lit ''[Tool output truncated ('' @
     (if pv_hit_byte_limit st then lit ''byte limit'' else lit ''line limit'') @
     lit ''): omitted '' @ dec (total_bytes - pv_kept_bytes st) @ lit '' bytes ('' @
     dec (pv_total_lines st - pv_kept_lines st) @ lit '' lines), showing first '' @
     dec (pv_kept_bytes st) @ lit '' bytes ('' @ dec (pv_kept_lines st) @ lit '' lines)]'' @ [10] @
     (case saved_path of Some p \<Rightarrow> lit ''Full output saved to: '' @ p @ [10] | None \<Rightarrow> []) @
     lit ''Use `file_read` with offset/limit or `grep` to search the full content.''"

definition truncate_tool_output :: "rstr option \<Rightarrow> rstr \<Rightarrow> rstr option" where
  "truncate_tool_output saved_path output =
     (let total_bytes = byte_len output in
      if total_bytes \<le> max_tool_output_bytes \<and> length (str_lines output) \<le> max_tool_output_lines
      then Some output
      else map_option (\<lambda>st. pv_preview st @ truncation_notice st total_bytes saved_path)
             (preview_fallback output (foldl preview_step preview_init (str_lines output))))"

section \<open>Messages and previews\<close>

text \<open>\<open>build_tool_result_message_with_appendix\<close>; the empty appendix gives \<open>build_tool_result_message\<close>.\<close>

definition build_tool_result_message_with_appendix ::
  "rstr option \<Rightarrow> nat \<Rightarrow> tool_execution_result \<Rightarrow> rstr \<Rightarrow> chat_message option" where
  "build_tool_result_message_with_appendix saved_path now result appendix =
     (let call = final_call result;
          output = tool_output result;
          output = (if appendix \<noteq> [] \<and> (case result of Completed _ (Success _) _ _ \<Rightarrow> True | _ \<Rightarrow> False)
                    then output @ appendix else output) in
      map_option (\<lambda>t. chat_tool_result (fc_call_id call) (fc_tool_name call) t (is_failure_result result) now)
        (truncate_tool_output saved_path output))"

definition build_tool_result_message ::
  "rstr option \<Rightarrow> nat \<Rightarrow> tool_execution_result \<Rightarrow> chat_message option" where
  "build_tool_result_message saved_path now result =
     build_tool_result_message_with_appendix saved_path now result []"

text \<open>Objects as \<open>serde_json::Map\<close>: insertion overwrites, removal deletes the key.\<close>

fun obj_insert :: "rstr \<Rightarrow> json \<Rightarrow> (rstr \<times> json) list \<Rightarrow> (rstr \<times> json) list" where
  "obj_insert k v [] = [(k, v)]"
| "obj_insert k v ((k', v') # kvs) = (if k' = k then (k, v) # kvs else (k', v') # obj_insert k v kvs)"

definition obj_remove :: "rstr \<Rightarrow> (rstr \<times> json) list \<Rightarrow> (rstr \<times> json) list" where
  "obj_remove k kvs = filter (\<lambda>(k', _). k' \<noteq> k) kvs"

definition mask_answer :: "json \<Rightarrow> json" where
  "mask_answer answer =
     (case answer of
        JObject kvs \<Rightarrow>
          if map_of kvs (lit ''kind'') \<noteq> Some (JString (lit ''text'')) then answer
          else (case map_of kvs (lit ''display_value'') of
                  None \<Rightarrow> answer
                | Some display \<Rightarrow>
                    if display = JNull then answer
                    else JObject (obj_remove (lit ''display_value'') (obj_insert (lit ''value'') display kvs)))
      | _ \<Rightarrow> answer)"

definition mask_answers :: "json \<Rightarrow> json" where
  "mask_answers value =
     (case value of
        JObject kvs \<Rightarrow>
          (case map_of kvs (lit ''answers'') of
             Some (JArray answers) \<Rightarrow> JObject (obj_insert (lit ''answers'') (JArray (map mask_answer answers)) kvs)
           | _ \<Rightarrow> value)
      | _ \<Rightarrow> value)"

definition filter_ask_user_question_output ::
  "(rstr \<Rightarrow> json option) \<Rightarrow> (json \<Rightarrow> rstr) \<Rightarrow> rstr \<Rightarrow> rstr" where
  "filter_ask_user_question_output from_str to_string output =
     (case from_str output of
        None \<Rightarrow> take 200 output
      | Some value \<Rightarrow> take 200 (to_string (mask_answers value)))"

section \<open>Character boundaries\<close>

lemma length_utf8_bytes [simp]: "length (utf8_bytes c) = utf8_len c"
  by (simp add: utf8_bytes_def utf8_len_def)

lemma length_as_bytes [simp]: "length (as_bytes s) = byte_len s"
  by (induction s) (simp_all add: as_bytes_def byte_len_def)

lemma as_bytes_Cons [simp]: "as_bytes (c # s) = utf8_bytes c @ as_bytes s"
  by (simp add: as_bytes_def)

lemma lead_not_continuation: "is_scalar c \<Longrightarrow> \<not> is_continuation (utf8_bytes c ! 0)"
  by (auto simp: is_scalar_def utf8_bytes_def is_continuation_def)

lemma cont_byte: "is_continuation (0x80 + x mod 64)"
proof -
  have "0 \<le> x mod 64" "x mod 64 < 64" by simp_all
  then show ?thesis unfolding is_continuation_def by linarith
qed

lemma tail_continuation: "0 < i \<Longrightarrow> i < utf8_len c \<Longrightarrow> is_continuation (utf8_bytes c ! i)"
proof -
  assume i: "0 < i" "i < utf8_len c"
  then have "i = 1 \<or> i = 2 \<or> i = 3" by (auto simp: utf8_len_def split: if_splits)
  with i show ?thesis
    by (elim disjE) (simp_all add: utf8_len_def utf8_bytes_def cont_byte split: if_splits)
qed

lemma boundary_loop_lead:
  "i < utf8_len c \<Longrightarrow> boundary_loop (utf8_bytes c @ bs) i = 0"
proof (induction i)
  case 0
  show ?case by (subst boundary_loop.simps) simp
next
  case (Suc i)
  then show ?case
    using tail_continuation [of "Suc i" c] by (subst boundary_loop.simps) (simp add: nth_append)
qed

lemma boundary_loop_shift:
  assumes "bs \<noteq> []" "\<not> is_continuation (bs ! 0)"
  shows "boundary_loop (us @ bs) (length us + i) = length us + boundary_loop bs i"
proof (induction i)
  case 0
  have "boundary_loop (us @ bs) (length us) = length us"
    using assms by (subst boundary_loop.simps) (simp add: nth_append)
  then show ?case by (subst (2) boundary_loop.simps) simp
next
  case (Suc i)
  have "(us @ bs) ! (length us + Suc i) = bs ! Suc i" by (simp add: nth_append)
  with Suc show ?case
    by (subst (1 2) boundary_loop.simps) simp
qed

lemma as_bytes_lead:
  "list_all is_scalar s \<Longrightarrow> s \<noteq> [] \<Longrightarrow> as_bytes s \<noteq> [] \<and> \<not> is_continuation (as_bytes s ! 0)"
proof (cases s)
  case (Cons c s')
  assume "list_all is_scalar s"
  with Cons have "is_scalar c" by simp
  moreover have "utf8_bytes c \<noteq> []" by (simp add: utf8_bytes_def)
  ultimately show ?thesis using lead_not_continuation [of c] by (simp add: Cons nth_append)
qed simp

lemma boundary_loop_take_bytes:
  "list_all is_scalar s \<Longrightarrow> i < byte_len s \<Longrightarrow> boundary_loop (as_bytes s) i = byte_len (take_bytes i s)"
proof (induction s arbitrary: i)
  case (Cons c s)
  show ?case
  proof (cases "i < utf8_len c")
    case True
    then show ?thesis by (simp add: boundary_loop_lead)
  next
    case False
    then obtain j where i: "i = utf8_len c + j" by (metis le_add_diff_inverse leI)
    with Cons.prems have j: "j < byte_len s" and s: "s \<noteq> []" by auto
    have "boundary_loop (utf8_bytes c @ as_bytes s) (length (utf8_bytes c) + j) =
        length (utf8_bytes c) + boundary_loop (as_bytes s) j"
      using as_bytes_lead [of s] Cons.prems s by (intro boundary_loop_shift) auto
    with Cons j i show ?thesis by simp
  qed
qed simp

lemma take_bytes_all: "byte_len s \<le> n \<Longrightarrow> take_bytes n s = s"
  by (induction s arbitrary: n) auto

lemma take_bytes_le: "byte_len (take_bytes n s) \<le> n"
proof (induction s arbitrary: n)
  case (Cons c s)
  from Cons.IH [of "n - utf8_len c"] show ?case by auto
qed simp

lemma take_bytes_prefix: "prefix (take_bytes n s) s"
  by (induction s arbitrary: n) auto

lemma take_bytes_idem: "take_bytes (byte_len (take_bytes n s)) s = take_bytes n s"
  by (induction s arbitrary: n) auto

lemma take_bytes_greatest: "prefix p s \<Longrightarrow> byte_len p \<le> n \<Longrightarrow> byte_len p \<le> byte_len (take_bytes n s)"
proof (induction s arbitrary: n p)
  case (Cons c s)
  show ?case
  proof (cases p)
    case p: (Cons d q)
    with Cons.prems have q: "d = c" "prefix q s" by auto
    with p Cons.prems have "utf8_len c \<le> n" "byte_len q \<le> n - utf8_len c" by auto
    with Cons.IH [OF q(2)] q p show ?thesis by simp
  qed simp
qed simp

lemma char_boundary_before_eq:
  "list_all is_scalar s \<Longrightarrow> char_boundary_before s i = byte_len (take_bytes i s)"
  by (simp add: char_boundary_before_def boundary_loop_take_bytes take_bytes_all)

lemma slice_at_boundary:
  "list_all is_scalar s \<Longrightarrow> str_slice_to s (char_boundary_before s i) = Some (take_bytes i s)"
  by (simp add: char_boundary_before_eq str_slice_to_def take_bytes_idem)

section \<open>The preview\<close>

text \<open>The preview is the kept lines, joined, without the empty ones at their start.\<close>

definition kept_text :: "rstr list \<Rightarrow> rstr" where
  "kept_text ls = join [10] (dropWhile (\<lambda>l. l = []) ls)"

lemma join_hd_eq_Nil: "ws \<noteq> [] \<Longrightarrow> hd ws \<noteq> [] \<Longrightarrow> join sep ws \<noteq> []"
  by (cases "(sep, ws)" rule: join.cases) auto

lemma kept_text_eq_Nil: "kept_text ls = [] \<longleftrightarrow> (\<forall>l \<in> set ls. l = [])"
proof
  assume "kept_text ls = []"
  have "dropWhile (\<lambda>l. l = []) ls = []"
  proof (rule ccontr)
    assume d: "dropWhile (\<lambda>l. l = []) ls \<noteq> []"
    then have "hd (dropWhile (\<lambda>l. l = []) ls) \<noteq> []" by (rule hd_dropWhile)
    with d join_hd_eq_Nil \<open>kept_text ls = []\<close> show False unfolding kept_text_def by blast
  qed
  then show "\<forall>l \<in> set ls. l = []" by simp
next
  assume "\<forall>l \<in> set ls. l = []"
  then have "dropWhile (\<lambda>l. l = []) ls = []" by simp
  then show "kept_text ls = []" unfolding kept_text_def by (simp only: join.simps)
qed

lemma kept_text_snoc:
  "kept_text (ls @ [l]) = (if kept_text ls = [] then l else kept_text ls @ [10] @ l)"
proof (cases "kept_text ls = []")
  case True
  then have "dropWhile (\<lambda>l. l = []) (ls @ [l]) = dropWhile (\<lambda>l. l = []) [l]"
    by (simp add: kept_text_eq_Nil dropWhile_append2)
  with True show ?thesis by (simp add: kept_text_def)
next
  case False
  then obtain x where x: "x \<in> set ls" "x \<noteq> []" by (auto simp: kept_text_eq_Nil)
  then have "dropWhile (\<lambda>l. l = []) (ls @ [l]) = dropWhile (\<lambda>l. l = []) ls @ [l]"
    by (simp add: dropWhile_append1)
  moreover have "dropWhile (\<lambda>l. l = []) ls \<noteq> []" using x by (auto simp: dropWhile_eq_Nil_conv)
  ultimately show ?thesis using False by (simp add: kept_text_def join_snoc)
qed

definition preview_inv :: "rstr list \<Rightarrow> preview_state \<Rightarrow> bool" where
  "preview_inv done_lines st \<longleftrightarrow>
     pv_total_lines st = length done_lines \<and> pv_kept_lines st \<le> length done_lines \<and>
     pv_kept_lines st \<le> max_tool_output_lines \<and>
     pv_preview st = kept_text (take (pv_kept_lines st) done_lines) \<and>
     pv_kept_bytes st = byte_len (pv_preview st) \<and> byte_len (pv_preview st) \<le> max_tool_output_bytes \<and>
     (\<not> pv_done st \<longrightarrow> pv_kept_lines st = length done_lines)"

lemma preview_step_inv: "preview_inv ls st \<Longrightarrow> preview_inv (ls @ [l]) (preview_step st l)"
  by (auto simp: preview_inv_def preview_step_def Let_def kept_text_snoc utf8_len_def)

lemma preview_fold_inv: "preview_inv ls (foldl preview_step preview_init ls)"
proof (induction ls rule: rev_induct)
  case Nil
  show ?case by (simp add: preview_inv_def preview_init_def kept_text_def)
next
  case (snoc l ls)
  then show ?case by (simp add: preview_step_inv)
qed

lemma preview_fallback_cut:
  "list_all is_scalar out \<Longrightarrow> pv_preview st = [] \<Longrightarrow> 0 < byte_len out \<Longrightarrow>
   preview_fallback out st = Some (st\<lparr>pv_preview := take_bytes max_tool_output_bytes out,
     pv_kept_bytes := byte_len (take_bytes max_tool_output_bytes out), pv_kept_lines := 0,
     pv_hit_byte_limit := True\<rparr>)"
  by (simp add: preview_fallback_def Let_def char_boundary_before_eq str_slice_to_def take_bytes_idem)

lemma preview_fallback_Some:
  assumes "list_all is_scalar out"
  obtains st where "preview_fallback out (foldl preview_step preview_init (str_lines out)) = Some st"
    "byte_len (pv_preview st) \<le> max_tool_output_bytes" "pv_kept_bytes st = byte_len (pv_preview st)"
    "pv_kept_lines st \<le> max_tool_output_lines" "pv_total_lines st = length (str_lines out)"
    "pv_preview st = kept_text (take (pv_kept_lines st) (str_lines out)) \<or>
     pv_preview st = take_bytes max_tool_output_bytes out"
proof -
  let ?st = "foldl preview_step preview_init (str_lines out)"
  have inv: "preview_inv (str_lines out) ?st" by (rule preview_fold_inv)
  show ?thesis
  proof (cases "pv_preview ?st = [] \<and> 0 < byte_len out")
    case True
    with inv assms show ?thesis
      by (intro that [OF preview_fallback_cut]) (simp_all add: take_bytes_le preview_inv_def)
  next
    case False
    then have "preview_fallback out ?st = Some ?st" by (auto simp: preview_fallback_def)
    moreover have "byte_len (pv_preview ?st) \<le> max_tool_output_bytes"
      "pv_kept_bytes ?st = byte_len (pv_preview ?st)" "pv_kept_lines ?st \<le> max_tool_output_lines"
      "pv_total_lines ?st = length (str_lines out)"
      "pv_preview ?st = kept_text (take (pv_kept_lines ?st) (str_lines out))"
      using inv unfolding preview_inv_def by blast+
    ultimately show ?thesis using that by blast
  qed
qed

text \<open>Lines of a text of newlines.\<close>

lemma split_newlines: "split_on (\<lambda>c. c = 10) (replicate n 10) = replicate (Suc n) []"
  by (induction n) auto

lemma lines_of_Nils: "lines_of (replicate (Suc n) []) = replicate n []"
  by (induction n) (simp_all add: chomp_cr_def)

lemma str_lines_newlines: "str_lines (replicate n 10) = replicate n []"
  unfolding str_lines_def split_newlines lines_of_Nils ..

lemma kept_text_Nils: "kept_text (replicate k []) = []"
  by (simp add: kept_text_eq_Nil)

lemma byte_len_newlines: "byte_len (replicate n 10) = n"
  by (induction n) (simp_all add: utf8_len_def)

section \<open>Properties\<close>



text \<open>
  The byte index the fallback cuts at is a character boundary, the greatest one not above the
  limit, so the slice never panics.
\<close>

lemma char_boundary_greatest:
  assumes "list_all is_scalar s"
  shows "\<exists>p. str_slice_to s (char_boundary_before s i) = Some p \<and> prefix p s \<and> byte_len p \<le> i \<and>
     (\<forall>q. prefix q s \<longrightarrow> byte_len q \<le> i \<longrightarrow> byte_len q \<le> char_boundary_before s i)"
  using slice_at_boundary [OF assms] char_boundary_before_eq [OF assms] take_bytes_prefix take_bytes_le
    take_bytes_greatest by metis



end
