(* ===== verification/Budget.thy ===== *)
theory Budget
  imports Messages
begin

text \<open>
  The token budget: \<open>crates/compact/src/policy.rs\<close> (\<open>CompactionPolicy\<close>, \<open>ContextThresholds\<close>,
  \<open>CompactionPolicyService::analyze\<close>) over the configuration of \<open>agent-types\<close>, and the
  shared check of \<open>max_tokens\<close> against the context window
  (\<open>agent-types/src/context/budget/max_tokens.rs\<close>). The lemmas order the thresholds, relate the
  two implementations of the limits, and characterise the accepted configurations.
\<close>

section \<open>Errors and configuration\<close>

datatype llm_error =
    RequestFailed rstr | HttpError rstr | ApiError rstr | ParseError rstr
  | RateLimited nat rstr | AuthError rstr | ModelNotFound rstr | ProviderNotFound rstr
  | ConfigError rstr | ContextLengthExceeded rstr | StreamError rstr | LlmIoError rstr
  | Timeout | RetryExhausted nat rstr | LlmCancelled

datatype budget_error = InvalidTotalBudget rstr | InvalidHardLimitRatio f64

text \<open>
  The message of an invalid configuration is kept with the ratio it formats, if any: the
  decimal rendering of a \<open>f64\<close> is not modelled.
\<close>

datatype compact_error =
    InvalidConfiguration rstr "f64 option"
  | SummaryBudgetExhausted rstr
  | SummaryParse rstr
  | BoundaryNotFound rstr
  | InvalidBudget budget_error
  | Llm llm_error

type_synonym 'a compact_result = "compact_error + 'a"

record token_budget_config =
  total_budget :: nat
  reserved_for_output :: nat
  reserved_for_system :: nat
  hard_limit_ratio :: f64

record compaction_policy =
  cp_total_budget :: nat
  cp_reserved_for_output :: nat
  cp_reserved_for_system :: nat
  cp_hard_limit_ratio :: f64

definition from_budget :: "token_budget_config \<Rightarrow> compaction_policy" where
  "from_budget b = \<lparr>cp_total_budget = total_budget b, cp_reserved_for_output = reserved_for_output b,
     cp_reserved_for_system = reserved_for_system b, cp_hard_limit_ratio = hard_limit_ratio b\<rparr>"

text \<open>\<open>(0.0..=1.0).contains(&ratio)\<close>.\<close>

definition in_unit_interval :: "f64 \<Rightarrow> bool" where
  "in_unit_interval r \<longleftrightarrow> f64_le (Fin 0) r \<and> f64_le r (Fin 1)"

definition available_budget :: "compaction_policy \<Rightarrow> nat compact_result" where
  "available_budget p =
     (if cp_total_budget p = 0
      then Inl (InvalidConfiguration (lit ''total_budget must be greater than zero'') None)
      else if \<not> in_unit_interval (cp_hard_limit_ratio p)
      then Inl (InvalidConfiguration (lit ''invalid hard_limit_ratio: '') (Some (cp_hard_limit_ratio p)))
      else Inr (cp_total_budget p - cp_reserved_for_output p - cp_reserved_for_system p))"

definition history_limit :: "compaction_policy \<Rightarrow> nat compact_result" where
  "history_limit p = rbind (available_budget p) (\<lambda>available.
     Inr (scale_floor (f64_of_usize available) (cp_hard_limit_ratio p)))"

text \<open>The \<open>TokenBudgetPolicy\<close> implementation of the same type.\<close>

definition tbp_validate :: "compaction_policy \<Rightarrow> budget_error + unit" where
  "tbp_validate p =
     (if cp_total_budget p = 0
      then Inl (InvalidTotalBudget (lit ''total_budget must be greater than zero''))
      else if \<not> in_unit_interval (cp_hard_limit_ratio p)
      then Inl (InvalidHardLimitRatio (cp_hard_limit_ratio p))
      else Inr ())"

definition tbp_available_budget :: "compaction_policy \<Rightarrow> budget_error + nat" where
  "tbp_available_budget p = rbind (tbp_validate p) (\<lambda>_.
     Inr (cp_total_budget p - cp_reserved_for_output p - cp_reserved_for_system p))"

definition tbp_history_limit :: "compaction_policy \<Rightarrow> budget_error + nat" where
  "tbp_history_limit p = rbind (tbp_available_budget p) (\<lambda>available.
     Inr (scale_floor (f64_of_usize available) (cp_hard_limit_ratio p)))"

section \<open>Thresholds and analysis\<close>

record context_thresholds =
  auto_compact_ratio :: f64
  blocking_ratio :: f64

text \<open>The loop of \<open>ContextThresholds::validate\<close> over the named ratios.\<close>

fun check_ratios :: "(rstr \<times> f64) list \<Rightarrow> unit compact_result" where
  "check_ratios [] = Inr ()"
| "check_ratios ((name, ratio) # rest) =
     (if \<not> (f64_lt (Fin 0) ratio \<and> f64_le ratio (Fin 1))
      then Inl (InvalidConfiguration (name @ lit '' must be in (0.0, 1.0]'') None)
      else check_ratios rest)"

definition thresholds_validate :: "context_thresholds \<Rightarrow> unit compact_result" where
  "thresholds_validate t = rbind
     (check_ratios [(lit ''auto_compact_ratio'', auto_compact_ratio t),
                    (lit ''blocking_ratio'', blocking_ratio t)]) (\<lambda>_.
     if f64_lt (blocking_ratio t) (auto_compact_ratio t)
     then Inl (InvalidConfiguration (lit ''auto_compact_ratio <= blocking_ratio must hold'') None)
     else Inr ())"

definition policy_service_new :: "context_thresholds \<Rightarrow> context_thresholds compact_result" where
  "policy_service_new t = rbind (thresholds_validate t) (\<lambda>_. Inr t)"

definition policy_analyze ::
  "context_thresholds \<Rightarrow> nat \<Rightarrow> compaction_policy \<Rightarrow> context_analysis compact_result" where
  "policy_analyze t est p = rbind (history_limit p) (\<lambda>limit.
     let history_limit = f64_of_usize limit in
     if f64_le history_limit (Fin 0)
     then Inl (InvalidConfiguration
       (lit ''history_limit must be greater than zero (check total_budget vs reserved tokens)'') None)
     else
       let history_limit_usize = f64_to_usize history_limit;
           auto_compact_threshold = scale_floor history_limit (auto_compact_ratio t);
           blocking_threshold = scale_floor history_limit (blocking_ratio t);
           severity = (if blocking_threshold \<le> est then Blocking
                       else if auto_compact_threshold \<le> est then AutoCompact else Normal)
       in Inr \<lparr>ca_severity = severity, ca_estimated_tokens = est,
               ca_should_compact = (severity \<noteq> Normal), ca_total_tokens = est,
               ca_available_tokens = history_limit_usize - est,
               ca_usage_ratio = f64_div (f64_of_usize est) history_limit\<rparr>)"

section \<open>The window check\<close>

definition default_system_token_reserve :: nat where
  "default_system_token_reserve = 2048"

definition system_reserve :: "nat \<Rightarrow> nat" where
  "system_reserve window = min default_system_token_reserve (window - 1)"

text \<open>
  The two refusals of \<open>validate_max_tokens_against_window\<close>. A message is the list of the parts
  that \<open>format!\<close> concatenates.
\<close>

definition reserve_clause :: "nat \<Rightarrow> rstr" where
  "reserve_clause reserve =
     (if reserve = 0 then []
      else lit ''together with the system reserve of '' @ dec reserve @ lit '' tokens, '')"

definition validate_max_tokens_against_window ::
  "nat \<Rightarrow> nat \<Rightarrow> nat \<Rightarrow> rstr \<Rightarrow> rstr \<Rightarrow> rstr \<Rightarrow> rstr + unit" where
  "validate_max_tokens_against_window max_tokens window reserve model config_path config_section =
     (if sat_add max_tokens reserve < window then Inr ()
      else if window - reserve \<le> 1 then
        Inl (lit ''the context window '' @ dec window @ lit '' for model '' @ model @
             lit '' is too small: '' @ reserve_clause reserve @
             lit ''no positive max_tokens value leaves space for input.'' @ [10] @
             lit ''Configuration file: '' @ config_path @ [10] @
             lit ''Suggestions:'' @ [10] @
             lit ''- Use a model with a larger context window'')
      else
        Inl (lit ''max_tokens '' @ dec max_tokens @ lit '' is too large relative to the context window '' @
             dec window @ lit '' for model '' @ model @ lit '': '' @ reserve_clause reserve @
             lit ''this would leave NO space for input.'' @ [10] @
             lit ''Configuration file: '' @ config_path @ [10] @
             lit ''Suggestions:'' @ [10] @
             lit ''- Reduce max_tokens (currently '' @ dec max_tokens @ lit '') in '' @
             config_section @ lit '' section''))"

section \<open>Lemmas\<close>

text \<open>Severities are ordered: \<open>Normal < AutoCompact < Blocking\<close>.\<close>

fun severity_rank :: "context_severity \<Rightarrow> nat" where
  "severity_rank Normal = 0"
| "severity_rank AutoCompact = 1"
| "severity_rank Blocking = 2"

lemma severity_rank_inj: "severity_rank a = severity_rank b \<longleftrightarrow> a = b"
  by (cases a; cases b) simp_all

instantiation context_severity :: linorder
begin

definition less_eq_context_severity :: "context_severity \<Rightarrow> context_severity \<Rightarrow> bool" where
  "less_eq_context_severity a b \<longleftrightarrow> severity_rank a \<le> severity_rank b"

definition less_context_severity :: "context_severity \<Rightarrow> context_severity \<Rightarrow> bool" where
  "less_context_severity a b \<longleftrightarrow> severity_rank a < severity_rank b"

instance
  by standard (auto simp: less_eq_context_severity_def less_context_severity_def severity_rank_inj
      dest: antisym)

end

lemma in_unit_interval_iff: "in_unit_interval r \<longleftrightarrow> (\<exists>a. r = Fin a \<and> 0 \<le> a \<and> a \<le> 1)"
  by (cases r) (auto simp: in_unit_interval_def)

lemma available_budget_Inr:
  "available_budget p = Inr n \<longleftrightarrow> 0 < cp_total_budget p \<and> in_unit_interval (cp_hard_limit_ratio p) \<and>
     n = cp_total_budget p - cp_reserved_for_output p - cp_reserved_for_system p"
  by (auto simp: available_budget_def)

lemma thresholds_validate_iff:
  "thresholds_validate t = Inr () \<longleftrightarrow>
     (\<exists>a b. auto_compact_ratio t = Fin a \<and> blocking_ratio t = Fin b \<and> 0 < a \<and> a \<le> b \<and> b \<le> 1)"
  by (cases "auto_compact_ratio t"; cases "blocking_ratio t") (auto simp: thresholds_validate_def)

lemma f64_of_usize_nonneg:
  "\<exists>x. 0 \<le> x \<and> (f64_of_usize n = Fin x \<or> f64_of_usize n = PosInf)"
  using rnd_nonneg [of "of_nat n"] f64_huge_pos
  by (auto simp: f64_of_usize_def f64_round_def Let_def)

lemma history_limit_le_available:
  assumes "history_limit p = Inr n" "available_budget p = Inr m" "m \<le> 2 ^ 53"
  shows "n \<le> m"
proof -
  obtain a where a: "cp_hard_limit_ratio p = Fin a" "0 \<le> a" "a \<le> 1"
    using assms(2) by (auto simp: available_budget_Inr in_unit_interval_iff)
  have "n = scale_floor (Fin (of_nat m)) (Fin a)"
    using assms a by (simp add: history_limit_def f64_of_usize_exact)
  then show ?thesis using scale_floor_shrinks [OF assms(3) a(2,3)] by simp
qed

text \<open>Unfolding of a successful analysis at a limit that is represented exactly.\<close>

lemma policy_analyze_exact:
  assumes "history_limit p = Inr limit" "limit \<le> 2 ^ 53"
  shows "policy_analyze t est p =
    (if limit = 0 then Inl (InvalidConfiguration
       (lit ''history_limit must be greater than zero (check total_budget vs reserved tokens)'') None)
     else
       let sev = (if scale_floor (Fin (of_nat limit)) (blocking_ratio t) \<le> est then Blocking
                  else if scale_floor (Fin (of_nat limit)) (auto_compact_ratio t) \<le> est
                  then AutoCompact else Normal)
       in Inr \<lparr>ca_severity = sev, ca_estimated_tokens = est, ca_should_compact = (sev \<noteq> Normal),
               ca_total_tokens = est, ca_available_tokens = min limit u64_max - est,
               ca_usage_ratio = f64_div (f64_of_usize est) (Fin (of_nat limit))\<rparr>)"
  using assms by (simp add: policy_analyze_def f64_of_usize_exact Let_def)

lemma two_53_le_u64: "(2::nat) ^ 53 \<le> u64_max"
  by (simp add: u64_max_def)

lemma scale_floor_half_1000: "scale_floor (Fin 1000) (Fin (1/2)) = 500"
proof -
  have "f64_mul (Fin 1000) (Fin (1/2)) = f64_of_usize 500"
    by (simp add: f64_of_usize_def)
  then show ?thesis
    by (simp add: scale_floor_def f64_of_usize_exact u64_max_def)
qed

lemma scale_floor_one_1000: "scale_floor (Fin 1000) (Fin 1) = 1000"
proof -
  have "f64_mul (Fin 1000) (Fin 1) = f64_of_usize 1000"
    by (simp add: f64_of_usize_def)
  then show ?thesis
    by (simp add: scale_floor_def f64_of_usize_exact u64_max_def)
qed

section \<open>Properties\<close>

text \<open>
  C27: with validated thresholds, an analysis that reports no token left is \<open>Blocking\<close>, compaction
  is requested exactly from the auto-compact threshold on, and the tokens left are the history
  limit minus the estimate, saturating at zero. The history limit is one that \<open>f64\<close> represents
  exactly (at most \<open>2^53\<close>).
\<close>

theorem analyze_full_history_blocks:
  assumes "thresholds_validate t = Inr ()" "history_limit p = Inr limit" "limit \<le> 2 ^ 53"
    and "policy_analyze t est p = Inr a"
  shows "(ca_available_tokens a = 0 \<longrightarrow> ca_severity a = Blocking) \<and>
         (ca_should_compact a \<longleftrightarrow> scale_floor (Fin (of_nat limit)) (auto_compact_ratio t) \<le> est) \<and>
         ca_available_tokens a = limit - est"
proof -
  obtain x y where r: "auto_compact_ratio t = Fin x" "blocking_ratio t = Fin y" "0 < x" "x \<le> y" "y \<le> 1"
    using assms(1) by (auto simp: thresholds_validate_iff)
  have b: "scale_floor (Fin (of_nat limit)) (Fin y) \<le> limit"
    using r by (intro scale_floor_shrinks assms) auto
  have m: "scale_floor (Fin (of_nat limit)) (Fin x) \<le> scale_floor (Fin (of_nat limit)) (Fin y)"
    using r by (intro scale_floor_mono) auto
  have "min limit u64_max = limit" using assms(3) two_53_le_u64 by simp
  then show ?thesis
    using assms(4) policy_analyze_exact [OF assms(2,3), of t est] b m r
    by (auto simp: Let_def split: if_splits)
qed

definition ex_thresholds :: context_thresholds where
  "ex_thresholds = \<lparr>auto_compact_ratio = Fin (1/2), blocking_ratio = Fin 1\<rparr>"

definition ex_policy :: compaction_policy where
  "ex_policy = \<lparr>cp_total_budget = 1500, cp_reserved_for_output = 300, cp_reserved_for_system = 200,
     cp_hard_limit_ratio = Fin 1\<rparr>"

lemma ex_policy_limit: "history_limit ex_policy = Inr 1000"
  by (simp add: history_limit_def available_budget_def ex_policy_def in_unit_interval_def
      f64_of_usize_exact scale_floor_one_1000)

lemma ex_policy_analyze:
  "is_ok (policy_analyze ex_thresholds est ex_policy)"
  using policy_analyze_exact [OF ex_policy_limit, of ex_thresholds est] by (simp add: Let_def)

theorem analyze_full_history_blocks_witness:
  "ca_severity (projr (policy_analyze ex_thresholds 1200 ex_policy)) = Blocking \<and>
   ca_should_compact (projr (policy_analyze ex_thresholds 1200 ex_policy))"
proof -
  obtain a where a: "policy_analyze ex_thresholds 1200 ex_policy = Inr a"
    using ex_policy_analyze by (auto simp: is_ok_iff)
  have v: "thresholds_validate ex_thresholds = Inr ()"
    by (simp add: thresholds_validate_def ex_thresholds_def)
  have r: "scale_floor (Fin 1000) (auto_compact_ratio ex_thresholds) = 500"
    by (simp add: ex_thresholds_def scale_floor_half_1000)
  show ?thesis
    using analyze_full_history_blocks [OF v ex_policy_limit _ a] by (simp add: a r)
qed

text \<open>
  A larger estimate never lowers the severity of the analysis.
\<close>

lemma analyze_severity_mono:
  assumes "policy_analyze t est p = Inr a" "policy_analyze t est' p = Inr a'" "est \<le> est'"
  shows "ca_severity a \<le> ca_severity a'"
  using assms
  by (auto simp: policy_analyze_def rbind_eq_Inr Let_def less_eq_context_severity_def split: if_splits)

text \<open>
  C28: the inherent methods of the policy and its \<open>TokenBudgetPolicy\<close> implementation compute the
  same limits and fail on the same configurations.
\<close>

theorem policy_limits_agree:
  "(available_budget p = Inr n \<longleftrightarrow> tbp_available_budget p = Inr n) \<and>
   (history_limit p = Inr m \<longleftrightarrow> tbp_history_limit p = Inr m) \<and>
   (is_ok (history_limit p) \<longleftrightarrow> tbp_validate p = Inr ())"
  by (auto simp: available_budget_def history_limit_def tbp_validate_def tbp_available_budget_def
      tbp_history_limit_def)

text \<open>
  C29: with the shared system reserve, \<open>max_tokens\<close> is accepted exactly when output and reserve
  leave at least one token of the window for input, and some positive \<open>max_tokens\<close> is accepted
  exactly when the window exceeds the default reserve by more than one token.
\<close>

theorem window_check_sound:
  assumes "window \<le> u64_max"
  shows "(validate_max_tokens_against_window mt window (system_reserve window) model path sec = Inr ()
            \<longleftrightarrow> mt + system_reserve window < window) \<and>
         ((\<exists>mt > 0. is_ok (validate_max_tokens_against_window mt window (system_reserve window) model path sec))
            \<longleftrightarrow> default_system_token_reserve + 1 < window)"
proof -
  have iff: "validate_max_tokens_against_window k window r model path sec = Inr () \<longleftrightarrow> k + r < window" for k r
    using assms by (auto simp: validate_max_tokens_against_window_def sat_add_def)
  have "(\<exists>mt > 0. mt + system_reserve window < window) \<longleftrightarrow> 1 + system_reserve window < window"
    by (metis One_nat_def Suc_leI add_le_mono1 le_less_trans zero_less_one)
  also have "\<dots> \<longleftrightarrow> default_system_token_reserve + 1 < window"
    by (auto simp: system_reserve_def min_def)
  finally show ?thesis by (simp add: is_ok_unit iff)
qed

theorem window_check_sound_witness:
  "validate_max_tokens_against_window 4096 8192 (system_reserve 8192) [] [] [] = Inr ()"
  using window_check_sound [of 8192 4096 "[]" "[]" "[]"]
  by (simp add: u64_max_def system_reserve_def default_system_token_reserve_def)

end
