(* ===== verification/Compaction.thy ===== *)
theory Compaction
  imports Budget
begin

text \<open>
  The choice of the messages a compaction replaces (\<open>crates/compact/src/compaction.rs\<close>): the
  boundary, the window, the adjustment that keeps tool calls together with their results and the
  parts of one assistant message together, the candidates, and the replacement itself. The lemmas
  characterise the adjustment as the latest admissible cut and show that no call is separated from
  its result.
\<close>

section \<open>Definitions\<close>

datatype partial_direction = BeforePivot | AfterPivot

record compaction_boundary =
  pivot_message_id :: rstr
  direction :: partial_direction

record compaction_result =
  cr_messages :: "chat_message list"
  cr_summary :: "rstr option"
  cr_boundary :: "compaction_boundary option"
  cr_updated_meta :: compression_meta
  cr_estimated_tokens :: nat

record compaction_window =
  win_start :: nat
  win_end :: nat

definition discover_boundary :: "chat_message list \<Rightarrow> nat \<Rightarrow> compaction_boundary option" where
  "discover_boundary messages preserve_tail_messages =
     (let boundary_search_end = length messages - preserve_tail_messages in
      find_map
        (\<lambda>(index, message).
           case message_id message of
             None \<Rightarrow> None
           | Some pid \<Rightarrow>
               if list_ex (\<lambda>m. role m \<noteq> System) (take index messages)
               then Some \<lparr>pivot_message_id = pid, direction = BeforePivot\<rparr> else None)
        (rev (enumerate 0 (take boundary_search_end messages))))"

definition resolve_boundary_index ::
  "chat_message list \<Rightarrow> compaction_boundary \<Rightarrow> nat compact_result" where
  "resolve_boundary_index messages boundary =
     (case position (\<lambda>m. message_id m = Some (pivot_message_id boundary)) messages of
        None \<Rightarrow> Inl (BoundaryNotFound (pivot_message_id boundary))
      | Some i \<Rightarrow> Inr i)"

definition resolve_compaction_window ::
  "chat_message list \<Rightarrow> nat \<Rightarrow> compaction_boundary option \<Rightarrow> compaction_window compact_result" where
  "resolve_compaction_window messages preserve_tail_messages boundary =
     (let protected_tail_start = length messages - preserve_tail_messages in
      rbind
        (case boundary of
           Some b \<Rightarrow> rbind (resolve_boundary_index messages b) (\<lambda>boundary_index.
             case direction b of
               BeforePivot \<Rightarrow> Inr \<lparr>win_start = 0, win_end = boundary_index\<rparr>
             | AfterPivot \<Rightarrow> Inr \<lparr>win_start = sat_add boundary_index 1, win_end = protected_tail_start\<rparr>)
         | None \<Rightarrow> Inr \<lparr>win_start = 0, win_end = protected_tail_start\<rparr>)
        (\<lambda>w. Inr \<lparr>win_start = min (win_start w) (length messages),
                  win_end = min (win_end w) (length messages)\<rparr>))"

definition message_has_tool_use_with_ids :: "chat_message \<Rightarrow> rstr set \<Rightarrow> bool" where
  "message_has_tool_use_with_ids m ids \<longleftrightarrow>
     list_ex (\<lambda>b. case b of ToolUse cid _ _ \<Rightarrow> cid \<in> ids | _ \<Rightarrow> False) (blocks m)"

text \<open>A downward loop over the window that keeps the least index satisfying a test.\<close>

definition lower_to :: "(nat \<Rightarrow> bool) \<Rightarrow> nat list \<Rightarrow> nat \<Rightarrow> nat" where
  "lower_to P is r = foldl (\<lambda>r i. if P i then min r i else r) r is"

definition find_required_keep_start :: "chat_message list \<Rightarrow> nat \<Rightarrow> nat \<Rightarrow> nat" where
  "find_required_keep_start messages window_start keep_start =
     (let kept_messages = drop keep_start messages;
          required_tool_use_ids = set (concat (map tool_result_ids kept_messages));
          required_keep_start =
            (if required_tool_use_ids \<noteq> {}
             then lower_to (\<lambda>i. message_has_tool_use_with_ids (messages ! i) required_tool_use_ids)
                    (rev [window_start..<keep_start]) keep_start
             else keep_start)
      in foldl
           (\<lambda>required kept_message.
              if role kept_message \<noteq> Assistant then required
              else case message_id kept_message of
                None \<Rightarrow> required
              | Some mid \<Rightarrow>
                  lower_to (\<lambda>i. role (messages ! i) = Assistant \<and> message_id (messages ! i) = Some mid)
                    (rev [window_start..<keep_start]) required)
           required_keep_start kept_messages)"

lemma foldl_le: "(\<And>r x. f r x \<le> (r::nat)) \<Longrightarrow> foldl f r xs \<le> r"
  by (induction xs arbitrary: r) (auto intro: order_trans)

lemma lower_to_le: "lower_to P is r \<le> r"
  unfolding lower_to_def by (rule foldl_le) auto

lemma find_required_keep_start_le: "find_required_keep_start ms ws ks \<le> ks"
  unfolding find_required_keep_start_def Let_def
  by (rule order_trans [OF foldl_le]) (auto split: option.splits simp: lower_to_le)

function adjust_loop :: "chat_message list \<Rightarrow> nat \<Rightarrow> nat \<Rightarrow> nat" where
  "adjust_loop messages floor_start adjusted_keep_start =
     (let required_keep_start = find_required_keep_start messages floor_start adjusted_keep_start in
      if required_keep_start = adjusted_keep_start then adjusted_keep_start
      else adjust_loop messages floor_start required_keep_start)"
  by auto
termination
  by (relation "measure (\<lambda>(ms, fs, ks). ks)")
     (auto simp: order_less_le find_required_keep_start_le)

declare adjust_loop.simps [simp del]

definition adjust_keep_start_for_invariants :: "chat_message list \<Rightarrow> nat \<Rightarrow> nat \<Rightarrow> nat" where
  "adjust_keep_start_for_invariants messages keep_start floor_start =
     (if keep_start \<le> floor_start \<or> length messages \<le> keep_start
      then min keep_start (length messages)
      else adjust_loop messages floor_start keep_start)"

definition candidate_indexes ::
  "chat_message list \<Rightarrow> nat \<Rightarrow> compaction_boundary option \<Rightarrow> nat list compact_result" where
  "candidate_indexes messages preserve_tail_messages boundary =
     rbind (resolve_compaction_window messages preserve_tail_messages boundary) (\<lambda>window.
       let adjusted_end =
             adjust_keep_start_for_invariants messages (win_end window) (win_start window);
           first_user_index = position (\<lambda>m. role m = User) messages
       in Inr (map fst (filter
            (\<lambda>(index, message).
               \<not> (role message = System) \<and> \<not> (Some index = first_user_index) \<and>
               \<not> (index < win_start window \<or> adjusted_end \<le> index))
            (enumerate 0 messages))))"

definition apply_candidate_replacement ::
  "chat_message list \<Rightarrow> nat list \<Rightarrow> chat_message option \<Rightarrow> chat_message list" where
  "apply_candidate_replacement messages candidates replacement =
     (let removable = set candidates;
          first_candidate = (if candidates = [] then None else Some (Min removable))
      in concat (map
           (\<lambda>(index, message).
              (if Some index = first_candidate
               then (case replacement of Some r \<Rightarrow> [r] | None \<Rightarrow> []) else []) @
              (if index \<notin> removable then [message] else []))
           (enumerate 0 messages)))"

section \<open>The cut\<close>

text \<open>
  The specification of the adjustment: message \<open>i\<close> must stay with message \<open>j\<close> when \<open>i\<close> makes a
  call that \<open>j\<close> answers, or both are parts of one assistant message; a cut is closed when no
  message of the window before it must stay with a message behind it.
\<close>

definition linked :: "chat_message \<Rightarrow> chat_message \<Rightarrow> bool" where
  "linked m m' \<longleftrightarrow> set (tool_use_ids m) \<inter> set (tool_result_ids m') \<noteq> {} \<or>
     (role m = Assistant \<and> role m' = Assistant \<and> message_id m \<noteq> None \<and> message_id m = message_id m')"

definition closed_cut :: "chat_message list \<Rightarrow> nat \<Rightarrow> nat \<Rightarrow> bool" where
  "closed_cut ms fl k \<longleftrightarrow> (\<forall>i j. fl \<le> i \<and> i < k \<and> k \<le> j \<and> j < length ms \<longrightarrow> \<not> linked (ms ! i) (ms ! j))"

lemma lower_to_simps [simp]:
  "lower_to P [] r = r"
  "lower_to P (i # is) r = lower_to P is (if P i then min r i else r)"
  by (simp_all add: lower_to_def)

text \<open>Every such loop computes a minimum.\<close>

lemma Min_insert_min:
  assumes "finite S" shows "Min (insert (min (r::nat) a) S) = Min (insert r (insert a S))"
  using assms by (cases "S = {}") (simp_all add: min.assoc)

lemma lower_to_Min: "lower_to P is r = Min (insert r {i \<in> set is. P i})"
proof (induction "is" arbitrary: r)
  case (Cons a xs)
  have "{i \<in> set (a # xs). P i} = (if P a then insert a {i \<in> set xs. P i} else {i \<in> set xs. P i})"
    by auto
  with Cons.IH [of r] Cons.IH [of "min r a"] show ?case
    by (simp add: Min_insert_min)
qed simp

lemma has_tool_use_iff:
  "message_has_tool_use_with_ids m ids \<longleftrightarrow> set (tool_use_ids m) \<inter> ids \<noteq> {}"
proof -
  have "(case b of ToolUse cid _ _ \<Rightarrow> cid \<in> ids | _ \<Rightarrow> False) \<longleftrightarrow> (\<exists>c \<in> ids. use_id b = Some c)" for b
    by (cases b) auto
  then show ?thesis
    by (auto simp: message_has_tool_use_with_ids_def list_ex_iff tool_use_ids_iff disjoint_iff)
qed

lemma Min_insert_Min:
  "finite A \<Longrightarrow> finite B \<Longrightarrow> Min (insert (Min (insert (r::nat) A)) B) = Min (insert r (A \<union> B))"
  by (cases "A = {}"; cases "B = {}") (simp_all add: Min_Un min.assoc)

lemma foldl_lower_to_Min:
  "foldl (\<lambda>r m. lower_to (Q m) is r) r ms = Min (insert r {i \<in> set is. \<exists>m \<in> set ms. Q m i})"
proof (induction ms arbitrary: r)
  case (Cons m ms)
  have "{i \<in> set is. \<exists>m' \<in> set (m # ms). Q m' i} = {i \<in> set is. Q m i} \<union> {i \<in> set is. \<exists>m' \<in> set ms. Q m' i}"
    by auto
  moreover have "foldl (\<lambda>r m. lower_to (Q m) is r) r (m # ms) =
      Min (insert (Min (insert r {i \<in> set is. Q m i})) {i \<in> set is. \<exists>m' \<in> set ms. Q m' i})"
    using Cons.IH [of "lower_to (Q m) is r"] by (simp only: foldl_Cons lower_to_Min [of "Q m"])
  ultimately show ?case
    by (simp only:) (rule Min_insert_Min; simp)
qed simp

definition same_assistant :: "chat_message \<Rightarrow> chat_message \<Rightarrow> bool" where
  "same_assistant m m' \<longleftrightarrow> role m = Assistant \<and> role m' = Assistant \<and> message_id m \<noteq> None \<and>
     message_id m = message_id m'"

lemma linked_iff: "linked m m' \<longleftrightarrow>
    set (tool_use_ids m) \<inter> set (tool_result_ids m') \<noteq> {} \<or> same_assistant m m'"
  by (simp add: linked_def same_assistant_def)

lemma same_assistant_step:
  "(if role m \<noteq> Assistant then r else case message_id m of None \<Rightarrow> r
    | Some mid \<Rightarrow> lower_to (\<lambda>i. role (ms ! i) = Assistant \<and> message_id (ms ! i) = Some mid) is r) =
   lower_to (\<lambda>i. same_assistant (ms ! i) m) is r"
proof -
  have "{i \<in> set is. same_assistant (ms ! i) m} =
     (if role m \<noteq> Assistant \<or> message_id m = None then {}
      else {i \<in> set is. role (ms ! i) = Assistant \<and> message_id (ms ! i) = Some (the (message_id m))})"
    by (auto simp: same_assistant_def)
  then show ?thesis
    by (auto simp: lower_to_Min split: option.splits)
qed

lemma required_ids_step:
  "(if set (concat (map tool_result_ids kept)) \<noteq> {}
    then lower_to (\<lambda>i. message_has_tool_use_with_ids (ms ! i) (set (concat (map tool_result_ids kept)))) is r
    else r) =
   Min (insert r {i \<in> set is. \<exists>m \<in> set kept. set (tool_use_ids (ms ! i)) \<inter> set (tool_result_ids m) \<noteq> {}})"
proof -
  have "{i \<in> set is. \<exists>m \<in> set kept. set (tool_use_ids (ms ! i)) \<inter> set (tool_result_ids m) \<noteq> {}} =
     {i \<in> set is. message_has_tool_use_with_ids (ms ! i) (set (concat (map tool_result_ids kept)))}"
    by (auto simp: has_tool_use_iff)
  then show ?thesis
    by (auto simp: lower_to_Min has_tool_use_iff)
qed

text \<open>The required start is the least window index that must stay with a kept message.\<close>

lemma find_required_Min:
  "find_required_keep_start ms ws ks =
     Min (insert ks {i. ws \<le> i \<and> i < ks \<and> (\<exists>m \<in> set (drop ks ms). linked (ms ! i) m)})"
proof -
  have "{i. ws \<le> i \<and> i < ks \<and> (\<exists>m \<in> set (drop ks ms). linked (ms ! i) m)} =
     {i \<in> set (rev [ws..<ks]). \<exists>m \<in> set (drop ks ms). set (tool_use_ids (ms ! i)) \<inter> set (tool_result_ids m) \<noteq> {}} \<union>
     {i \<in> set (rev [ws..<ks]). \<exists>m \<in> set (drop ks ms). same_assistant (ms ! i) m}"
    by (auto simp: linked_iff)
  then show ?thesis
    unfolding find_required_keep_start_def Let_def same_assistant_step required_ids_step
      foldl_lower_to_Min
    by (subst Min_insert_Min) simp_all
qed

lemma ex_kept_iff: "(\<exists>m \<in> set (drop ks ms). P m) \<longleftrightarrow> (\<exists>j. ks \<le> j \<and> j < length ms \<and> P (ms ! j))"
proof
  assume "\<exists>j. ks \<le> j \<and> j < length ms \<and> P (ms ! j)"
  then obtain j where "ks \<le> j" "j < length ms" "P (ms ! j)" by blast
  then have "drop ks ms ! (j - ks) = ms ! j" "j - ks < length (drop ks ms)" by simp_all
  then show "\<exists>m \<in> set (drop ks ms). P m" using \<open>P (ms ! j)\<close> nth_mem by metis
qed (auto simp: in_set_conv_nth, metis add.commute le_add2 less_diff_conv)

lemma find_required_fixpoint:
  "find_required_keep_start ms ws ks = ks \<longleftrightarrow> closed_cut ms ws ks"
  unfolding find_required_Min closed_cut_def ex_kept_iff
proof (subst Min_eq_iff)
  let ?S = "insert ks {i. ws \<le> i \<and> i < ks \<and> (\<exists>j \<ge> ks. j < length ms \<and> linked (ms ! i) (ms ! j))}"
  show "finite ?S" "?S \<noteq> {}" by auto
  show "(ks \<in> ?S \<and> (\<forall>y \<in> ?S. ks \<le> y)) \<longleftrightarrow>
    (\<forall>i j. ws \<le> i \<and> i < ks \<and> ks \<le> j \<and> j < length ms \<longrightarrow> \<not> linked (ms ! i) (ms ! j))"
    using not_le by blast
qed

text \<open>A closed cut before the current one is also before the required start.\<close>

lemma closed_cut_le_required:
  assumes "ws \<le> k" "k \<le> ks" "closed_cut ms ws k"
  shows "k \<le> find_required_keep_start ms ws ks"
  unfolding find_required_Min ex_kept_iff
proof (subst Min_ge_iff)
  show "\<forall>a \<in> insert ks {i. ws \<le> i \<and> i < ks \<and> (\<exists>j \<ge> ks. j < length ms \<and> linked (ms ! i) (ms ! j))}. k \<le> a"
    using assms by (auto simp: closed_cut_def) (meson le_trans not_le)
qed auto

lemma find_required_ge: "ws \<le> ks \<Longrightarrow> ws \<le> find_required_keep_start ms ws ks"
  unfolding find_required_Min by (subst Min_ge_iff) auto

text \<open>The loop ends at the latest closed cut that is not behind the requested one.\<close>

lemma adjust_loop_spec:
  "fl \<le> ks \<Longrightarrow> closed_cut ms fl (adjust_loop ms fl ks) \<and> fl \<le> adjust_loop ms fl ks \<and>
     adjust_loop ms fl ks \<le> ks \<and>
     (\<forall>k. fl \<le> k \<longrightarrow> k \<le> ks \<longrightarrow> closed_cut ms fl k \<longrightarrow> k \<le> adjust_loop ms fl ks)"
proof (induction ms fl ks rule: adjust_loop.induct)
  case (1 ms fl ks)
  let ?r = "find_required_keep_start ms fl ks"
  show ?case
  proof (cases "?r = ks")
    case True
    then have "adjust_loop ms fl ks = ks" by (subst adjust_loop.simps) simp
    with True 1 show ?thesis by (simp add: find_required_fixpoint)
  next
    case False
    then have e: "adjust_loop ms fl ks = adjust_loop ms fl ?r"
      by (subst adjust_loop.simps) (simp add: Let_def)
    have "fl \<le> ?r" using find_required_ge 1 by blast
    with 1(1) [OF refl False] find_required_keep_start_le [of ms fl ks]
      closed_cut_le_required [of fl _ ks ms]
    show ?thesis unfolding e by (meson order_trans)
  qed
qed

lemma adjust_spec:
  assumes "ks \<le> length ms"
  shows "closed_cut ms fl (adjust_keep_start_for_invariants ms ks fl) \<and>
    adjust_keep_start_for_invariants ms ks fl \<le> ks \<and>
    (fl \<le> ks \<longrightarrow> fl \<le> adjust_keep_start_for_invariants ms ks fl) \<and>
    (\<forall>k. fl \<le> k \<longrightarrow> k \<le> ks \<longrightarrow> closed_cut ms fl k \<longrightarrow> k \<le> adjust_keep_start_for_invariants ms ks fl)"
proof (cases "ks \<le> fl \<or> length ms \<le> ks")
  case True
  with assms show ?thesis
    by (auto simp: adjust_keep_start_for_invariants_def closed_cut_def)
next
  case False
  with adjust_loop_spec [of fl ks ms] show ?thesis
    by (simp add: adjust_keep_start_for_invariants_def)
qed

section \<open>The replacement\<close>

lemma enumerate_keep:
  "concat (map (\<lambda>(i, m). if i \<notin> C then [m] else []) (enumerate n ms)) = nths ms {j. j + n \<notin> C}"
proof (induction ms arbitrary: n)
  case (Cons m ms)
  then show ?case by (simp add: nths_Cons)
qed simp

lemma concat_map_enumerate_cong:
  assumes "\<And>i m. n \<le> i \<Longrightarrow> i < n + length ms \<Longrightarrow> f (i, m) = g (i, m)"
  shows "concat (map f (enumerate n ms)) = concat (map g (enumerate n ms))"
proof -
  have "map f (enumerate n ms) = map g (enumerate n ms)"
    using assms by (intro map_cong) (auto simp: in_set_enumerate_eq)
  then show ?thesis by (rule arg_cong)
qed

lemma apply_nothing: "apply_candidate_replacement ms [] rep = ms"
proof -
  have "concat (map (\<lambda>(i, m). [m]) (enumerate n ms)) = ms" for n
    by (induction ms arbitrary: n) simp_all
  then show ?thesis by (simp add: apply_candidate_replacement_def)
qed

lemma apply_removal:
  "apply_candidate_replacement ms cs None = nths ms {j. j \<notin> set cs}"
  unfolding apply_candidate_replacement_def Let_def option.case if_cancel append_Nil enumerate_keep
  by simp

lemma apply_replacement:
  assumes "cs \<noteq> []" "Min (set cs) < length ms"
  shows "apply_candidate_replacement ms cs (Some r) =
    take (Min (set cs)) ms @ r # nths (drop (Min (set cs)) ms) {j. j + Min (set cs) \<notin> set cs}"
proof -
  let ?c = "Min (set cs)"
  let ?f = "\<lambda>(i, m). (if Some i = Some ?c then [r] else []) @ (if i \<notin> set cs then [m] else [])"
  let ?g = "\<lambda>(i, m). if i \<notin> set cs then [m] else []"
  have min: "i \<notin> set cs" if "i < ?c" for i
    using that by (meson List.finite_set Min_le leD)
  obtain x xs where d: "drop ?c ms = x # xs"
    using assms(2) by (metis Cons_nth_drop_Suc)
  have len: "length (take ?c ms) = ?c" using assms(2) by simp
  have "ms = take ?c ms @ x # xs" using d by (metis append_take_drop_id)
  then have "enumerate 0 ms = enumerate 0 (take ?c ms) @ (?c, x) # enumerate (Suc ?c) xs"
    by (metis add_0 enumerate_append_eq enumerate_simps(2) len)
  then have "apply_candidate_replacement ms cs (Some r) =
      concat (map ?f (enumerate 0 (take ?c ms))) @ ?f (?c, x) @ concat (map ?f (enumerate (Suc ?c) xs))"
    unfolding apply_candidate_replacement_def Let_def option.case if_not_P [OF assms(1)] by simp
  moreover have "concat (map ?f (enumerate 0 (take ?c ms))) = concat (map ?g (enumerate 0 (take ?c ms)))"
    by (rule concat_map_enumerate_cong) auto
  moreover have "concat (map ?g (enumerate 0 (take ?c ms))) = take ?c ms"
    using enumerate_keep [of "set cs" 0 "take ?c ms"] min len by (simp add: nths_all)
  moreover have "concat (map ?f (enumerate (Suc ?c) xs)) = nths xs {j. j + Suc ?c \<notin> set cs}"
    using concat_map_enumerate_cong [of "Suc ?c" xs ?f ?g] enumerate_keep [of "set cs" "Suc ?c" xs] by simp
  moreover have "?c \<in> set cs" using assms(1) by simp
  ultimately show ?thesis by (simp add: d nths_Cons)
qed

section \<open>The candidates\<close>

lemma candidate_indexes_iff:
  assumes "candidate_indexes ms tail b = Inr cs"
  obtains w where "resolve_compaction_window ms tail b = Inr w"
    "win_end w \<le> length ms"
    "\<And>i. i \<in> set cs \<longleftrightarrow> i < length ms \<and> role (ms ! i) \<noteq> System \<and>
        Some i \<noteq> position (\<lambda>m. role m = User) ms \<and> win_start w \<le> i \<and>
        i < adjust_keep_start_for_invariants ms (win_end w) (win_start w)"
    "distinct cs"
proof -
  obtain w where w: "resolve_compaction_window ms tail b = Inr w"
    and cs: "cs = map fst (filter
            (\<lambda>(index, message).
               \<not> (role message = System) \<and> \<not> (Some index = position (\<lambda>m. role m = User) ms) \<and>
               \<not> (index < win_start w \<or> adjust_keep_start_for_invariants ms (win_end w) (win_start w) \<le> index))
            (enumerate 0 ms))"
    using assms by (auto simp: candidate_indexes_def rbind_eq_Inr Let_def)
  have "win_end w \<le> length ms"
    using w by (auto simp: resolve_compaction_window_def rbind_eq_Inr Let_def)
  moreover have "distinct cs"
    unfolding cs by (rule distinct_map_filter) simp
  ultimately show ?thesis
    using w cs by (intro that) (force simp: in_set_enumerate_eq)+
qed

text \<open>A discovered boundary lies before the protected tail.\<close>

lemma find_map_rev_enumerate:
  assumes "find_map f (rev (enumerate 0 xs)) = Some y"
  obtains i where "i < length xs" "f (i, xs ! i) = Some y"
  using find_map_SomeD [OF assms] by (auto simp: in_set_enumerate_eq)

lemma discover_boundary_SomeD:
  assumes "discover_boundary ms tail = Some b"
  obtains i where "i < length ms - tail" "message_id (ms ! i) = Some (pivot_message_id b)"
    "direction b = BeforePivot"
proof -
  obtain i where i: "i < length (take (length ms - tail) ms)"
    and f: "(case message_id (ms ! i) of None \<Rightarrow> None
       | Some pid \<Rightarrow> if list_ex (\<lambda>m. role m \<noteq> System) (take i ms)
           then Some \<lparr>pivot_message_id = pid, direction = BeforePivot\<rparr> else None) = Some b"
    using assms unfolding discover_boundary_def Let_def
    by (elim find_map_rev_enumerate) auto
  then show ?thesis
    by (intro that [of i]) (auto split: option.splits if_splits)
qed

lemma discovered_window:
  obtains e where "resolve_compaction_window ms tail (discover_boundary ms tail) = Inr \<lparr>win_start = 0, win_end = e\<rparr>"
    "e \<le> length ms - tail"
proof (cases "discover_boundary ms tail")
  case None
  then have "resolve_compaction_window ms tail (discover_boundary ms tail) = Inr \<lparr>win_start = 0, win_end = length ms - tail\<rparr>"
    by (simp add: resolve_compaction_window_def)
  then show ?thesis by (rule that) simp
next
  case (Some b)
  then obtain i where i: "i < length ms - tail" "message_id (ms ! i) = Some (pivot_message_id b)"
    "direction b = BeforePivot"
    by (rule discover_boundary_SomeD)
  have "ms ! i \<in> set ms" using i(1) by simp
  with i(2) have "position (\<lambda>m. message_id m = Some (pivot_message_id b)) ms \<noteq> None"
    unfolding position_None_iff by blast
  then obtain k where k: "position (\<lambda>m. message_id m = Some (pivot_message_id b)) ms = Some k" by blast
  then have "k \<le> i" using i(2) position_SomeD [OF k] leI by blast
  with i k Some show ?thesis
    by (intro that [of k]) (simp_all add: resolve_compaction_window_def resolve_boundary_index_def)
qed

section \<open>Pairing\<close>

text \<open>
  A history is paired when every tool result answers a call made earlier in it, the order the
  provider APIs require.
\<close>

fun paired_from :: "rstr set \<Rightarrow> chat_message list \<Rightarrow> bool" where
  "paired_from S [] = True"
| "paired_from S (m # ms) \<longleftrightarrow>
     set (tool_result_ids m) \<subseteq> S \<and> paired_from (S \<union> set (tool_use_ids m)) ms"

lemma paired_from_mono: "paired_from S ms \<Longrightarrow> S \<subseteq> S' \<Longrightarrow> paired_from S' ms"
proof (induction ms arbitrary: S S')
  case (Cons m ms)
  then show ?case
    using Cons.IH [of "S \<union> set (tool_use_ids m)" "S' \<union> set (tool_use_ids m)"] by auto
qed simp

lemma paired_from_append:
  "paired_from S (xs @ ys) \<longleftrightarrow>
     paired_from S xs \<and> paired_from (S \<union> (\<Union>m \<in> set xs. set (tool_use_ids m))) ys"
  by (induction xs arbitrary: S) (simp_all add: Un_assoc)

text \<open>Removing messages keeps a history paired when no removed message makes a call that a kept one answers.\<close>

lemma paired_from_nths:
  assumes "paired_from S ms"
    and "\<And>j. j < length ms \<Longrightarrow> j \<in> K \<Longrightarrow> set (tool_result_ids (ms ! j)) \<inter> S \<subseteq> S'"
    and "\<And>i j. i < j \<Longrightarrow> j < length ms \<Longrightarrow> j \<in> K \<Longrightarrow> i \<notin> K \<Longrightarrow>
           set (tool_use_ids (ms ! i)) \<inter> set (tool_result_ids (ms ! j)) = {}"
  shows "paired_from S' (nths ms K)"
  using assms
proof (induction ms arbitrary: S S' K)
  case (Cons m ms)
  let ?U = "set (tool_use_ids m)" and ?K = "{j. Suc j \<in> K}"
  have split: "set (tool_use_ids (ms ! i)) \<inter> set (tool_result_ids (ms ! j)) = {}"
    if "i < j" "j < length ms" "j \<in> ?K" "i \<notin> ?K" for i j
    using Cons.prems(3) [of "Suc i" "Suc j"] that by simp
  have keep: "set (tool_result_ids (ms ! j)) \<inter> S \<subseteq> S'" if "j < length ms" "j \<in> ?K" for j
    using Cons.prems(2) [of "Suc j"] that by simp
  have p: "paired_from (S \<union> ?U) ms" "set (tool_result_ids m) \<subseteq> S" using Cons.prems(1) by simp_all
  show ?case
  proof (cases "0 \<in> K")
    case True
    have "paired_from (S' \<union> ?U) (nths ms ?K)"
      by (rule Cons.IH [OF p(1) _ split]) (use keep in blast)
    moreover have "set (tool_result_ids m) \<subseteq> S'" using Cons.prems(2) [of 0] True p by auto
    ultimately show ?thesis using True by (simp add: nths_Cons)
  next
    case False
    have "paired_from S' (nths ms ?K)"
    proof (rule Cons.IH [OF p(1) _ split])
      fix j assume j: "j < length ms" "j \<in> ?K"
      then have "?U \<inter> set (tool_result_ids (ms ! j)) = {}"
        using Cons.prems(3) [of 0 "Suc j"] False by simp
      with keep [OF j] show "set (tool_result_ids (ms ! j)) \<inter> (S \<union> ?U) \<subseteq> S'" by blast
    qed
    with False show ?thesis by (simp add: nths_Cons)
  qed
qed simp

lemma nths_split_at:
  assumes "c \<le> length ms" "\<And>i. i < c \<Longrightarrow> i \<in> K"
  shows "nths ms K = take c ms @ nths (drop c ms) {j. j + c \<in> K}"
proof -
  have "nths ms K = nths (take c ms) K @ nths (drop c ms) {j. j + c \<in> K}"
    using nths_append [of "take c ms" "drop c ms" K] assms(1) by (simp add: min_absorb2)
  moreover have "nths (take c ms) K = take c ms"
    using assms by (intro nths_all) simp
  ultimately show ?thesis by simp
qed

lemma paired_from_apply:
  assumes "paired_from S (nths ms {j. j \<notin> set cs})" "\<And>i. i \<in> set cs \<Longrightarrow> i < length ms"
    and "tool_result_ids r = []"
  shows "paired_from S (apply_candidate_replacement ms cs (Some r))"
proof (cases "cs = []")
  case True
  with assms show ?thesis by (simp add: apply_nothing nths_all)
next
  case False
  let ?c = "Min (set cs)"
  have c: "?c < length ms" using False assms(2) by simp
  have "i \<notin> set cs" if "i < ?c" for i using that by (meson List.finite_set Min_le leD)
  then have "nths ms {j. j \<notin> set cs} = take ?c ms @ nths (drop ?c ms) {j. j + ?c \<notin> set cs}"
    using nths_split_at [of ?c ms "{j. j \<notin> set cs}"] c by simp
  then show ?thesis
    using assms(1,3) unfolding apply_replacement [OF False c]
    by (simp add: paired_from_append) (blast intro: paired_from_mono)
qed

lemma candidates_apart:
  assumes "candidate_indexes ms tail b = Inr cs" "i < j" "j < length ms" "j \<notin> set cs" "i \<in> set cs"
    and "role (ms ! j) = System \<or> role (ms ! j) = User \<Longrightarrow> tool_result_ids (ms ! j) = []"
  shows "set (tool_use_ids (ms ! i)) \<inter> set (tool_result_ids (ms ! j)) = {}"
proof -
  obtain w where "resolve_compaction_window ms tail b = Inr w" and w: "win_end w \<le> length ms"
    and iff: "\<And>i. i \<in> set cs \<longleftrightarrow> i < length ms \<and> role (ms ! i) \<noteq> System \<and>
        Some i \<noteq> position (\<lambda>m. role m = User) ms \<and> win_start w \<le> i \<and>
        i < adjust_keep_start_for_invariants ms (win_end w) (win_start w)"
    using candidate_indexes_iff [OF assms(1)] by metis
  let ?k = "adjust_keep_start_for_invariants ms (win_end w) (win_start w)"
  have closed: "closed_cut ms (win_start w) ?k" using adjust_spec [OF w] by blast
  have i: "win_start w \<le> i" "i < ?k" using iff [of i] assms(5) by blast+
  have "role (ms ! j) = User" if "position (\<lambda>m. role m = User) ms = Some j"
    using position_SomeD [OF that] by blast
  moreover have "\<not> linked (ms ! i) (ms ! j)" if "?k \<le> j"
    using closed i that \<open>j < length ms\<close> unfolding closed_cut_def by blast
  moreover have "?k \<le> j \<or> role (ms ! j) = System \<or> position (\<lambda>m. role m = User) ms = Some j"
    using iff [of j] assms(2-4) i(1) by (metis le_trans less_imp_le not_le)
  ultimately have "\<not> linked (ms ! i) (ms ! j) \<or> tool_result_ids (ms ! j) = []"
    using assms(6) by blast
  then show ?thesis by (auto simp: linked_def)
qed

text \<open>
  A history that ends with messages outside the candidates: what precedes them stays paired, and
  they stay the end, whether they are paired themselves or not.
\<close>

lemma compacted_paired_open:
  assumes "paired_from {} ms" "candidate_indexes (ms @ es) tail b = Inr cs" "tool_result_ids r = []"
    and "cs \<noteq> []" "\<And>i. i \<in> set cs \<Longrightarrow> i < length ms"
    and "\<And>m. m \<in> set ms \<Longrightarrow> role m = System \<or> role m = User \<Longrightarrow> tool_result_ids m = []"
  shows "apply_candidate_replacement (ms @ es) cs (Some r) = apply_candidate_replacement ms cs (Some r) @ es"
    and "paired_from {} (apply_candidate_replacement ms cs (Some r))"
proof -
  let ?c = "Min (set cs)"
  have c: "?c < length ms" using assms(4,5) by simp
  then have c': "?c < length (ms @ es)" by simp
  have "{j. j + length (drop ?c ms) \<in> {j. j + ?c \<notin> set cs}} = UNIV"
    using assms(5) c by fastforce
  then show "apply_candidate_replacement (ms @ es) cs (Some r) = apply_candidate_replacement ms cs (Some r) @ es"
    unfolding apply_replacement [OF assms(4) c'] apply_replacement [OF assms(4) c]
    using c by (simp add: nths_append nths_all)
  have "set (tool_use_ids (ms ! i)) \<inter> set (tool_result_ids (ms ! j)) = {}"
    if "i < j" "j < length ms" "j \<notin> set cs" "i \<in> set cs" for i j
    using candidates_apart [OF assms(2), of i j] assms(6) [OF nth_mem [OF that(2)]] that
    by (simp add: nth_append)
  then have "paired_from {} (nths ms {j. j \<notin> set cs})"
    by (intro paired_from_nths [OF assms(1)]) simp_all
  then show "paired_from {} (apply_candidate_replacement ms cs (Some r))"
    by (rule paired_from_apply) (simp_all add: assms(3,5))
qed

lemma compacted_paired:
  assumes "paired_from {} ms" "candidate_indexes ms tail b = Inr cs" "tool_result_ids r = []"
    and "\<And>m. m \<in> set ms \<Longrightarrow> role m = System \<or> role m = User \<Longrightarrow> tool_result_ids m = []"
  shows "paired_from {} (apply_candidate_replacement ms cs (Some r))"
proof (cases "cs = []")
  case True
  with assms(1) show ?thesis by (simp add: apply_nothing)
next
  case False
  have "i < length ms" if "i \<in> set cs" for i
    using candidate_indexes_iff [OF assms(2)] that by metis
  then show ?thesis
    using compacted_paired_open(2) [of ms "[]" tail b cs r] assms False by simp
qed

section \<open>Properties\<close>

text \<open>A small history for the witnesses: a call and its result between plain messages.\<close>

definition ex_history :: "chat_message list" where
  "ex_history =
     [chat_system (lit ''s''), chat_user (lit ''task''), chat_user (lit ''more''),
      chat_new Assistant [ToolUse (lit ''c1'') (lit ''read'') JNull] (Some (lit ''m1'')) 1 None,
      chat_tool_result (lit ''c1'') (lit ''read'') (lit ''out'') False 2,
      chat_assistant (lit ''done'') 3]"

lemmas ex_history_simps = ex_history_def chat_system_def chat_user_def chat_assistant_def
  chat_tool_result_def chat_text_def chat_new_def

text \<open>
  C24: the adjusted start of the kept messages is the latest one, not behind the requested start
  and not before the floor, at which no message of the window is separated from a kept message it
  belongs to (a call from its result, two parts of one assistant message).
\<close>

theorem adjust_latest_closed_cut:
  assumes "ks \<le> length ms"
  shows "closed_cut ms fl (adjust_keep_start_for_invariants ms ks fl) \<and>
    adjust_keep_start_for_invariants ms ks fl \<le> ks \<and>
    (fl \<le> ks \<longrightarrow> fl \<le> adjust_keep_start_for_invariants ms ks fl) \<and>
    (\<forall>k. fl \<le> k \<longrightarrow> k \<le> ks \<longrightarrow> closed_cut ms fl k \<longrightarrow> k \<le> adjust_keep_start_for_invariants ms ks fl)"
  using assms by (rule adjust_spec)

theorem adjust_latest_closed_cut_witness:
  "closed_cut ex_history 0 (adjust_keep_start_for_invariants ex_history 4 0) \<and>
   adjust_keep_start_for_invariants ex_history 4 0 \<le> 4"
  using adjust_latest_closed_cut [of 4 ex_history 0] by (simp add: ex_history_def)

text \<open>
  C23: a compaction before a pivot, or with no boundary, never separates a call of an assistant
  message from its result in a tool message: both are replaced or both are kept.
\<close>

theorem candidates_never_split_a_call:
  assumes "candidate_indexes ms tail b = Inr cs" "\<And>b'. b = Some b' \<Longrightarrow> direction b' = BeforePivot"
    and "i < j" "j < length ms" "cid \<in> set (tool_use_ids (ms ! i))" "cid \<in> set (tool_result_ids (ms ! j))"
    and "role (ms ! i) = Assistant" "role (ms ! j) = Tool"
  shows "i \<in> set cs \<longleftrightarrow> j \<in> set cs"
proof -
  obtain w where w: "resolve_compaction_window ms tail b = Inr w" "win_end w \<le> length ms"
    and iff: "\<And>i. i \<in> set cs \<longleftrightarrow> i < length ms \<and> role (ms ! i) \<noteq> System \<and>
        Some i \<noteq> position (\<lambda>m. role m = User) ms \<and> win_start w \<le> i \<and>
        i < adjust_keep_start_for_invariants ms (win_end w) (win_start w)"
    using candidate_indexes_iff [OF assms(1)] by metis
  have start: "win_start w = 0"
    using w(1) assms(2)
    by (auto simp: resolve_compaction_window_def rbind_eq_Inr Let_def split: option.splits partial_direction.splits)
  have user: "Some i \<noteq> position (\<lambda>m. role m = User) ms" "Some j \<noteq> position (\<lambda>m. role m = User) ms"
    using assms(7,8) position_SomeD [of "\<lambda>m. role m = User" ms i] position_SomeD [of "\<lambda>m. role m = User" ms j]
    by force+
  have "linked (ms ! i) (ms ! j)" using assms(5,6) by (auto simp: linked_def)
  with adjust_spec [OF w(2), of "win_start w"]
  have "\<not> (i < adjust_keep_start_for_invariants ms (win_end w) (win_start w) \<and>
     adjust_keep_start_for_invariants ms (win_end w) (win_start w) \<le> j)"
    using assms(4) start unfolding closed_cut_def by auto
  then show ?thesis
    using iff [of i] iff [of j] user assms(3,4,7,8) start by auto
qed

theorem candidates_never_split_a_call_witness:
  "candidate_indexes ex_history 1 None = Inr [2, 3, 4] \<and> candidate_indexes ex_history 2 None = Inr [2] \<and>
   (3 \<in> set (projr (candidate_indexes ex_history 2 None)) \<longleftrightarrow>
    4 \<in> set (projr (candidate_indexes ex_history 2 None)))"
proof -
  have c: "candidate_indexes ex_history 1 None = Inr [2, 3, 4]" "candidate_indexes ex_history 2 None = Inr [2]"
    by code_simp+
  have "3 \<in> set [2 :: nat] \<longleftrightarrow> 4 \<in> set [2 :: nat]"
    by (rule candidates_never_split_a_call [OF c(2), where cid = "lit ''c1''"])
       (simp_all add: ex_history_simps tool_use_ids_def tool_result_ids_def List.map_filter_def)
  with c show ?thesis by simp
qed

text \<open>
  With the boundary the manager discovers, candidates always exist as a list, and no candidate
  is a system message, the first user message, or one of the protected tail messages.
\<close>

lemma candidates_protected:
  "\<exists>cs. candidate_indexes ms tail (discover_boundary ms tail) = Inr cs \<and> distinct cs \<and>
     (\<forall>i. i \<in> set cs \<longrightarrow> i < length ms - tail \<and> role (ms ! i) \<noteq> System \<and>
        position (\<lambda>m. role m = User) ms \<noteq> Some i)"
proof -
  obtain e where e: "resolve_compaction_window ms tail (discover_boundary ms tail) =
      Inr \<lparr>win_start = 0, win_end = e\<rparr>" "e \<le> length ms - tail"
    by (rule discovered_window)
  then obtain cs where cs: "candidate_indexes ms tail (discover_boundary ms tail) = Inr cs"
    by (simp add: candidate_indexes_def Let_def)
  then obtain w where "w = \<lparr>win_start = 0, win_end = e\<rparr>" "distinct cs" "win_end w \<le> length ms"
    "\<And>i. i \<in> set cs \<longleftrightarrow> i < length ms \<and> role (ms ! i) \<noteq> System \<and>
        Some i \<noteq> position (\<lambda>m. role m = User) ms \<and> win_start w \<le> i \<and>
        i < adjust_keep_start_for_invariants ms (win_end w) (win_start w)"
    using candidate_indexes_iff [OF cs] e(1) by (metis sum.inject(2))
  with cs e(2) adjust_spec [of e ms 0] show ?thesis by fastforce
qed

text \<open>
  C26: replacing the candidates by one message keeps everything before the first candidate, puts
  the replacement in its place, and keeps the other messages in their order.
\<close>

theorem replacement_layout:
  assumes "cs \<noteq> []" "Min (set cs) < length ms"
  shows "apply_candidate_replacement ms cs (Some r) =
    take (Min (set cs)) ms @ r # nths (drop (Min (set cs)) ms) {j. j + Min (set cs) \<notin> set cs}"
  using assms by (rule apply_replacement)

theorem replacement_layout_witness:
  "take 2 (apply_candidate_replacement ex_history [2, 3] (Some (chat_user []))) = take 2 ex_history \<and>
   apply_candidate_replacement ex_history [2, 3] (Some (chat_user [])) ! 2 = chat_user []"
  using replacement_layout [of "[2, 3]" ex_history "chat_user []"] by (simp add: ex_history_def nth_append)

text \<open>
  C6: compaction preserves pairing: if every tool result of a history answers an earlier call and
  system and user messages carry no tool results, then the same holds after the candidates (for any
  boundary) are replaced by a summary message without tool results.
\<close>

theorem compaction_preserves_pairing:
  assumes "paired_from {} ms" "candidate_indexes ms tail b = Inr cs" "tool_result_ids r = []"
    and "\<And>m. m \<in> set ms \<Longrightarrow> role m = System \<or> role m = User \<Longrightarrow> tool_result_ids m = []"
  shows "paired_from {} (apply_candidate_replacement ms cs (Some r))"
  using assms by (rule compacted_paired)

theorem compaction_preserves_pairing_witness:
  "paired_from {} (apply_candidate_replacement ex_history [2] (Some (chat_assistant (lit ''auto'') 0)))"
proof -
  have c: "candidate_indexes ex_history 2 None = Inr [2]" by code_simp
  show ?thesis
  proof (rule compaction_preserves_pairing [OF _ c])
    show "paired_from {} ex_history"
      by (simp add: ex_history_simps tool_use_ids_def tool_result_ids_def List.map_filter_def)
    show "tool_result_ids (chat_assistant (lit ''auto'') 0) = []" by (simp add: chat_assistant_def)
    show "tool_result_ids m = []" if "m \<in> set ex_history" "role m = System \<or> role m = User" for m
      using that by (auto simp: ex_history_simps tool_result_ids_def List.map_filter_def)
  qed
qed

end
