(* ===== verification/Estimator.thy ===== *)
theory Estimator
  imports Budget
begin

text \<open>
  Token estimation. The \<open>TokenEstimator\<close> trait of \<open>agent-contracts\<close> is the locale
  \<open>token_estimator\<close>: its three operations and the laws the compaction code depends on. The
  \<open>RoughTokenEstimator\<close> of \<open>crates/compact/src/estimator.rs\<close>, characters over a fixed ratio
  plus overheads, is its implementation, and the interpretation discharges the laws. The compact
  JSON printer of \<open>serde_json\<close> is the parameter \<open>json_to_string\<close>.
\<close>

section \<open>The interface\<close>

locale token_estimator =
  fixes est_text :: "rstr \<Rightarrow> nat"
    and est_message :: "chat_message \<Rightarrow> nat"
    and est_messages :: "chat_message list \<Rightarrow> nat"
  assumes est_text_Nil: "est_text [] = 0"
    and est_text_mono: "length s \<le> length t \<Longrightarrow> est_text s \<le> est_text t"
    and est_text_append: "est_text (s @ t) \<le> est_text s + est_text t"
    and est_messages_sum: "est_messages ms = sum_list (map est_message ms)"
begin

lemma est_text_cong: "length s = length t \<Longrightarrow> est_text s = est_text t"
  by (simp add: antisym est_text_mono)

lemma est_messages_append: "est_messages (xs @ ys) = est_messages xs + est_messages ys"
  by (simp add: est_messages_sum)

text \<open>The estimate of a joined text depends on the pieces only up to their order.\<close>

lemma est_join_perm:
  assumes "mset ws = mset vs" shows "est_text (join sep ws) = est_text (join sep vs)"
  using assms by (intro est_text_cong length_join_perm) (metis mset_map)

end

section \<open>The rough estimator\<close>

record rough_config =
  chars_per_token :: nat
  message_overhead_tokens :: nat
  tool_use_overhead_tokens :: nat
  tool_result_overhead_tokens :: nat
  image_block_overhead_tokens :: nat
  document_block_overhead_tokens :: nat

definition rough_try_new :: "rough_config \<Rightarrow> rough_config compact_result" where
  "rough_try_new c =
     (if chars_per_token c = 0
      then Inl (InvalidConfiguration (lit ''chars_per_token must be greater than zero'') None)
      else Inr c)"

definition rough_text :: "rough_config \<Rightarrow> rstr \<Rightarrow> nat" where
  "rough_text c t =
     (let characters = length t in
      if characters = 0 then 0 else div_ceil characters (chars_per_token c))"

fun rough_block :: "(json \<Rightarrow> rstr) \<Rightarrow> rough_config \<Rightarrow> content_block \<Rightarrow> nat" where
  "rough_block js c (Text t) = rough_text c t"
| "rough_block js c (ToolUse _ name inp) =
     tool_use_overhead_tokens c + rough_text c name + rough_text c (js inp)"
| "rough_block js c (ToolResult _ name out _) =
     tool_result_overhead_tokens c + rough_text c name + rough_text c out"
| "rough_block js c (ImageBlock d) = image_block_overhead_tokens c + rough_text c d"
| "rough_block js c (DocumentBlock d) = document_block_overhead_tokens c + rough_text c d"

definition rough_message :: "(json \<Rightarrow> rstr) \<Rightarrow> rough_config \<Rightarrow> chat_message \<Rightarrow> nat" where
  "rough_message js c m =
     message_overhead_tokens c + sum_list (map (rough_block js c) (blocks m))"

definition rough_messages :: "(json \<Rightarrow> rstr) \<Rightarrow> rough_config \<Rightarrow> chat_message list \<Rightarrow> nat" where
  "rough_messages js c ms = sum_list (map (rough_message js c) ms)"

text \<open>
  The laws hold for every constructed estimator: \<open>try_new\<close> refuses a ratio of zero, and the
  interpretation takes the ratio as a successor.
\<close>

lemma rough_text_alt: "0 < chars_per_token c \<Longrightarrow> rough_text c t = div_ceil (length t) (chars_per_token c)"
  by (simp add: rough_text_def Let_def)

lemma rough_estimator:
  assumes "0 < chars_per_token c"
  shows "token_estimator (rough_text c) (rough_message js c) (rough_messages js c)"
  using assms
  by unfold_locales
     (simp_all add: rough_text_alt div_ceil_mono div_ceil_add_le rough_messages_def)

text \<open>The configuration the shipped pipelines use (\<open>crates/compact/src/defaults.rs\<close>).\<close>

definition default_rough_config :: rough_config where
  "default_rough_config = \<lparr>chars_per_token = 4, message_overhead_tokens = 4,
     tool_use_overhead_tokens = 8, tool_result_overhead_tokens = 8,
     image_block_overhead_tokens = 256, document_block_overhead_tokens = 256\<rparr>"

interpretation rough: token_estimator "rough_text default_rough_config"
    "rough_message js default_rough_config" "rough_messages js default_rough_config" for js
  by (rule rough_estimator) (simp add: default_rough_config_def)

end
