(* ===== verification/Summary.thy ===== *)
theory Summary
  imports Estimator
begin

text \<open>
  The summary of compacted messages (\<open>crates/compact/src/summary.rs\<close>): rendering messages within
  a token budget, the request to the summary model, parsing its answer, and the selection of the
  summary lines that fit. Parameters are the estimator, \<open>serde_json\<close> (record \<open>serde\<close>) and the
  model (\<open>provider\<close>). The lemmas bound every text the code builds by its budget.
\<close>

section \<open>Definitions\<close>

record summary_budget =
  max_summary_tokens :: nat
  preserve_tail_messages :: nat

definition summary_budget_validate :: "summary_budget \<Rightarrow> unit compact_result" where
  "summary_budget_validate b =
     (if max_summary_tokens b = 0
      then Inl (InvalidConfiguration (lit ''max_summary_tokens must be greater than zero'') None)
      else if preserve_tail_messages b = 0
      then Inl (InvalidConfiguration (lit ''preserve_tail_messages must be greater than zero'') None)
      else Inr ())"

record summary_result =
  sr_summary :: rstr
  sr_covered_message_count :: nat
  sr_estimated_tokens :: nat
  sr_compressed_line_count :: nat
  sr_removed_duplicate_lines :: nat
  sr_omitted_line_count :: nat

datatype line_kind =
  Header | Scope | PreviousSectionHeader | NewSectionHeader | PreviousDetail | NewDetail | OmissionNotice

record summary_line =
  sl_text :: rstr
  sl_kind :: line_kind

record summary_source =
  src_covered_message_count :: nat
  src_previous_context :: "rstr list"
  src_new_context :: "rstr list"

record summary_response =
  rsp_previous_context :: "rstr list"
  rsp_new_context :: "rstr list"

text \<open>What \<open>serde_json\<close> provides: compact printing, pretty printing of the source (which may
  fail), and deserialisation of the answer.\<close>

record serde =
  json_to_string :: "json \<Rightarrow> rstr"
  source_to_string_pretty :: "summary_source \<Rightarrow> rstr + rstr"
  summary_response_from_str :: "rstr \<Rightarrow> rstr + summary_response"

subsection \<open>Lines\<close>

definition nl :: rstr where
  "nl = [10]"

definition normalize_line :: "rstr \<Rightarrow> rstr" where
  "normalize_line line = join (lit '' '') (split_whitespace line)"

definition strip_bullet_prefix :: "rstr \<Rightarrow> rstr" where
  "strip_bullet_prefix line =
     (case strip_prefix (lit ''- '') line of Some r \<Rightarrow> r
      | None \<Rightarrow> (case strip_prefix (lit ''* '') line of Some r \<Rightarrow> r | None \<Rightarrow> line))"

text \<open>The loop of \<open>normalize_and_dedupe_lines\<close> with its set of seen keys.\<close>

fun dedupe_loop :: "rstr set \<Rightarrow> rstr list \<Rightarrow> rstr list \<times> nat" where
  "dedupe_loop seen [] = ([], 0)"
| "dedupe_loop seen (line # lines) =
     (let normalized_line = normalize_line line;
          key = map to_ascii_lower normalized_line in
      if normalized_line = [] then dedupe_loop seen lines
      else if key \<in> seen then
        (case dedupe_loop seen lines of (ls, n) \<Rightarrow> (ls, n + 1))
      else (case dedupe_loop (insert key seen) lines of (ls, n) \<Rightarrow> (normalized_line # ls, n)))"

definition normalize_and_dedupe_lines :: "rstr list \<Rightarrow> rstr list \<times> nat" where
  "normalize_and_dedupe_lines lines = dedupe_loop {} lines"

definition normalize_model_lines :: "rstr list \<Rightarrow> rstr list" where
  "normalize_model_lines lines = fst (normalize_and_dedupe_lines
     (map (\<lambda>line. trim (trim_start_matches (lit ''* '') (trim_start_matches (lit ''- '') (trim line)))) lines))"

definition extract_previous_summary_lines :: "rstr option \<Rightarrow> rstr list \<times> nat" where
  "extract_previous_summary_lines previous =
     (case previous of None \<Rightarrow> ([], 0)
      | Some s \<Rightarrow> normalize_and_dedupe_lines (List.map_filter
          (\<lambda>line. let normalized = normalize_line line in
             if normalized = [] \<or> normalized = lit ''Conversation summary:''
                \<or> starts_with (lit ''- Scope:'') normalized
                \<or> normalized = lit ''- Previously compacted context:''
                \<or> normalized = lit ''- Newly compacted context:''
                \<or> starts_with (lit ''- Additional detail lines omitted:'') normalized
             then None else Some (strip_bullet_prefix normalized))
          (str_lines s)))"

definition build_summary_lines :: "nat \<Rightarrow> rstr list \<Rightarrow> rstr list \<Rightarrow> summary_line list" where
  "build_summary_lines covered previous_lines new_lines =
     [\<lparr>sl_text = lit ''Conversation summary:'', sl_kind = Header\<rparr>,
      \<lparr>sl_text = lit ''- Scope: '' @ dec covered @ lit '' compacted message(s).'', sl_kind = Scope\<rparr>] @
     (if previous_lines \<noteq> [] then
        \<lparr>sl_text = lit ''- Previously compacted context:'', sl_kind = PreviousSectionHeader\<rparr> #
        map (\<lambda>line. \<lparr>sl_text = lit ''  - '' @ line, sl_kind = PreviousDetail\<rparr>) previous_lines
      else []) @
     \<lparr>sl_text = lit ''- Newly compacted context:'', sl_kind = NewSectionHeader\<rparr> #
     map (\<lambda>line. \<lparr>sl_text = lit ''  - '' @ line, sl_kind = NewDetail\<rparr>) new_lines"

fun line_priority :: "line_kind \<Rightarrow> nat" where
  "line_priority Header = 0"
| "line_priority Scope = 0"
| "line_priority NewSectionHeader = 1"
| "line_priority NewDetail = 1"
| "line_priority PreviousSectionHeader = 2"
| "line_priority PreviousDetail = 2"
| "line_priority OmissionNotice = 3"

definition summary_lines_fit :: "(rstr \<Rightarrow> nat) \<Rightarrow> summary_line list \<Rightarrow> nat \<Rightarrow> bool" where
  "summary_lines_fit est lines max_tokens \<longleftrightarrow> est (join nl (map sl_text lines)) \<le> max_tokens"

definition select_step ::
  "(rstr \<Rightarrow> nat) \<Rightarrow> nat \<Rightarrow> summary_line list \<Rightarrow> nat \<Rightarrow> nat list \<Rightarrow> nat \<times> summary_line \<Rightarrow> nat list" where
  "select_step est max_tokens lines priority selected = (\<lambda>(index, line).
     if line_priority (sl_kind line) \<noteq> priority \<or> index \<in> set selected then selected
     else if summary_lines_fit est (map ((!) lines) selected @ [line]) max_tokens
     then selected @ [index] else selected)"

definition select_indexes :: "(rstr \<Rightarrow> nat) \<Rightarrow> summary_line list \<Rightarrow> nat \<Rightarrow> nat list" where
  "select_indexes est lines max_tokens =
     foldl (\<lambda>selected priority. foldl (select_step est max_tokens lines priority) selected (enumerate 0 lines))
       [] [0..<4]"

definition select_summary_lines ::
  "(rstr \<Rightarrow> nat) \<Rightarrow> summary_line list \<Rightarrow> nat \<Rightarrow> summary_line list" where
  "select_summary_lines est lines max_tokens =
     map ((!) lines) (sort (select_indexes est lines max_tokens))"

subsection \<open>Rendering\<close>

fun accept_words :: "(rstr \<Rightarrow> nat) \<Rightarrow> nat \<Rightarrow> rstr list \<Rightarrow> rstr list \<Rightarrow> rstr list" where
  "accept_words est max_tokens accepted [] = accepted"
| "accept_words est max_tokens accepted (word # words) =
     (let candidate = (if accepted = [] then word else join (lit '' '') accepted @ lit '' '' @ word) in
      if est candidate > max_tokens then accepted
      else accept_words est max_tokens (accepted @ [word]) words)"

fun accept_chars :: "(rstr \<Rightarrow> nat) \<Rightarrow> nat \<Rightarrow> rstr \<Rightarrow> rstr \<Rightarrow> rstr" where
  "accept_chars est max_tokens accepted [] = accepted"
| "accept_chars est max_tokens accepted (c # cs) =
     (let candidate = accepted @ [c] in
      if est candidate > max_tokens then accepted else accept_chars est max_tokens candidate cs)"

definition fit_text_to_token_budget :: "rstr \<Rightarrow> (rstr \<Rightarrow> nat) \<Rightarrow> nat \<Rightarrow> rstr" where
  "fit_text_to_token_budget t est max_tokens =
     (if max_tokens = 0 \<or> t = [] then []
      else let accepted_words = accept_words est max_tokens [] (split_whitespace t) in
        if accepted_words \<noteq> [] then join (lit '' '') accepted_words
        else accept_chars est max_tokens [] t)"

fun render_block :: "serde \<Rightarrow> (rstr \<Rightarrow> nat) \<Rightarrow> nat \<Rightarrow> content_block \<Rightarrow> rstr" where
  "render_block sd est mt (Text t) = fit_text_to_token_budget t est mt"
| "render_block sd est mt (ToolUse cid name inp) =
     (let pre = lit ''tool_use:'' @ name @ lit '':'' @ cid @ lit '':'' in
      pre @ fit_text_to_token_budget (json_to_string sd inp) est (mt - est pre))"
| "render_block sd est mt (ToolResult cid name out err) =
     (let pre = lit ''tool_result:'' @ name @ lit '':'' @ cid @ lit '':'' @ str_of_bool err @ lit '':'' in
      pre @ fit_text_to_token_budget out est (mt - est pre))"
| "render_block sd est mt (ImageBlock d) =
     (let pre = lit ''image:'' in pre @ fit_text_to_token_budget d est (mt - est pre))"
| "render_block sd est mt (DocumentBlock d) =
     (let pre = lit ''document:'' in pre @ fit_text_to_token_budget d est (mt - est pre))"

fun render_blocks ::
  "serde \<Rightarrow> (rstr \<Rightarrow> nat) \<Rightarrow> nat \<Rightarrow> rstr list \<Rightarrow> content_block list \<Rightarrow> rstr list" where
  "render_blocks sd est content_budget rendered [] = rendered"
| "render_blocks sd est content_budget rendered (block # rest) =
     (let block_budget = content_budget - est (join (lit '' | '') rendered) in
      if block_budget = 0 then rendered
      else let rendered_block = render_block sd est block_budget block;
               candidate = (if rendered = [] then rendered_block
                            else join (lit '' | '') rendered @ lit '' | '' @ rendered_block) in
        if est candidate > content_budget then rendered
        else render_blocks sd est content_budget (rendered @ [rendered_block]) rest)"

definition render_message_line :: "serde \<Rightarrow> chat_message \<Rightarrow> (rstr \<Rightarrow> nat) \<Rightarrow> nat \<Rightarrow> rstr" where
  "render_message_line sd message est max_tokens =
     (let pre = lit ''['' @ role_as_str (role message) @ lit ''] '';
          prefix_tokens = est pre in
      if max_tokens \<le> prefix_tokens then trim_end pre
      else let content_budget = max_tokens - prefix_tokens;
               rendered = render_blocks sd est content_budget [] (blocks message) in
        if rendered = [] then trim_end pre else pre @ join (lit '' | '') rendered)"

subsection \<open>The model call\<close>

definition string_array_schema :: json where
  "string_array_schema = JObject [(lit ''type'', JString (lit ''array'')),
     (lit ''items'', JObject [(lit ''type'', JString (lit ''string''))])]"

definition compact_summary_response_schema :: json where
  "compact_summary_response_schema = JObject
     [(lit ''type'', JString (lit ''object'')),
      (lit ''additionalProperties'', JBool False),
      (lit ''properties'', JObject [(lit ''previous_context'', string_array_schema),
                                    (lit ''new_context'', string_array_schema)]),
      (lit ''required'', JArray [JString (lit ''previous_context''), JString (lit ''new_context'')])]"

definition build_summary_request :: "serde \<Rightarrow> summary_source \<Rightarrow> completion_config \<Rightarrow> llm_request compact_result" where
  "build_summary_request sd source cfg =
     rbind (map_err (\<lambda>e. SummaryParse (lit ''failed to serialize compact summary source: '' @ e))
              (source_to_string_pretty sd source)) (\<lambda>source_json.
     let schema_hint = json_to_string sd compact_summary_response_schema in
     Inr ((llm_request_new
        [chat_system (lit ''You compress conversation history into structured recall JSON. Use only the supplied source lines. Preserve concrete decisions, current state, failures, corrections, file references, and tool outcomes that still matter. Keep every string concise. Do not add markdown bullets or headings inside field values. Return ONLY a valid JSON object, no markdown fences.''),
         chat_user (lit ''Summarize this compact source into structured JSON matching this schema:'' @ nl @
           schema_hint @ nl @ nl @ lit ''Source:'' @ nl @ source_json)])
       \<lparr>lr_max_tokens := Some (cc_max_tokens cfg), lr_temperature := Some (cc_temperature cfg),
        lr_response_format := JsonObject\<rparr>))"

text \<open>Markdown code fences are stripped before parsing.\<close>

definition strip_fences :: "rstr \<Rightarrow> rstr" where
  "strip_fences t =
     (let cleaned = trim t;
          cleaned = (case strip_prefix (lit ''```json'') cleaned of Some r \<Rightarrow> r
            | None \<Rightarrow> (case strip_prefix (lit ''```'') cleaned of Some r \<Rightarrow> r | None \<Rightarrow> cleaned))
      in trim (case strip_suffix (lit ''```'') cleaned of Some r \<Rightarrow> r | None \<Rightarrow> cleaned))"

definition parse_compact_summary_response :: "serde \<Rightarrow> rstr option \<Rightarrow> summary_response compact_result" where
  "parse_compact_summary_response sd t =
     (case t of
        None \<Rightarrow> Inl (SummaryParse (lit ''summary provider returned no text payload''))
      | Some s \<Rightarrow> map_err (\<lambda>e. SummaryParse (lit ''summary provider returned invalid JSON: '' @ e))
          (summary_response_from_str sd (strip_fences s)))"

definition summary_too_small :: "nat \<Rightarrow> compact_error" where
  "summary_too_small max_tokens = SummaryBudgetExhausted
     (lit ''max_summary_tokens='' @ dec max_tokens @ lit '' is too small to fit the first message summary'')"

text \<open>The omission notice is added only when it fits.\<close>

definition add_omission_notice ::
  "(rstr \<Rightarrow> nat) \<Rightarrow> nat \<Rightarrow> nat \<Rightarrow> summary_line list \<Rightarrow> summary_line list" where
  "add_omission_notice est max_tokens omitted lines =
     (let notice = \<lparr>sl_text = lit ''- Additional detail lines omitted: '' @ dec omitted, sl_kind = OmissionNotice\<rparr> in
      if 0 < omitted \<and> summary_lines_fit est (lines @ [notice]) max_tokens then lines @ [notice] else lines)"

text \<open>The lines built from the model's answer, selected and assembled into the result.\<close>

definition merged_summary_lines :: "nat \<Rightarrow> summary_response \<Rightarrow> summary_line list" where
  "merged_summary_lines covered response = build_summary_lines covered
     (normalize_model_lines (rsp_previous_context response))
     (normalize_model_lines (rsp_new_context response))"

definition finish_summary ::
  "(rstr \<Rightarrow> nat) \<Rightarrow> nat \<Rightarrow> nat \<Rightarrow> nat \<Rightarrow> summary_line list \<Rightarrow> summary_result compact_result" where
  "finish_summary est max_tokens covered removed_duplicate_lines merged_lines =
     (let selected = select_summary_lines est merged_lines max_tokens;
          omitted = length merged_lines - length selected;
          compressed_lines = add_omission_notice est max_tokens omitted selected in
      if \<not> list_ex (\<lambda>l. sl_kind l = NewDetail) compressed_lines
      then Inl (summary_too_small max_tokens)
      else let summary = join nl (map sl_text compressed_lines) in
        Inr \<lparr>sr_summary = summary, sr_covered_message_count = covered,
             sr_estimated_tokens = est summary, sr_compressed_line_count = length compressed_lines,
             sr_removed_duplicate_lines = removed_duplicate_lines,
             sr_omitted_line_count = omitted\<rparr>)"

definition summarize_messages_with_previous ::
  "serde \<Rightarrow> (llm_request \<Rightarrow> llm_error + assistant_message) \<Rightarrow> chat_message list \<Rightarrow> rstr option \<Rightarrow>
   (rstr \<Rightarrow> nat) \<Rightarrow> summary_budget \<Rightarrow> completion_config \<Rightarrow> summary_result compact_result" where
  "summarize_messages_with_previous sd provider messages previous_summary est budget cfg =
     rbind (summary_budget_validate budget) (\<lambda>_.
     rbind (map_err (\<lambda>e. InvalidConfiguration e None) (completion_validate cfg)) (\<lambda>_.
     let rendered_new_lines = map (\<lambda>m. render_message_line sd m est (max_summary_tokens budget)) messages;
         (new_lines, new_duplicate_lines) = normalize_and_dedupe_lines rendered_new_lines;
         (previous_lines, previous_duplicate_lines) = extract_previous_summary_lines previous_summary in
     if new_lines = [] then Inl (summary_too_small (max_summary_tokens budget))
     else
     rbind (build_summary_request sd
              \<lparr>src_covered_message_count = length messages, src_previous_context = previous_lines,
               src_new_context = new_lines\<rparr> cfg) (\<lambda>request.
     rbind (map_err Llm (provider request)) (\<lambda>response.
     rbind (parse_compact_summary_response sd (am_text response)) (\<lambda>compact_summary.
     finish_summary est (max_summary_tokens budget) (length messages)
       (new_duplicate_lines + previous_duplicate_lines)
       (merged_summary_lines (length messages) compact_summary))))))"

section \<open>Deduplication\<close>

lemma dedupe_loop_spec:
  "dedupe_loop seen ls = (out, n) \<Longrightarrow>
     distinct (map (map to_ascii_lower) out) \<and> [] \<notin> set out \<and>
     set (map (map to_ascii_lower) out) \<inter> seen = {} \<and>
     length out + n = length (filter (\<lambda>l. normalize_line l \<noteq> []) ls) \<and>
     set (map (map to_ascii_lower) out) \<union> seen =
       set (map (\<lambda>l. map to_ascii_lower (normalize_line l)) (filter (\<lambda>l. normalize_line l \<noteq> []) ls)) \<union> seen \<and>
     subseq out (map normalize_line ls)"
proof (induction seen ls arbitrary: out n rule: dedupe_loop.induct)
  case (2 seen line ls)
  let ?l = "normalize_line line" and ?k = "map to_ascii_lower (normalize_line line)"
  consider "?l = []" | "?l \<noteq> []" "?k \<in> seen" | "?l \<noteq> []" "?k \<notin> seen" by blast
  then show ?case
  proof cases
    case 1
    with 2 show ?thesis by (auto simp: Let_def)
  next
    case c: 2
    obtain out' n' where r: "dedupe_loop seen ls = (out', n')" by fastforce
    with c "2.prems" have e: "out = out'" "n = Suc n'" by (auto simp: Let_def)
    show ?thesis using "2.IH"(2) [OF refl refl c(1) c(2) r] c unfolding e by auto
  next
    case c: 3
    obtain out' n' where r: "dedupe_loop (insert ?k seen) ls = (out', n')" by fastforce
    with c "2.prems" have e: "out = ?l # out'" "n = n'" by (auto simp: Let_def)
    show ?thesis using "2.IH"(3) [OF refl refl c(1) c(2) r] c unfolding e by auto
  qed
qed simp

section \<open>Budgets\<close>

context token_estimator
begin

lemma accept_words_fit:
  "est_text (join (lit '' '') acc) \<le> mt \<Longrightarrow> est_text (join (lit '' '') (accept_words est_text mt acc ws)) \<le> mt"
proof (induction ws arbitrary: acc)
  case (Cons w ws)
  then show ?case by (cases "acc = []") (auto simp: Let_def join_snoc)
qed simp

lemma accept_chars_fit: "est_text acc \<le> mt \<Longrightarrow> est_text (accept_chars est_text mt acc cs) \<le> mt"
  by (induction cs arbitrary: acc) (auto simp: Let_def)

lemma fit_text_fits: "est_text (fit_text_to_token_budget t est_text mt) \<le> mt"
  using accept_words_fit [of "[]" mt] accept_chars_fit [of "[]" mt]
  by (simp add: fit_text_to_token_budget_def Let_def est_text_Nil)

lemma render_blocks_fit:
  "est_text (join (lit '' | '') acc) \<le> cb \<Longrightarrow>
   est_text (join (lit '' | '') (render_blocks sd est_text cb acc bs)) \<le> cb"
proof (induction bs arbitrary: acc)
  case (Cons b bs)
  then show ?case by (cases "acc = []") (auto simp: Let_def join_snoc)
qed simp

lemma render_message_line_fits:
  fixes m :: chat_message
  defines "pre \<equiv> lit ''['' @ role_as_str (role m) @ lit ''] ''"
  shows "est_text (render_message_line sd m est_text mt) \<le> max mt (est_text pre)"
proof -
  have t: "length (trim_end pre) \<le> length pre"
    unfolding trim_end_def by (metis length_dropWhile_le length_rev)
  have b: "est_text (join (lit '' | '') (render_blocks sd est_text (mt - est_text pre) [] bs)) \<le> mt - est_text pre" for bs
    by (rule render_blocks_fit) (simp add: est_text_Nil)
  show ?thesis
    using est_text_mono [OF t] est_text_append [of pre "join (lit '' | '') (render_blocks sd est_text (mt - est_text pre) [] (blocks m))"]
      b [of "blocks m"]
    by (auto simp: render_message_line_def Let_def pre_def [symmetric])
qed

text \<open>Selection: the indexes stay in range, distinct, and their lines fit together.\<close>

definition selection_ok :: "nat \<Rightarrow> summary_line list \<Rightarrow> nat list \<Rightarrow> bool" where
  "selection_ok mt lines sel \<longleftrightarrow> distinct sel \<and> set sel \<subseteq> {..<length lines} \<and>
     summary_lines_fit est_text (map ((!) lines) sel) mt"

lemma select_step_ok:
  "selection_ok mt lines sel \<Longrightarrow> i < length lines \<Longrightarrow> l = lines ! i \<Longrightarrow>
   selection_ok mt lines (select_step est_text mt lines p sel (i, l))"
  by (auto simp: selection_ok_def select_step_def)

lemma select_indexes_ok: "selection_ok mt lines (select_indexes est_text lines mt)"
proof -
  have step: "selection_ok mt lines (foldl (select_step est_text mt lines p) sel (enumerate 0 lines))"
    if "selection_ok mt lines sel" for sel p
    using that by (rule foldl_invariant) (auto simp: in_set_enumerate_eq intro: select_step_ok)
  show ?thesis
    unfolding select_indexes_def
  proof (rule foldl_invariant [where P = "selection_ok mt lines"])
    show "selection_ok mt lines []" by (simp add: selection_ok_def summary_lines_fit_def est_text_Nil)
  qed (rule step)
qed

lemma select_summary_lines_fit: "summary_lines_fit est_text (select_summary_lines est_text lines mt) mt"
proof -
  let ?sel = "select_indexes est_text lines mt"
  have "mset (map sl_text (map ((!) lines) (sort ?sel))) = mset (map sl_text (map ((!) lines) ?sel))"
    by (simp only: mset_map mset_sort)
  then have "est_text (join nl (map sl_text (map ((!) lines) (sort ?sel)))) =
      est_text (join nl (map sl_text (map ((!) lines) ?sel)))"
    by (rule est_join_perm)
  then show ?thesis
    using select_indexes_ok [of mt lines]
    by (simp only: selection_ok_def summary_lines_fit_def select_summary_lines_def)
qed

lemma select_summary_lines_subseq: "subseq (select_summary_lines est_text lines mt) lines"
  unfolding select_summary_lines_def
  using select_indexes_ok [of mt lines] by (intro subseq_of_sorted_indexes) (auto simp: selection_ok_def)

lemma add_omission_notice_fit:
  "summary_lines_fit est_text ls mt \<Longrightarrow> summary_lines_fit est_text (add_omission_notice est_text mt n ls) mt"
  by (simp add: add_omission_notice_def Let_def)

lemma add_omission_notice_kinds:
  "l \<in> set (add_omission_notice est_text mt n ls) \<Longrightarrow> sl_kind l = NewDetail \<Longrightarrow> l \<in> set ls"
  by (auto simp: add_omission_notice_def Let_def split: if_splits)

text \<open>
  A successful summary fits its budget, its lines are lines of the model's answer in order (with at
  most the omission notice appended), and it holds at least one new detail.
\<close>

lemma finish_summary_ok:
  assumes "finish_summary est_text mt n d merged = Inr r"
  shows "sr_estimated_tokens r = est_text (sr_summary r) \<and> sr_estimated_tokens r \<le> mt \<and>
    sr_covered_message_count r = n \<and>
    (\<exists>ls. subseq ls merged \<and> (\<exists>l \<in> set ls. sl_kind l = NewDetail) \<and>
       sr_omitted_line_count r = length merged - length ls \<and>
       sr_summary r = join nl (map sl_text (add_omission_notice est_text mt (length merged - length ls) ls)))"
proof -
  let ?s = "select_summary_lines est_text merged mt"
  let ?c = "add_omission_notice est_text mt (length merged - length ?s) ?s"
  have r: "sr_summary r = join nl (map sl_text ?c)" "sr_estimated_tokens r = est_text (sr_summary r)"
    "sr_covered_message_count r = n" "sr_omitted_line_count r = length merged - length ?s"
    "\<exists>l \<in> set ?c. sl_kind l = NewDetail"
    using assms by (auto simp: finish_summary_def Let_def list_ex_iff split: if_splits)
  have "summary_lines_fit est_text ?c mt"
    by (rule add_omission_notice_fit [OF select_summary_lines_fit])
  then have "sr_estimated_tokens r \<le> mt" by (simp add: r summary_lines_fit_def)
  with r select_summary_lines_subseq [of merged mt] add_omission_notice_kinds show ?thesis by blast
qed

lemma summarize_ok:
  assumes "summarize_messages_with_previous sd prov ms prev est_text b cfg = Inr r"
  obtains resp d where
    "finish_summary est_text (max_summary_tokens b) (length ms) d (merged_summary_lines (length ms) resp) = Inr r"
  using assms by (auto simp: summarize_messages_with_previous_def rbind_eq_Inr split: prod.splits if_splits)

end

section \<open>Properties\<close>

text \<open>
  C25: a summary that the rough estimator accepts never exceeds the configured number of tokens, its
  recorded estimate is that of its text, and its lines are a subsequence of the lines built from
  the model's answer, at least one of them a newly compacted detail, followed at most by the notice
  that counts the omitted lines.
\<close>

theorem summary_fits_budget:
  assumes "0 < chars_per_token c"
    and "summarize_messages_with_previous sd prov ms prev (rough_text c) b cfg = Inr r"
  shows "sr_estimated_tokens r = rough_text c (sr_summary r) \<and> sr_estimated_tokens r \<le> max_summary_tokens b \<and>
    (\<exists>resp ls. subseq ls (merged_summary_lines (length ms) resp) \<and> (\<exists>l \<in> set ls. sl_kind l = NewDetail) \<and>
       sr_omitted_line_count r = length (merged_summary_lines (length ms) resp) - length ls \<and>
       sr_summary r = join nl (map sl_text
         (add_omission_notice (rough_text c) (max_summary_tokens b) (sr_omitted_line_count r) ls)))"
proof -
  note te = rough_estimator [OF assms(1), where js = "\<lambda>_. []"]
  obtain resp d where "finish_summary (rough_text c) (max_summary_tokens b) (length ms) d
      (merged_summary_lines (length ms) resp) = Inr r"
    using token_estimator.summarize_ok [OF te assms(2)] .
  from token_estimator.finish_summary_ok [OF te this] show ?thesis by metis
qed

definition ex_serde :: serde where
  "ex_serde = \<lparr>json_to_string = (\<lambda>_. lit ''{}''), source_to_string_pretty = (\<lambda>_. Inr (lit ''{}'')),
     summary_response_from_str = (\<lambda>_. Inr \<lparr>rsp_previous_context = [], rsp_new_context = [lit ''read file'']\<rparr>)\<rparr>"

definition ex_provider :: "llm_request \<Rightarrow> llm_error + assistant_message" where
  "ex_provider = (\<lambda>_. Inr \<lparr>am_text = Some (lit ''{}''), am_reasoning = None, am_tool_calls = [],
     am_usage = usage_default, am_stop_reason = EndTurn\<rparr>)"

definition ex_summary_budget :: summary_budget where
  "ex_summary_budget = \<lparr>max_summary_tokens = 40, preserve_tail_messages = 1\<rparr>"

definition ex_completion :: completion_config where
  "ex_completion = \<lparr>cc_max_tokens = 100, cc_temperature = Fin 0\<rparr>"

lemma ex_summary_ok:
  "is_ok (summarize_messages_with_previous ex_serde ex_provider [chat_user (lit ''go'')] None
     (rough_text default_rough_config) ex_summary_budget ex_completion)"
  by code_simp

theorem summary_fits_budget_witness:
  "sr_estimated_tokens (projr (summarize_messages_with_previous ex_serde ex_provider [chat_user (lit ''go'')] None
     (rough_text default_rough_config) ex_summary_budget ex_completion)) \<le> 40"
proof -
  obtain r where r: "summarize_messages_with_previous ex_serde ex_provider [chat_user (lit ''go'')] None
     (rough_text default_rough_config) ex_summary_budget ex_completion = Inr r"
    using ex_summary_ok by (auto simp: is_ok_iff)
  have "0 < chars_per_token default_rough_config" "max_summary_tokens ex_summary_budget = 40"
    by (simp_all add: default_rough_config_def ex_summary_budget_def)
  with summary_fits_budget [OF _ r] show ?thesis by (simp only: r sum.sel) simp
qed

text \<open>
  Deduplication returns the distinct non-empty normalised lines in their order, distinct up to
  ASCII case; every non-empty line is kept or counted as a removed duplicate, and every line's key
  survives.
\<close>

lemma dedupe_spec:
  "distinct (map (map to_ascii_lower) (fst (normalize_and_dedupe_lines ls))) \<and>
   [] \<notin> set (fst (normalize_and_dedupe_lines ls)) \<and>
   subseq (fst (normalize_and_dedupe_lines ls)) (map normalize_line ls) \<and>
   length (fst (normalize_and_dedupe_lines ls)) + snd (normalize_and_dedupe_lines ls) =
     length (filter (\<lambda>l. normalize_line l \<noteq> []) ls) \<and>
   set (map (map to_ascii_lower) (fst (normalize_and_dedupe_lines ls))) =
     set (map (\<lambda>l. map to_ascii_lower (normalize_line l)) (filter (\<lambda>l. normalize_line l \<noteq> []) ls))"
  using dedupe_loop_spec [of "{}" ls "fst (dedupe_loop {} ls)" "snd (dedupe_loop {} ls)"]
  unfolding normalize_and_dedupe_lines_def by (simp only: prod.collapse) simp

text \<open>
  The rendered line of a message stays within the token budget of the summary whenever the
  role prefix alone fits it.
\<close>

lemma rendered_line_fits:
  assumes "0 < chars_per_token c" "rough_text c (lit ''['' @ role_as_str (role m) @ lit ''] '') \<le> mt"
  shows "rough_text c (render_message_line sd m (rough_text c) mt) \<le> mt"
  using token_estimator.render_message_line_fits [OF rough_estimator [OF assms(1)], of sd m mt] assms(2)
  by (simp add: max_def)

lemma rendered_line_fits_witness:
  "rough_text default_rough_config (render_message_line ex_serde (chat_user (lit ''a long text'')) (rough_text default_rough_config) 3) \<le> 3"
  by (rule rendered_line_fits)
     (simp_all add: default_rough_config_def rough_text_def div_ceil_def chat_user_def chat_text_def)

end
