(* ===== verification/ContextManager.thy ===== *)
theory ContextManager
  imports Compaction Summary
begin

text \<open>
  The compression pipelines of \<open>crates/compact\<close>: \<open>ContextManager\<close> (\<open>manager.rs\<close>) with its
  configuration, context envelope (\<open>envelope.rs\<close>) and default construction (\<open>defaults.rs\<close>), and
  the no-op \<open>PassthroughCompressionPipeline\<close> (\<open>passthrough.rs\<close>). What the agent loop relies on
  is the locale \<open>compression_pipeline\<close>; both pipelines are interpretations of it.
\<close>

section \<open>Definitions\<close>

datatype compression_error = CompressionFailed compact_error

record estimator =
  es_text :: "rstr \<Rightarrow> nat"
  es_message :: "chat_message \<Rightarrow> nat"
  es_messages :: "chat_message list \<Rightarrow> nat"

record context_manager_config =
  cm_thresholds :: context_thresholds
  cm_summary_budget :: summary_budget

definition cm_config_validate :: "context_manager_config \<Rightarrow> unit compact_result" where
  "cm_config_validate c =
     rbind (thresholds_validate (cm_thresholds c)) (\<lambda>_.
     rbind (summary_budget_validate (cm_summary_budget c)) (\<lambda>_. Inr ()))"

record context_manager =
  cm_estimator :: estimator
  cm_service :: context_thresholds
  cm_config :: context_manager_config
  cm_serde :: serde
  cm_summary_provider :: "llm_request \<Rightarrow> llm_error + assistant_message"
  cm_summary_request :: completion_config

definition cm_new ::
  "serde \<Rightarrow> estimator \<Rightarrow> context_manager_config \<Rightarrow> (llm_request \<Rightarrow> llm_error + assistant_message) \<Rightarrow>
   completion_config \<Rightarrow> context_manager compact_result" where
  "cm_new sd est config provider request =
     rbind (cm_config_validate config) (\<lambda>_.
     rbind (map_err (\<lambda>e. InvalidConfiguration e None) (completion_validate request)) (\<lambda>_.
     rbind (policy_service_new (cm_thresholds config)) (\<lambda>service.
     Inr \<lparr>cm_estimator = est, cm_service = service, cm_config = config, cm_serde = sd,
          cm_summary_provider = provider, cm_summary_request = request\<rparr>)))"

definition checked_analyze ::
  "context_manager \<Rightarrow> chat_message list \<Rightarrow> token_budget_config \<Rightarrow> context_analysis compact_result" where
  "checked_analyze cm messages budget =
     policy_analyze (cm_service cm) (es_messages (cm_estimator cm) messages) (from_budget budget)"

definition resolve_candidates ::
  "chat_message list \<Rightarrow> nat \<Rightarrow> compaction_boundary option \<Rightarrow>
   (compaction_boundary option \<times> nat list) compact_result" where
  "resolve_candidates messages tail boundary =
     (let effective_boundary = (case boundary of Some b \<Rightarrow> Some b | None \<Rightarrow> discover_boundary messages tail) in
      rbind (candidate_indexes messages tail effective_boundary) (\<lambda>candidates.
      Inr (effective_boundary, candidates)))"

definition is_compression_summary :: "chat_message \<Rightarrow> bool" where
  "is_compression_summary m \<longleftrightarrow>
     role m = Assistant \<and>
     list_ex (\<lambda>b. case b of Text t \<Rightarrow> starts_with (lit ''auto_compact:'' @ nl) t | _ \<Rightarrow> False) (blocks m)"

definition summary_message :: "chat_message list \<Rightarrow> rstr \<Rightarrow> chat_message" where
  "summary_message candidate_messages summary =
     chat_new Assistant [Text (lit ''auto_compact:'' @ nl @ summary)]
       (find_map message_id candidate_messages)
       (if candidate_messages = [] then 0 else timestamp_ms (last candidate_messages))
       None"

definition auto_compact ::
  "context_manager \<Rightarrow> chat_message list \<Rightarrow> compression_meta \<Rightarrow> compaction_boundary option \<Rightarrow> nat \<Rightarrow>
   compaction_result compact_result" where
  "auto_compact cm messages meta boundary tail =
     rbind (resolve_candidates messages tail boundary) (\<lambda>(boundary, candidates).
     if candidates = [] then
       Inr \<lparr>cr_messages = messages, cr_summary = compact_summary meta, cr_boundary = boundary,
            cr_updated_meta = meta, cr_estimated_tokens = es_messages (cm_estimator cm) messages\<rparr>
     else
       let candidate_messages = map ((!) messages) candidates;
           previous_summary = (if list_ex is_compression_summary candidate_messages then None
                               else compact_summary meta) in
       rbind (summarize_messages_with_previous (cm_serde cm) (cm_summary_provider cm) candidate_messages
                previous_summary (es_text (cm_estimator cm)) (cm_summary_budget (cm_config cm))
                (cm_summary_request cm)) (\<lambda>summary.
       let compacted_messages = apply_candidate_replacement messages candidates
             (Some (summary_message candidate_messages (sr_summary summary)));
           updated_meta = meta\<lparr>compact_summary := Some (sr_summary summary),
             last_compact_turn := Some ((case last_compact_turn meta of Some n \<Rightarrow> n | None \<Rightarrow> 0) + 1)\<rparr> in
       Inr \<lparr>cr_messages = compacted_messages, cr_summary = Some (sr_summary summary),
            cr_boundary = boundary, cr_updated_meta = updated_meta,
            cr_estimated_tokens = es_messages (cm_estimator cm) compacted_messages\<rparr>))"

text \<open>\<open>CompressionPipeline for ContextManager\<close>; \<open>analyze\<close> panics on an error, here \<open>None\<close>.\<close>

definition cm_analyze :: "context_manager \<Rightarrow> chat_message list \<Rightarrow> token_budget_config \<Rightarrow> context_analysis option" where
  "cm_analyze cm messages budget =
     (case checked_analyze cm messages budget of Inr a \<Rightarrow> Some a | Inl _ \<Rightarrow> None)"

definition cm_compress ::
  "context_manager \<Rightarrow> chat_message list \<Rightarrow> token_budget_config \<Rightarrow> compression_meta \<Rightarrow>
   compression_error + compressed_view" where
  "cm_compress cm messages budget meta =
     rbind (map_err CompressionFailed (checked_analyze cm messages budget)) (\<lambda>analysis.
     if \<not> ca_should_compact analysis then
       Inr \<lparr>cv_messages = messages, cv_removed_count = 0, cv_summary = compact_summary meta,
            cv_updated_meta = meta, cv_estimated_tokens = ca_estimated_tokens analysis\<rparr>
     else
       rbind (map_err CompressionFailed (auto_compact cm messages meta None
                (preserve_tail_messages (cm_summary_budget (cm_config cm))))) (\<lambda>result.
       let working_messages = cr_messages result in
       Inr \<lparr>cv_messages = working_messages,
            cv_removed_count = length messages - length working_messages,
            cv_summary = cr_summary result, cv_updated_meta = cr_updated_meta result,
            cv_estimated_tokens = es_messages (cm_estimator cm) working_messages\<rparr>))"

subsection \<open>The envelope\<close>

record context_section =
  sec_label :: rstr
  sec_message_count :: nat
  sec_token_estimate :: nat

record context_breakdown =
  bd_total_tokens :: nat
  bd_head_tokens :: nat
  bd_summary_tokens :: nat
  bd_tail_tokens :: nat

record context_envelope =
  env_sections :: "context_section list"
  env_breakdown :: context_breakdown
  env_analysis :: context_analysis

definition envelope_build ::
  "chat_message list \<Rightarrow> rstr option \<Rightarrow> estimator \<Rightarrow> context_analysis \<Rightarrow> nat \<Rightarrow> context_envelope" where
  "envelope_build messages summary est analysis tail_count =
     (let tail_start = length messages - tail_count;
          head_msgs = take tail_start messages; tail_msgs = drop tail_start messages;
          head_tokens = es_messages est head_msgs; tail_tokens = es_messages est tail_msgs;
          summary_tokens = (case summary of Some s \<Rightarrow> es_text est s | None \<Rightarrow> 0) in
      \<lparr>env_sections =
         \<lparr>sec_label = lit ''head'', sec_message_count = length head_msgs, sec_token_estimate = head_tokens\<rparr> #
         (if summary \<noteq> None
          then [\<lparr>sec_label = lit ''summary'', sec_message_count = 1, sec_token_estimate = summary_tokens\<rparr>] else []) @
         [\<lparr>sec_label = lit ''tail'', sec_message_count = length tail_msgs, sec_token_estimate = tail_tokens\<rparr>],
       env_breakdown = \<lparr>bd_total_tokens = head_tokens + tail_tokens + summary_tokens,
         bd_head_tokens = head_tokens, bd_summary_tokens = summary_tokens, bd_tail_tokens = tail_tokens\<rparr>,
       env_analysis = analysis\<rparr>)"

definition build_envelope ::
  "context_manager \<Rightarrow> chat_message list \<Rightarrow> token_budget_config \<Rightarrow> rstr option \<Rightarrow> context_envelope compact_result" where
  "build_envelope cm messages budget summary =
     rbind (checked_analyze cm messages budget) (\<lambda>analysis.
     Inr (envelope_build messages summary (cm_estimator cm) analysis
            (preserve_tail_messages (cm_summary_budget (cm_config cm)))))"

subsection \<open>The passthrough pipeline\<close>

fun passthrough_block :: "(json \<Rightarrow> rstr) \<Rightarrow> content_block \<Rightarrow> nat" where
  "passthrough_block js (Text t) = byte_len t"
| "passthrough_block js (ToolUse cid name inp) = byte_len cid + byte_len name + byte_len (js inp)"
| "passthrough_block js (ToolResult cid name out _) = byte_len cid + byte_len name + byte_len out"
| "passthrough_block js (ImageBlock d) = byte_len d"
| "passthrough_block js (DocumentBlock d) = byte_len d"

definition passthrough_analyze ::
  "(json \<Rightarrow> rstr) \<Rightarrow> chat_message list \<Rightarrow> token_budget_config \<Rightarrow> context_analysis option" where
  "passthrough_analyze js messages budget =
     (let est = sum_list (map (passthrough_block js) (concat (map blocks messages)));
          available = unwrap_or (tbp_available_budget (from_budget budget)) 0 in
      Some \<lparr>ca_severity = Normal, ca_estimated_tokens = est, ca_should_compact = False,
            ca_total_tokens = est, ca_available_tokens = available,
            ca_usage_ratio = (if available = 0 then Fin 0
                              else f64_div (f64_of_usize est) (f64_of_usize available))\<rparr>)"

definition passthrough_compress ::
  "chat_message list \<Rightarrow> token_budget_config \<Rightarrow> compression_meta \<Rightarrow> compression_error + compressed_view" where
  "passthrough_compress messages budget meta =
     Inr \<lparr>cv_messages = messages, cv_removed_count = 0, cv_summary = None, cv_updated_meta = meta,
          cv_estimated_tokens = length messages\<rparr>"

subsection \<open>Default construction\<close>

record compact_overrides =
  ov_auto_compact_ratio :: "f64 option"
  ov_blocking_ratio :: "f64 option"
  ov_summary_max_tokens :: "nat option"
  ov_summary_preserve_tail :: "nat option"
  ov_summary_llm_max_tokens :: "nat option"

definition no_overrides :: compact_overrides where
  "no_overrides = \<lparr>ov_auto_compact_ratio = None, ov_blocking_ratio = None, ov_summary_max_tokens = None,
     ov_summary_preserve_tail = None, ov_summary_llm_max_tokens = None\<rparr>"

definition opt_or :: "'a option \<Rightarrow> 'a \<Rightarrow> 'a" where
  "opt_or x d = (case x of Some y \<Rightarrow> y | None \<Rightarrow> d)"

definition rough_as_estimator :: "serde \<Rightarrow> rough_config \<Rightarrow> estimator" where
  "rough_as_estimator sd c = \<lparr>es_text = rough_text c, es_message = rough_message (json_to_string sd) c,
     es_messages = rough_messages (json_to_string sd) c\<rparr>"

text \<open>The decimal literals of the source are rounded to \<open>f64\<close>.\<close>

definition build_context_manager ::
  "serde \<Rightarrow> compact_overrides option \<Rightarrow> (llm_request \<Rightarrow> llm_error + assistant_message) \<Rightarrow>
   context_manager compact_result" where
  "build_context_manager sd overrides provider =
     (let ov = opt_or overrides no_overrides in
      rbind (rough_try_new default_rough_config) (\<lambda>rough.
      cm_new sd (rough_as_estimator sd rough)
        \<lparr>cm_thresholds = \<lparr>auto_compact_ratio = opt_or (ov_auto_compact_ratio ov) (f64_round (75/100)),
                         blocking_ratio = opt_or (ov_blocking_ratio ov) (f64_round (9/10))\<rparr>,
         cm_summary_budget = \<lparr>max_summary_tokens = opt_or (ov_summary_max_tokens ov) 1024,
                             preserve_tail_messages = opt_or (ov_summary_preserve_tail ov) 4\<rparr>\<rparr>
        provider
        \<lparr>cc_max_tokens = opt_or (ov_summary_llm_max_tokens ov) 4096, cc_temperature = f64_round (2/10)\<rparr>))"

section \<open>What compaction keeps\<close>

lemma filter_nths:
  "(\<And>j. j < length xs \<Longrightarrow> j \<notin> K \<Longrightarrow> \<not> P (xs ! j)) \<Longrightarrow> filter P (nths xs K) = filter P xs"
proof (induction xs arbitrary: K)
  case (Cons x xs)
  have "filter P (nths xs {j. Suc j \<in> K}) = filter P xs"
    by (rule Cons.IH) (use Cons.prems in force)
  with Cons.prems [of 0] show ?case by (auto simp: nths_Cons)
qed simp

lemma find_nths:
  "(\<And>j. position P xs = Some j \<Longrightarrow> j \<in> K) \<Longrightarrow> find P (nths xs K) = find P xs"
proof (induction xs arbitrary: K)
  case (Cons x xs)
  show ?case
  proof (cases "P x")
    case True
    with Cons.prems [of 0] show ?thesis by (simp add: nths_Cons)
  next
    case False
    have "find P (nths xs {j. Suc j \<in> K}) = find P xs"
      by (rule Cons.IH) (use Cons.prems False in auto)
    with False show ?thesis by (simp add: nths_Cons)
  qed
qed simp

lemma find_append: "find P (xs @ ys) = (case find P xs of None \<Rightarrow> find P ys | Some x \<Rightarrow> Some x)"
  by (induction xs) auto

lemma candidates_split:
  assumes "cs \<noteq> []" "\<And>i. i \<in> set cs \<Longrightarrow> i < length ms"
  shows "nths ms {j. j \<notin> set cs} =
      take (Min (set cs)) ms @ nths (drop (Min (set cs)) ms) {j. j + Min (set cs) \<notin> set cs}"
    and "apply_candidate_replacement ms cs (Some r) =
      take (Min (set cs)) ms @ r # nths (drop (Min (set cs)) ms) {j. j + Min (set cs) \<notin> set cs}"
proof -
  have c: "Min (set cs) < length ms" using assms by simp
  have "i \<notin> set cs" if "i < Min (set cs)" for i using that by (meson List.finite_set Min_le leD)
  then show "nths ms {j. j \<notin> set cs} =
      take (Min (set cs)) ms @ nths (drop (Min (set cs)) ms) {j. j + Min (set cs) \<notin> set cs}"
    using nths_split_at [of "Min (set cs)" ms "{j. j \<notin> set cs}"] c by simp
  show "apply_candidate_replacement ms cs (Some r) =
      take (Min (set cs)) ms @ r # nths (drop (Min (set cs)) ms) {j. j + Min (set cs) \<notin> set cs}"
    by (rule apply_replacement [OF assms(1) c])
qed

text \<open>The effect of a replacement, relative to the plain removal of the candidates.\<close>

lemma apply_filter:
  assumes "cs \<noteq> []" "\<And>i. i \<in> set cs \<Longrightarrow> i < length ms" "\<not> P r"
  shows "filter P (apply_candidate_replacement ms cs (Some r)) = filter P (nths ms {j. j \<notin> set cs})"
    and "find P (apply_candidate_replacement ms cs (Some r)) = find P (nths ms {j. j \<notin> set cs})"
  using assms(3)
  by (simp_all add: candidates_split [OF assms(1,2)] find_append split: option.split)

lemma apply_length:
  assumes "cs \<noteq> []" "distinct cs" "\<And>i. i \<in> set cs \<Longrightarrow> i < length ms"
  shows "length (apply_candidate_replacement ms cs (Some r)) + length cs = length ms + 1"
proof -
  have "length (nths ms {j. j \<notin> set cs}) + card (set cs) = length ms"
  proof -
    have "{i. i < length ms \<and> i \<notin> set cs} = {..<length ms} - set cs" by auto
    moreover have "set cs \<subseteq> {..<length ms}" using assms(3) by auto
    ultimately show ?thesis
      by (simp add: length_nths card_Diff_subset card_mono)
         (metis card_lessThan card_mono finite_lessThan le_add_diff_inverse2)
  qed
  moreover have "length (apply_candidate_replacement ms cs (Some r)) = length (nths ms {j. j \<notin> set cs}) + 1"
    by (simp add: candidates_split [OF assms(1,3)])
  ultimately show ?thesis using assms(2) by (simp add: distinct_card)
qed

lemma nths_keep_from:
  assumes "\<And>j. m \<le> j \<Longrightarrow> j \<in> K" "m \<le> length xs"
  shows "nths xs K = nths (take m xs) K @ drop m xs"
proof -
  have "nths xs K = nths (take m xs) K @ nths (drop m xs) {j. j + m \<in> K}"
    using nths_append [of "take m xs" "drop m xs" K] assms(2) by (simp add: min_absorb2)
  moreover have "nths (drop m xs) {j. j + m \<in> K} = drop m xs"
    using assms(1) by (intro nths_all) simp
  ultimately show ?thesis by simp
qed

lemma apply_suffix:
  assumes "cs \<noteq> []" "\<And>i. i \<in> set cs \<Longrightarrow> i < n" "n \<le> length ms"
  shows "suffix (drop n ms) (apply_candidate_replacement ms cs (Some r))"
proof -
  let ?c = "Min (set cs)"
  have c: "?c < n" using assms(1,2) by simp
  have len: "i < length ms" if "i \<in> set cs" for i using assms(2) [OF that] assms(3) by simp
  have "nths (drop ?c ms) {j. j + ?c \<notin> set cs} =
      nths (take (n - ?c) (drop ?c ms)) {j. j + ?c \<notin> set cs} @ drop (n - ?c) (drop ?c ms)"
    using c assms(2,3) by (intro nths_keep_from) fastforce+
  then have "apply_candidate_replacement ms cs (Some r) =
      (take ?c ms @ r # nths (take (n - ?c) (drop ?c ms)) {j. j + ?c \<notin> set cs}) @ drop n ms"
    using c by (simp add: candidates_split(2) [OF assms(1) len])
  then show ?thesis by (metis suffixI)
qed

text \<open>Histories in which only tool and assistant messages carry tool results.\<close>

definition wf_history :: "chat_message list \<Rightarrow> bool" where
  "wf_history ms \<longleftrightarrow> list_all (\<lambda>m. role m = System \<or> role m = User \<longrightarrow> tool_result_ids m = []) ms"

definition is_system :: "chat_message \<Rightarrow> bool" where
  "is_system m \<longleftrightarrow> role m = System"

definition is_user :: "chat_message \<Rightarrow> bool" where
  "is_user m \<longleftrightarrow> role m = User"

lemma summary_message_sel [simp]:
  "role (summary_message cs s) = Assistant" "tool_result_ids (summary_message cs s) = []"
  "tool_use_ids (summary_message cs s) = []"
  by (simp_all add: summary_message_def tool_result_ids_def tool_use_ids_def List.map_filter_def)

abbreviation cm_tail :: "context_manager \<Rightarrow> nat" where
  "cm_tail cm \<equiv> preserve_tail_messages (cm_summary_budget (cm_config cm))"

text \<open>A compaction either leaves the history alone or replaces a non-empty set of candidates.\<close>

lemma auto_compact_cases:
  assumes "auto_compact cm ms meta None tail = Inr res"
  shows "(cr_messages res = ms \<and> cr_updated_meta res = meta \<and> cr_summary res = compact_summary meta) \<or>
    (\<exists>cs prev s. candidate_indexes ms tail (discover_boundary ms tail) = Inr cs \<and> cs \<noteq> [] \<and>
      summarize_messages_with_previous (cm_serde cm) (cm_summary_provider cm) (map ((!) ms) cs) prev
         (es_text (cm_estimator cm)) (cm_summary_budget (cm_config cm)) (cm_summary_request cm) = Inr s \<and>
      cr_messages res = apply_candidate_replacement ms cs (Some (summary_message (map ((!) ms) cs) (sr_summary s))) \<and>
      cr_summary res = Some (sr_summary s) \<and> compact_summary (cr_updated_meta res) = Some (sr_summary s))"
proof -
  obtain bd cs where r: "resolve_candidates ms tail None = Inr (bd, cs)"
    using assms by (auto simp: auto_compact_def rbind_eq_Inr)
  then have c: "candidate_indexes ms tail (discover_boundary ms tail) = Inr cs"
    by (auto simp: resolve_candidates_def rbind_eq_Inr Let_def)
  show ?thesis
  proof (cases "cs = []")
    case True
    with assms r show ?thesis by (auto simp: auto_compact_def)
  next
    case False
    let ?prev = "if list_ex is_compression_summary (map ((!) ms) cs) then None else compact_summary meta"
    obtain s where s: "summarize_messages_with_previous (cm_serde cm) (cm_summary_provider cm) (map ((!) ms) cs) ?prev
         (es_text (cm_estimator cm)) (cm_summary_budget (cm_config cm)) (cm_summary_request cm) = Inr s"
      using assms r False by (auto simp: auto_compact_def rbind_eq_Inr Let_def)
    have "cr_messages res = apply_candidate_replacement ms cs (Some (summary_message (map ((!) ms) cs) (sr_summary s)))"
      "cr_summary res = Some (sr_summary s)" "compact_summary (cr_updated_meta res) = Some (sr_summary s)"
      using assms r False s by (auto simp: auto_compact_def Let_def)
    with c False s show ?thesis by blast
  qed
qed

lemma cm_compress_cases:
  assumes "cm_compress cm ms b meta = Inr v"
  obtains (same) "cv_messages v = ms" "cv_updated_meta v = meta" "cv_removed_count v = 0"
      "cv_summary v = compact_summary meta"
  | (compacted) cs prev s where "candidate_indexes ms (cm_tail cm) (discover_boundary ms (cm_tail cm)) = Inr cs"
      "cs \<noteq> []"
      "summarize_messages_with_previous (cm_serde cm) (cm_summary_provider cm) (map ((!) ms) cs) prev
         (es_text (cm_estimator cm)) (cm_summary_budget (cm_config cm)) (cm_summary_request cm) = Inr s"
      "cv_messages v = apply_candidate_replacement ms cs (Some (summary_message (map ((!) ms) cs) (sr_summary s)))"
      "cv_summary v = Some (sr_summary s)" "compact_summary (cv_updated_meta v) = Some (sr_summary s)"
      "cv_removed_count v = length ms - length (cv_messages v)"
proof -
  obtain a where a: "checked_analyze cm ms b = Inr a"
    using assms by (auto simp: cm_compress_def rbind_eq_Inr)
  show ?thesis
  proof (cases "ca_should_compact a")
    case False
    with assms a have "v = \<lparr>cv_messages = ms, cv_removed_count = 0, cv_summary = compact_summary meta,
            cv_updated_meta = meta, cv_estimated_tokens = ca_estimated_tokens a\<rparr>"
      by (simp add: cm_compress_def)
    then show ?thesis by (intro same) simp_all
  next
    case True
    with assms a obtain res where res: "auto_compact cm ms meta None (cm_tail cm) = Inr res"
      by (auto simp: cm_compress_def rbind_eq_Inr)
    with assms a True have v: "cv_messages v = cr_messages res" "cv_summary v = cr_summary res"
      "cv_updated_meta v = cr_updated_meta res" "cv_removed_count v = length ms - length (cr_messages res)"
      by (auto simp: cm_compress_def Let_def)
    from auto_compact_cases [OF res] v show ?thesis
      by (elim disjE exE conjE) (rule same compacted; simp)+
  qed
qed

lemma candidate_range:
  assumes "candidate_indexes ms tail (discover_boundary ms tail) = Inr cs" "i \<in> set cs"
  shows "i < length ms - tail" "i < length ms" "\<not> is_system (ms ! i)" "position is_user ms \<noteq> Some i"
proof -
  have u: "is_user = (\<lambda>m. role m = User)" by (simp add: is_user_def fun_eq_iff)
  obtain e where e: "resolve_compaction_window ms tail (discover_boundary ms tail) =
      Inr \<lparr>win_start = 0, win_end = e\<rparr>" "e \<le> length ms - tail"
    by (rule discovered_window)
  obtain w where w: "resolve_compaction_window ms tail (discover_boundary ms tail) = Inr w"
    "win_end w \<le> length ms"
    and iff: "\<And>i. i \<in> set cs \<longleftrightarrow> i < length ms \<and> role (ms ! i) \<noteq> System \<and>
        Some i \<noteq> position (\<lambda>m. role m = User) ms \<and> win_start w \<le> i \<and>
        i < adjust_keep_start_for_invariants ms (win_end w) (win_start w)"
    using candidate_indexes_iff [OF assms(1)] by metis
  have "adjust_keep_start_for_invariants ms (win_end w) (win_start w) \<le> win_end w"
    using adjust_spec [OF w(2)] by blast
  moreover have "win_end w = e" using w(1) e(1) by auto
  ultimately show "i < length ms - tail" "i < length ms" "\<not> is_system (ms ! i)" "position is_user ms \<noteq> Some i"
    using iff [of i] assms(2) e(2) by (auto simp: is_system_def u)
qed

lemma candidates_distinct: "candidate_indexes ms tail b = Inr cs \<Longrightarrow> distinct cs"
  by (erule candidate_indexes_iff)

lemma cm_compress_keeps:
  assumes "cm_compress cm ms b meta = Inr v"
  shows "filter is_system (cv_messages v) = filter is_system ms \<and>
    find is_user (cv_messages v) = find is_user ms \<and>
    suffix (drop (length ms - cm_tail cm) ms) (cv_messages v) \<and>
    length (cv_messages v) \<le> length ms"
  using assms
proof (cases rule: cm_compress_cases)
  case same
  then show ?thesis by (simp add: suffix_drop)
next
  case (compacted cs prev s)
  note r = candidate_range [OF compacted(1)]
  have "\<not> is_system (summary_message xs y)" "\<not> is_user (summary_message xs y)" for xs y
    by (simp_all add: is_system_def is_user_def)
  note f = apply_filter(1) [where P = is_system, OF compacted(2) r(2) this(1)]
    apply_filter(2) [where P = is_user, OF compacted(2) r(2) this(2)]
  have "filter is_system (nths ms {j. j \<notin> set cs}) = filter is_system ms"
    by (rule filter_nths) (use r(3) in auto)
  then have a: "filter is_system (cv_messages v) = filter is_system ms"
    by (simp add: compacted(4) f)
  have "find is_user (nths ms {j. j \<notin> set cs}) = find is_user ms"
    by (rule find_nths) (use r(4) in auto)
  then have b: "find is_user (cv_messages v) = find is_user ms"
    by (simp add: compacted(4) f)
  have c: "suffix (drop (length ms - cm_tail cm) ms) (cv_messages v)"
    unfolding compacted(4) by (rule apply_suffix [OF compacted(2) r(1)]) auto
  have "length (cv_messages v) + length cs = length ms + 1"
    unfolding compacted(4) by (rule apply_length [OF compacted(2) candidates_distinct [OF compacted(1)] r(2)])
  moreover have "0 < length cs" using compacted(2) by simp
  ultimately have "length (cv_messages v) \<le> length ms" by linarith
  with a b c show ?thesis by blast
qed

lemma apply_set_subset:
  assumes "cs \<noteq> []" "\<And>i. i \<in> set cs \<Longrightarrow> i < length ms"
  shows "set (apply_candidate_replacement ms cs (Some r)) \<subseteq> insert r (set ms)"
proof -
  let ?c = "Min (set cs)"
  have "set (nths (drop ?c ms) {j. j + ?c \<notin> set cs}) \<subseteq> set ms"
    using set_nths_subset [of "drop ?c ms" "{j. j + ?c \<notin> set cs}"] set_drop_subset [of ?c ms] by (rule order_trans)
  moreover have "apply_candidate_replacement ms cs (Some r) = take ?c ms @ r # nths (drop ?c ms) {j. j + ?c \<notin> set cs}"
    by (rule candidates_split(2) [OF assms(1)]) (rule assms(2))
  ultimately show ?thesis using set_take_subset [of ?c ms] by auto
qed

lemma cm_compress_paired:
  assumes "cm_compress cm ms b meta = Inr v" "wf_history ms" "paired_from {} ms"
  shows "wf_history (cv_messages v) \<and> paired_from {} (cv_messages v)"
  using assms(1)
proof (cases rule: cm_compress_cases)
  case same
  with assms show ?thesis by simp
next
  case (compacted cs prev s)
  note r = candidate_range [OF compacted(1)]
  have "wf_history (cv_messages v)"
    using assms(2) apply_set_subset [OF compacted(2) r(2), of "summary_message (map ((!) ms) cs) (sr_summary s)"]
    unfolding compacted(4) wf_history_def list_all_iff by fastforce
  moreover have "paired_from {} (cv_messages v)"
    unfolding compacted(4)
    by (rule compacted_paired [OF assms(3) compacted(1)]) (use assms(2) in \<open>auto simp: wf_history_def list_all_iff\<close>)
  ultimately show ?thesis by blast
qed

text \<open>
  A history whose last \<open>n\<close> messages are left aside is sound up to them: no system or user message
  carries tool results, and every tool result follows its call.
\<close>

definition sound_history :: "chat_message list \<Rightarrow> bool" where
  "sound_history ms \<longleftrightarrow> wf_history ms \<and> paired_from {} ms"

definition sound_upto :: "nat \<Rightarrow> chat_message list \<Rightarrow> bool" where
  "sound_upto n ms \<longleftrightarrow> n \<le> length ms \<and> sound_history (take (length ms - n) ms)"

lemma sound_upto_append: "sound_upto (length es) (ms @ es) \<longleftrightarrow> sound_history ms"
  by (simp add: sound_upto_def)

lemma cm_compress_open:
  assumes "cm_compress cm ms b meta = Inr v" "n \<le> cm_tail cm" "sound_upto n ms"
  shows "sound_upto n (cv_messages v)"
  using assms(1)
proof (cases rule: cm_compress_cases)
  case same
  with assms show ?thesis by simp
next
  case (compacted cs prev s)
  let ?h = "take (length ms - n) ms" and ?e = "drop (length ms - n) ms"
  let ?r = "summary_message (map ((!) ms) cs) (sr_summary s)"
  note r = candidate_range [OF compacted(1)]
  have split: "ms = ?h @ ?e" by simp
  have n: "n \<le> length ms" "length ?e = n" "wf_history ?h" "paired_from {} ?h"
    using assms(3) by (simp_all add: sound_upto_def sound_history_def)
  have range: "i < length ?h" if "i \<in> set cs" for i
    using r(1) [OF that] assms(2) n(1) by simp
  have cand: "candidate_indexes (?h @ ?e) (cm_tail cm) (discover_boundary ms (cm_tail cm)) = Inr cs"
    using compacted(1) by simp
  have wf: "role m = System \<or> role m = User \<Longrightarrow> tool_result_ids m = []" if "m \<in> set ?h" for m
    using n(3) that by (auto simp: wf_history_def list_all_iff)
  have "tool_result_ids ?r = []"
    by (simp add: summary_message_def chat_new_def tool_result_ids_def List.map_filter_def)
  note c = compacted_paired_open [OF n(4) cand this compacted(2) range wf]
  have "cv_messages v = apply_candidate_replacement ?h cs (Some ?r) @ ?e"
    using compacted(4) c(1) split by simp
  moreover have "wf_history (apply_candidate_replacement ?h cs (Some ?r))"
    using n(3) apply_set_subset [OF compacted(2) range, where r = ?r]
    unfolding wf_history_def list_all_iff by (fastforce simp: summary_message_def)
  ultimately show ?thesis
    using sound_upto_append [of ?e] c(2) n(2) by (simp add: sound_history_def)
qed

section \<open>The interface of a compression pipeline\<close>

locale compression_pipeline =
  fixes analyze :: "chat_message list \<Rightarrow> token_budget_config \<Rightarrow> context_analysis option"
    and compress :: "chat_message list \<Rightarrow> token_budget_config \<Rightarrow> compression_meta \<Rightarrow>
      compression_error + compressed_view"
  assumes compress_systems: "compress ms b meta = Inr v \<Longrightarrow> filter is_system (cv_messages v) = filter is_system ms"
    and compress_task: "compress ms b meta = Inr v \<Longrightarrow> find is_user (cv_messages v) = find is_user ms"
    and compress_shrinks: "compress ms b meta = Inr v \<Longrightarrow> length (cv_messages v) \<le> length ms"
    and compress_pairing: "compress ms b meta = Inr v \<Longrightarrow> wf_history ms \<Longrightarrow> paired_from {} ms \<Longrightarrow>
      wf_history (cv_messages v) \<and> paired_from {} (cv_messages v)"
begin

text \<open>Any number of compressions, with any budget and metadata.\<close>

inductive compressions :: "chat_message list \<Rightarrow> chat_message list \<Rightarrow> bool" where
  none: "compressions ms ms"
| step: "compressions ms ms' \<Longrightarrow> compress ms' b meta = Inr v \<Longrightarrow> compressions ms (cv_messages v)"

lemma compressions_keep:
  "compressions ms ms' \<Longrightarrow> filter is_system ms' = filter is_system ms \<and>
     find is_user ms' = find is_user ms \<and> length ms' \<le> length ms \<and>
     (wf_history ms \<longrightarrow> paired_from {} ms \<longrightarrow> wf_history ms' \<and> paired_from {} ms')"
proof (induction rule: compressions.induct)
  case (step ms ms' b meta v)
  from step.IH compress_systems [OF step.hyps(2)] compress_task [OF step.hyps(2)]
    compress_shrinks [OF step.hyps(2)] compress_pairing [OF step.hyps(2)]
  show ?case by auto
qed simp

end

text \<open>
  A pipeline that protects the last \<open>tail\<close> messages: whatever they are, they stay the end of the
  history, and what precedes them stays sound.
\<close>

locale protecting_pipeline = compression_pipeline +
  fixes tail :: nat
  assumes compress_open: "compress ms b meta = Inr v \<Longrightarrow> n \<le> tail \<Longrightarrow> sound_upto n ms \<Longrightarrow>
    sound_upto n (cv_messages v)"
begin

lemma compressions_open: "compressions ms ms' \<Longrightarrow> n \<le> tail \<Longrightarrow> sound_upto n ms \<Longrightarrow> sound_upto n ms'"
  by (induction rule: compressions.induct) (auto intro: compress_open)

end

interpretation cm: protecting_pipeline "cm_analyze cm" "cm_compress cm" "cm_tail cm" for cm
  by unfold_locales (use cm_compress_keeps cm_compress_paired cm_compress_open in blast)+

interpretation passthrough: protecting_pipeline "passthrough_analyze js" passthrough_compress tail for js tail
  by unfold_locales (auto simp: passthrough_compress_def)

section \<open>Properties\<close>

text \<open>A manager over a small budget, for the witnesses.\<close>

definition ex_rough :: rough_config where
  "ex_rough = \<lparr>chars_per_token = 4, message_overhead_tokens = 200, tool_use_overhead_tokens = 8,
     tool_result_overhead_tokens = 8, image_block_overhead_tokens = 256, document_block_overhead_tokens = 256\<rparr>"

definition ex_cm :: context_manager where
  "ex_cm = \<lparr>cm_estimator = rough_as_estimator ex_serde ex_rough, cm_service = ex_thresholds,
     cm_config = \<lparr>cm_thresholds = ex_thresholds, cm_summary_budget = ex_summary_budget\<rparr>,
     cm_serde = ex_serde, cm_summary_provider = ex_provider, cm_summary_request = ex_completion\<rparr>"

definition ex_budget :: token_budget_config where
  "ex_budget = \<lparr>total_budget = 1500, reserved_for_output = 300, reserved_for_system = 200,
     hard_limit_ratio = Fin 1\<rparr>"

lemma ex_cm_analyze: "\<exists>a. checked_analyze ex_cm ex_history ex_budget = Inr a \<and> ca_should_compact a"
proof -
  have e: "es_messages (cm_estimator ex_cm) ex_history = 1224" by code_simp
  have p: "from_budget ex_budget = ex_policy" by (simp add: from_budget_def ex_budget_def ex_policy_def)
  have "scale_floor (Fin 1000) (Fin 1) \<le> 1224" by (simp add: scale_floor_one_1000)
  then show ?thesis
    using policy_analyze_exact [OF ex_policy_limit, of ex_thresholds 1224]
    unfolding checked_analyze_def e p by (simp add: ex_cm_def ex_thresholds_def Let_def)
qed

lemma ex_cm_compacts: "is_ok (auto_compact ex_cm ex_history meta_default None 1)"
  by code_simp

lemma ex_cm_compress: "\<exists>v. cm_compress ex_cm ex_history ex_budget meta_default = Inr v"
proof -
  obtain a r where "checked_analyze ex_cm ex_history ex_budget = Inr a" "ca_should_compact a"
    "auto_compact ex_cm ex_history meta_default None 1 = Inr r"
    using ex_cm_analyze ex_cm_compacts by (auto simp: is_ok_iff)
  moreover have "cm_tail ex_cm = 1" by (simp add: ex_cm_def ex_summary_budget_def)
  ultimately show ?thesis by (simp add: cm_compress_def Let_def)
qed

text \<open>
  C7: whatever the summary model answers, a compression by the context manager keeps every system
  message in order, the first user message, and the protected tail as the end of the history; it
  never lengthens the history and keeps every tool result behind its call.
\<close>

theorem compress_keeps_protected:
  assumes "cm_compress cm ms b meta = Inr v"
  shows "filter is_system (cv_messages v) = filter is_system ms \<and>
    find is_user (cv_messages v) = find is_user ms \<and>
    suffix (drop (length ms - preserve_tail_messages (cm_summary_budget (cm_config cm))) ms) (cv_messages v) \<and>
    length (cv_messages v) \<le> length ms \<and>
    (wf_history ms \<longrightarrow> paired_from {} ms \<longrightarrow> wf_history (cv_messages v) \<and> paired_from {} (cv_messages v))"
  using cm_compress_keeps [OF assms] cm_compress_paired [OF assms] by blast

theorem compress_keeps_protected_witness:
  "\<exists>v. cm_compress ex_cm ex_history ex_budget meta_default = Inr v \<and>
     find is_user (cv_messages v) = Some (chat_user (lit ''task''))"
proof -
  obtain v where v: "cm_compress ex_cm ex_history ex_budget meta_default = Inr v"
    using ex_cm_compress by blast
  have "find is_user ex_history = Some (chat_user (lit ''task''))"
    by (simp add: ex_history_simps is_user_def)
  with v compress_keeps_protected [OF v] show ?thesis by simp
qed

text \<open>
  C30: below the auto-compact threshold a compression changes nothing; when it does rewrite the
  history, a summary that fits its budget (for an estimator with the laws of the interface) stands
  in for the removed messages and is recorded in the metadata.
\<close>

theorem compress_only_with_summary:
  assumes "cm_compress cm ms b meta = Inr v"
    and "token_estimator (es_text (cm_estimator cm)) (es_message (cm_estimator cm)) (es_messages (cm_estimator cm))"
  shows "(cv_messages v = ms \<and> cv_updated_meta v = meta \<and> cv_removed_count v = 0) \<or>
    (\<exists>s m. m \<in> set (cv_messages v) \<and> is_compression_summary m \<and> text_content m = Some (lit ''auto_compact:'' @ nl @ s) \<and>
       compact_summary (cv_updated_meta v) = Some s \<and> cv_summary v = Some s \<and>
       es_text (cm_estimator cm) s \<le> max_summary_tokens (cm_summary_budget (cm_config cm)) \<and>
       (\<exists>a. checked_analyze cm ms b = Inr a \<and> ca_should_compact a))"
proof -
  obtain a where a: "checked_analyze cm ms b = Inr a"
    using assms(1) by (auto simp: cm_compress_def rbind_eq_Inr)
  show ?thesis
  proof (cases "ca_should_compact a")
    case False
    with assms(1) a show ?thesis by (auto simp: cm_compress_def)
  next
    case True
    from assms(1) show ?thesis
    proof (cases rule: cm_compress_cases)
      case same
      then show ?thesis by blast
    next
      case (compacted cs prev s)
      let ?m = "summary_message (map ((!) ms) cs) (sr_summary s)"
      have "?m \<in> set (cv_messages v)"
        by (simp add: compacted(4) candidates_split(2) [OF compacted(2) candidate_range(2) [OF compacted(1)]])
      moreover have "is_compression_summary ?m" "text_content ?m = Some (lit ''auto_compact:'' @ nl @ sr_summary s)"
        by (simp_all add: is_compression_summary_def summary_message_def text_content_def starts_with_prefix)
      moreover have "es_text (cm_estimator cm) (sr_summary s) \<le> max_summary_tokens (cm_summary_budget (cm_config cm))"
        using token_estimator.summarize_ok [OF assms(2) compacted(3)]
          token_estimator.finish_summary_ok [OF assms(2)] by metis
      ultimately show ?thesis using compacted(5,6) a True by blast
    qed
  qed
qed

theorem compress_only_with_summary_witness:
  "\<exists>v. cm_compress ex_cm ex_history ex_budget meta_default = Inr v \<and>
     (cv_messages v = ex_history \<or> (\<exists>m \<in> set (cv_messages v). is_compression_summary m))"
proof -
  obtain v where v: "cm_compress ex_cm ex_history ex_budget meta_default = Inr v"
    using ex_cm_compress by blast
  have "token_estimator (es_text (cm_estimator ex_cm)) (es_message (cm_estimator ex_cm)) (es_messages (cm_estimator ex_cm))"
    using rough_estimator [of ex_rough "json_to_string ex_serde"]
    by (simp add: ex_cm_def rough_as_estimator_def ex_rough_def)
  from compress_only_with_summary [OF v this] v show ?thesis by blast
qed



lemma default_ratios:
  "\<exists>x y z. f64_round (75/100) = Fin x \<and> f64_round (9/10) = Fin y \<and> f64_round (2/10) = Fin z \<and>
     0 < x \<and> x \<le> y \<and> y \<le> 1 \<and> 0 \<le> z \<and> z \<le> 1"
proof -
  have one: "rnd 1 = 1" using rnd_exact_nat [of 1] by simp
  have h: "1 < f64_huge" using f64_huge_gt by (rule order.strict_trans [rotated]) simp
  have "2 powi (-1) \<le> rnd_pos (75/100)"
  proof (rule rnd_pos_ge_powi)
    have "ilog2 (75/100) = -1" by (rule ilog2_unique) (simp_all add: power_int_minus)
    then show "ulp_exp (75/100) \<le> -1" by (simp add: ulp_exp_def)
  qed (simp add: power_int_minus)
  then have pos: "0 < rnd (75/100)" by (simp add: rnd_def power_int_minus)
  have le: "rnd (75/100) \<le> rnd (9/10)" "rnd (9/10) \<le> 1" "rnd (2/10) \<le> 1" "0 \<le> rnd (2/10)"
    using rnd_mono [of "75/100" "9/10"] rnd_mono [of "9/10" 1] rnd_mono [of "2/10" 1] rnd_nonneg [of "2/10"]
    by (simp_all add: one)
  then have "f64_round (75/100) = Fin (rnd (75/100))" "f64_round (9/10) = Fin (rnd (9/10))"
    "f64_round (2/10) = Fin (rnd (2/10))"
    using pos h by (auto simp: f64_round_def Let_def)
  with pos le show ?thesis by blast
qed

text \<open>
  The built-in defaults always construct a context manager: a missing \<open>[compact]\<close> section never
  falls back to the no-op pipeline.
\<close>

lemma default_manager_builds: "is_ok (build_context_manager sd None provider)"
proof -
  obtain x y z where r: "f64_round (75/100) = Fin x" "f64_round (9/10) = Fin y" "f64_round (2/10) = Fin z"
    "0 < x" "x \<le> y" "y \<le> 1" "0 \<le> z" "z \<le> 1"
    using default_ratios by blast
  have t: "thresholds_validate \<lparr>auto_compact_ratio = Fin x, blocking_ratio = Fin y\<rparr> = Inr ()"
    using r by (auto simp: thresholds_validate_iff)
  have c: "completion_validate \<lparr>cc_max_tokens = 4096, cc_temperature = Fin z\<rparr> = Inr ()"
    using r by (simp add: completion_validate_def)
  show ?thesis
    unfolding build_context_manager_def r opt_or_def no_overrides_def
    by (simp add: rough_try_new_def default_rough_config_def cm_new_def cm_config_validate_def t c
        policy_service_new_def summary_budget_validate_def)
qed

end
