(* ===== verification/LoopTypes.thy ===== *)
theory LoopTypes
  imports ToolOutput ContextManager
begin

text \<open>
  The data of the agent loop (\<open>crates/core\<close>): the loop state and its snapshot
  (\<open>loop_state.rs\<close>), the KV-cache map (\<open>kvcache.rs\<close>), the run's token estimator with its caches
  (\<open>token_estimator.rs\<close>), suspended calls (\<open>suspend.rs\<close>), the inputs and the runtime snapshot, and
  the outcomes of a run. Cancellation is part of the environment of the loop, not of the state.
\<close>

section \<open>KV-cache map\<close>

definition kv_diff_deleted :: "(rstr \<times> rstr) list \<Rightarrow> rstr list \<Rightarrow> rstr list" where
  "kv_diff_deleted m new_hashes = filter (\<lambda>h. h \<notin> set new_hashes) (map fst m)"

definition kv_replace :: "rstr list \<Rightarrow> rstr \<Rightarrow> (rstr \<times> rstr) list" where
  "kv_replace new_hashes t = map (\<lambda>h. (h, t)) (remdups new_hashes)"

section \<open>Loop state\<close>

text \<open>
  The KV-cache map is an association list without duplicate keys: the keys of a hash map have no
  order, and no operation depends on one.
\<close>

record loop_state =
  ls_session_id :: rstr
  ls_messages :: "chat_message list"
  ls_turn_count :: nat
  ls_token_usage :: usage
  ls_last_token_usage :: usage
  ls_compression_meta :: compression_meta
  ls_kv_cache_map :: "(rstr \<times> rstr) list"
  ls_plan_nudged :: bool
  ls_last_failure_sig :: "nat option"
  ls_repeated_failure_count :: nat
  ls_last_success_sig :: "nat option"
  ls_repeated_success_count :: nat
  ls_tool_executed :: bool

record loop_state_snapshot =
  ss_session_id :: rstr
  ss_messages :: "chat_message list"
  ss_turn_count :: nat
  ss_token_usage :: usage
  ss_last_token_usage :: usage
  ss_compression_meta :: compression_meta
  ss_kv_cache_map :: "(rstr \<times> rstr) list"

definition loop_state_new :: "rstr \<Rightarrow> loop_state" where
  "loop_state_new sid = \<lparr>ls_session_id = sid, ls_messages = [], ls_turn_count = 0,
     ls_token_usage = usage_default, ls_last_token_usage = usage_default,
     ls_compression_meta = meta_default, ls_kv_cache_map = [], ls_plan_nudged = False,
     ls_last_failure_sig = None, ls_repeated_failure_count = 0, ls_last_success_sig = None,
     ls_repeated_success_count = 0, ls_tool_executed = False\<rparr>"

definition to_snapshot :: "loop_state \<Rightarrow> loop_state_snapshot" where
  "to_snapshot s = \<lparr>ss_session_id = ls_session_id s, ss_messages = ls_messages s,
     ss_turn_count = ls_turn_count s, ss_token_usage = ls_token_usage s,
     ss_last_token_usage = ls_last_token_usage s, ss_compression_meta = ls_compression_meta s,
     ss_kv_cache_map = ls_kv_cache_map s\<rparr>"

definition from_snapshot :: "loop_state_snapshot \<Rightarrow> loop_state" where
  "from_snapshot ss = \<lparr>ls_session_id = ss_session_id ss, ls_messages = ss_messages ss,
     ls_turn_count = ss_turn_count ss, ls_token_usage = ss_token_usage ss,
     ls_last_token_usage = ss_last_token_usage ss, ls_compression_meta = ss_compression_meta ss,
     ls_kv_cache_map = ss_kv_cache_map ss, ls_plan_nudged = False,
     ls_last_failure_sig = None, ls_repeated_failure_count = 0, ls_last_success_sig = None,
     ls_repeated_success_count = 0, ls_tool_executed = False\<rparr>"

section \<open>The run's token estimator\<close>

text \<open>The \<open>OnceLock\<close> caches are filled by the first call and kept for the run.\<close>

record core_estimator =
  te_system_prompt_tokens :: "nat option"
  te_tools_tokens :: "nat option"

definition core_estimator_new :: core_estimator where
  "core_estimator_new = \<lparr>te_system_prompt_tokens = None, te_tools_tokens = None\<rparr>"

definition estimate_text_quick :: "rstr \<Rightarrow> nat" where
  "estimate_text_quick t =
     (let char_count = length t in
      if list_ex (\<lambda>c. 0x7F < c) t then char_count div 2 + 10 else char_count div 4 + 10)"

text \<open>The ratio is a quotient of \<open>f64\<close> values, capped at \<open>4.0\<close> and compared with \<open>2.5\<close>.\<close>

definition estimate_text_precise :: "rstr \<Rightarrow> nat" where
  "estimate_text_precise t =
     (let char_count = length t; byte_count = byte_len t;
          ascii_ratio =
            (if 0 < char_count
             then let q = f64_div (f64_of_usize byte_count) (f64_of_usize char_count) in
                  if f64_lt q (Fin 4) then q else Fin 4
             else Fin 4) in
      if f64_lt (Fin (5/2)) ascii_ratio then max (char_count div 2) 1 + 20
      else max (char_count div 4) 1 + 20)"

fun estimate_block :: "(json \<Rightarrow> rstr) \<Rightarrow> content_block \<Rightarrow> nat" where
  "estimate_block js (Text t) = estimate_text_quick t"
| "estimate_block js (ToolUse _ _ inp) = estimate_text_quick (js inp) + 20"
| "estimate_block js (ToolResult _ _ out _) = estimate_text_quick out + 15"
| "estimate_block js (ImageBlock d) = estimate_text_quick d + 100"
| "estimate_block js (DocumentBlock d) = estimate_text_quick d + 150"

definition estimate_uncached :: "(json \<Rightarrow> rstr) \<Rightarrow> chat_message \<Rightarrow> nat" where
  "estimate_uncached js m =
     sum_list (map (estimate_block js) (blocks m)) +
     (case reasoning_content m of Some r \<Rightarrow> estimate_text_quick r | None \<Rightarrow> 0) + 10"

definition estimate_message :: "(json \<Rightarrow> rstr) \<Rightarrow> chat_message \<Rightarrow> nat" where
  "estimate_message js m =
     (case estimated_tokens m of Some cached \<Rightarrow> cached | None \<Rightarrow> estimate_uncached js m)"

definition estimate_history_messages :: "(json \<Rightarrow> rstr) \<Rightarrow> chat_message list \<Rightarrow> nat" where
  "estimate_history_messages js ms = sum_list (map (estimate_message js) ms)"

definition update_message_cache :: "(json \<Rightarrow> rstr) \<Rightarrow> chat_message \<Rightarrow> chat_message" where
  "update_message_cache js m =
     (if estimated_tokens m = None then m\<lparr>estimated_tokens := Some (estimate_message js m)\<rparr> else m)"

definition estimate_system_prompt :: "core_estimator \<Rightarrow> rstr \<Rightarrow> nat \<times> core_estimator" where
  "estimate_system_prompt te prompt =
     (case te_system_prompt_tokens te of
        Some n \<Rightarrow> (n, te)
      | None \<Rightarrow> let n = estimate_text_precise prompt in (n, te\<lparr>te_system_prompt_tokens := Some n\<rparr>))"

definition estimate_tools :: "core_estimator \<Rightarrow> nat \<Rightarrow> nat \<times> core_estimator" where
  "estimate_tools te n_tools =
     (case te_tools_tokens te of
        Some n \<Rightarrow> (n, te)
      | None \<Rightarrow> let n = 200 + n_tools * 150 in (n, te\<lparr>te_tools_tokens := Some n\<rparr>))"

definition estimate_input_tokens ::
  "(json \<Rightarrow> rstr) \<Rightarrow> core_estimator \<Rightarrow> rstr \<Rightarrow> nat \<Rightarrow> chat_message list \<Rightarrow> nat \<times> core_estimator" where
  "estimate_input_tokens js te system_prompt tools_count ms =
     (let (system_tokens, te) = estimate_system_prompt te system_prompt;
          (tools_tokens, te) = estimate_tools te tools_count;
          history_tokens = estimate_history_messages js ms
      in (system_tokens + tools_tokens + history_tokens, te))"

section \<open>Inputs, snapshot, outcomes\<close>

datatype loop_suspend_reason = SuspendToolCall rstr rstr

record suspended_tool_call =
  stc_final_call :: final_tool_call
  stc_reason :: loop_suspend_reason

fun suspended_from_tool_result :: "tool_execution_result \<Rightarrow> suspended_tool_call option" where
  "suspended_from_tool_result (Suspended call _ token) =
     Some \<lparr>stc_final_call = call, stc_reason = SuspendToolCall (fc_tool_name call) token\<rparr>"
| "suspended_from_tool_result _ = None"

record tool_spec =
  ts_id :: rstr
  ts_name :: rstr
  ts_effect_profile :: effect_profile

datatype loop_stop_rule = AfterSuccessfulTool rstr

record command_context =
  cmd_command :: rstr
  cmd_arguments :: rstr

record feature_flags =
  ff_auto_compact :: bool
  ff_cache_editing :: bool
  ff_tool_execution :: bool
  ff_skill_matching :: bool
  ff_kvcache_enabled :: bool
  ff_kvcache_debug_enabled :: bool
  ff_redact_secrets_display :: bool

definition feature_flags_default :: feature_flags where
  "feature_flags_default = \<lparr>ff_auto_compact = True, ff_cache_editing = True, ff_tool_execution = True,
     ff_skill_matching = True, ff_kvcache_enabled = False, ff_kvcache_debug_enabled = False,
     ff_redact_secrets_display = True\<rparr>"

text \<open>
  The handles of \<open>AgentLoopInput\<close> are their presence here; what they do belongs to the environment.
  \<open>in_event_sink\<close> is the sink's \<open>supports_message_delta\<close>, when there is a sink.
\<close>

record agent_loop_input =
  in_user_message :: rstr
  in_append_user_message :: bool
  in_event_sink :: "bool option"
  in_agent_id :: "rstr option"
  in_visible_tools :: "tool_spec list"
  in_runtime_view :: bool
  in_reasoning_effort :: reasoning_effort
  in_stop_rules :: "loop_stop_rule list"
  in_pending_user_messages :: bool
  in_command_context :: "command_context option"

record runtime_snapshot =
  rs_system_prompt :: rstr
  rs_feature_flags :: feature_flags
  rs_max_turns :: nat
  rs_token_budget_config :: token_budget_config
  rs_tool_spec_count :: nat

datatype agent_error =
    LlmProvider rstr | LlmProviderError llm_error | ToolExecutionErr rstr
  | Compression compression_error | PromptBuild rstr | TokenBudgetExhausted

datatype agent_outcome =
    Complete (out_reply: rstr) (out_messages: "chat_message list") (out_turn_count: nat)
      (out_usage: usage) (out_estimated: nat)
  | MaxTurnsReached (out_partial: "rstr option") (out_messages: "chat_message list") (out_turn_count: nat)
      (out_usage: usage) (out_estimated: nat)
  | BudgetExhausted (out_partial: "rstr option") (out_messages: "chat_message list") (out_turn_count: nat)
      (out_usage: usage) (out_estimated: nat)
  | Cancelled (out_partial: "rstr option") (out_messages: "chat_message list") (out_turn_count: nat)
      (out_usage: usage) (out_estimated: nat)

datatype loop_run_result = RunComplete agent_outcome | RunSuspended "suspended_tool_call list"

section \<open>Lemmas\<close>


text \<open>
  replacing the KV-cache map by the hashes of a response evicts exactly the hashes that are no
  longer used: after the replacement the keys are the new hashes, and a key of the old map is
  reported as deleted if and only if it is not among them.
\<close>

lemma kv_replace_evicts:
  "set (map fst (kv_replace hs t)) = set hs \<and> distinct (map fst (kv_replace hs t)) \<and>
   set (kv_diff_deleted m hs) = set (map fst m) - set (map fst (kv_replace hs t))"
  by (auto simp: kv_replace_def kv_diff_deleted_def comp_def)

lemma estimate_tools_cached:
  "te_tools_tokens te = None \<or> te_tools_tokens te = Some (200 + n * 150) \<Longrightarrow>
   fst (estimate_tools te n) = 200 + n * 150"
  by (auto simp: estimate_tools_def Let_def)

text \<open>
  the message cache is transparent as long as the message is not changed: filling it does not
  change the estimate, and filling it again changes nothing.
\<close>

lemma message_cache_transparent:
  "estimate_message js (update_message_cache js m) = estimate_message js m \<and>
   update_message_cache js (update_message_cache js m) = update_message_cache js m"
  by (simp add: update_message_cache_def estimate_message_def split: option.splits)

end
