(* ===== verification/Redaction.thy ===== *)
theory Redaction
  imports LoopTypes
begin

text \<open>
  Secrets on their way to the display (\<open>crates/core/src/agent_loop.rs\<close>, \<open>tool_exec.rs\<close>): the secret
  answers of the history, their replacement in a text, and the throttled streaming of an assistant
  message to the event sink. An event is what a sink receives; the agent's id is the same in all of
  them and is left out. \<open>serde_json::from_str\<close> is a parameter (\<open>from_str\<close>).
\<close>

section \<open>Extraction and replacement\<close>

fun ask_user_output :: "content_block \<Rightarrow> rstr option" where
  "ask_user_output (ToolResult _ tool_name out _) =
     (if tool_name = lit ''ask_user_question'' then Some out else None)"
| "ask_user_output _ = None"

definition json_is_null :: "json \<Rightarrow> bool" where
  "json_is_null v \<longleftrightarrow> v = JNull"

definition secret_answer :: "json \<Rightarrow> rstr option" where
  "secret_answer answer =
     (let is_text = Option.bind (json_get (lit ''kind'') answer) json_as_str = Some (lit ''text'');
          value = Option.bind (json_get (lit ''value'') answer) json_as_str;
          has_display_value =
            (case json_get (lit ''display_value'') answer of Some v \<Rightarrow> \<not> json_is_null v | None \<Rightarrow> False)
      in if is_text \<and> has_display_value \<and> (case value of Some v \<Rightarrow> v \<noteq> [] | None \<Rightarrow> False)
         then value else None)"

definition extract_secrets_from_messages ::
  "(rstr \<Rightarrow> json option) \<Rightarrow> chat_message list \<Rightarrow> rstr list" where
  "extract_secrets_from_messages from_str messages =
     (let tool_blocks = concat (map blocks (filter (\<lambda>m. role m = Tool) messages));
          outputs = List.map_filter ask_user_output tool_blocks;
          values = List.map_filter from_str outputs;
          answers = List.map_filter
            (\<lambda>v. Option.bind (json_get (lit ''answers'') v) json_as_array) values
      in List.map_filter secret_answer (concat answers))"

definition secret_marker :: rstr where
  "secret_marker = lit ''<SECRET>''"

fun filter_secrets_in_text :: "rstr \<Rightarrow> rstr list \<Rightarrow> rstr" where
  "filter_secrets_in_text t [] = t"
| "filter_secrets_in_text t (secret # secrets) =
     filter_secrets_in_text
       (if str_contains secret t then str_replace t secret secret_marker else t) secrets"

section \<open>Streaming\<close>

datatype loop_event =
    TurnStart nat
  | AssistantMessage rstr
  | AssistantReasoning rstr
  | AssistantMessageDelta rstr
  | AssistantReasoningDelta rstr
  | ToolResultEvent rstr rstr rstr bool rstr
  | LoopEnd nat nat rstr

record stream_chunk =
  sk_reset :: bool
  sk_delta_text :: "rstr option"
  sk_delta_reasoning :: "rstr option"
  sk_delta_tool_call :: "tool_use_block option"

definition stream_emit_min_delta_chars :: nat where
  "stream_emit_min_delta_chars = 32"

definition stream_emit_max_latency_ms :: nat where
  "stream_emit_max_latency_ms = 80"

text \<open>Instants are milliseconds of the monotonic clock.\<close>

record stream_emit_state =
  last_emit_len :: nat
  last_emit_at :: "nat option"

definition stream_emit_default :: stream_emit_state where
  "stream_emit_default = \<lparr>last_emit_len = 0, last_emit_at = None\<rparr>"

record assistant_stream_state =
  st_text :: rstr
  st_reasoning :: rstr
  st_last_text_emit :: stream_emit_state
  st_last_reasoning_emit :: stream_emit_state

definition assistant_stream_default :: assistant_stream_state where
  "assistant_stream_default = \<lparr>st_text = [], st_reasoning = [],
     st_last_text_emit = stream_emit_default, st_last_reasoning_emit = stream_emit_default\<rparr>"

definition should_emit :: "nat \<Rightarrow> nat \<Rightarrow> stream_emit_state \<Rightarrow> bool \<times> stream_emit_state" where
  "should_emit now current_len es =
     (let delta_ok = stream_emit_min_delta_chars \<le> current_len - last_emit_len es;
          latency_ok = (case last_emit_at es of
              Some t \<Rightarrow> stream_emit_max_latency_ms \<le> now - t | None \<Rightarrow> False)
      in if delta_ok \<or> latency_ok
         then (True, \<lparr>last_emit_len = current_len, last_emit_at = Some now\<rparr>)
         else (False, es))"

definition stream_reasoning_delta ::
  "bool option \<Rightarrow> nat \<Rightarrow> rstr list \<Rightarrow> rstr \<Rightarrow> assistant_stream_state \<Rightarrow> assistant_stream_state \<times> loop_event list" where
  "stream_reasoning_delta sink now secrets delta st =
     (let st = st\<lparr>st_reasoning := st_reasoning st @ delta\<rparr>; current_len = byte_len (st_reasoning st) in
      case sink of
        None \<Rightarrow> (st, [])
      | Some supports_delta \<Rightarrow>
          if supports_delta \<and> secrets = [] then (st, [AssistantReasoningDelta delta])
          else let (emit, es) = should_emit now current_len (st_last_reasoning_emit st);
                   st = st\<lparr>st_last_reasoning_emit := es\<rparr>
               in (st, if emit
                       then [AssistantReasoning (filter_secrets_in_text (st_reasoning st) secrets)]
                       else []))"

definition stream_text_delta ::
  "bool option \<Rightarrow> nat \<Rightarrow> rstr list \<Rightarrow> rstr \<Rightarrow> assistant_stream_state \<Rightarrow> assistant_stream_state \<times> loop_event list" where
  "stream_text_delta sink now secrets delta st =
     (let st = st\<lparr>st_text := st_text st @ delta\<rparr>; current_len = byte_len (st_text st) in
      case sink of
        None \<Rightarrow> (st, [])
      | Some supports_delta \<Rightarrow>
          if supports_delta \<and> secrets = [] then (st, [AssistantMessageDelta delta])
          else let (emit, es) = should_emit now current_len (st_last_text_emit st);
                   st = st\<lparr>st_last_text_emit := es\<rparr>
               in (st, if emit
                       then [AssistantMessage (filter_secrets_in_text (st_text st) secrets)]
                       else []))"

text \<open>
  A chunk arrives with the instants at which the throttles of the reasoning and of the text are read.
\<close>

definition stream_assistant_chunk ::
  "bool option \<Rightarrow> rstr list \<Rightarrow> assistant_stream_state \<Rightarrow> (nat \<times> nat) \<times> stream_chunk \<Rightarrow>
   assistant_stream_state \<times> loop_event list" where
  "stream_assistant_chunk sink secrets st timed =
     (let ((now_r, now_t), chunk) = timed in
      if sk_reset chunk then
        (assistant_stream_default,
         if sink = None then [] else [AssistantMessage [], AssistantReasoning []])
      else
        let (st, evs1) =
              (case sk_delta_reasoning chunk of
                 Some d \<Rightarrow> stream_reasoning_delta sink now_r secrets d st | None \<Rightarrow> (st, []));
            (st, evs2) =
              (case sk_delta_text chunk of
                 Some d \<Rightarrow> stream_text_delta sink now_t secrets d st | None \<Rightarrow> (st, []))
        in (st, evs1 @ evs2))"

fun stream_chunks ::
  "bool option \<Rightarrow> rstr list \<Rightarrow> assistant_stream_state \<Rightarrow> ((nat \<times> nat) \<times> stream_chunk) list \<Rightarrow>
   assistant_stream_state \<times> loop_event list" where
  "stream_chunks sink secrets st [] = (st, [])"
| "stream_chunks sink secrets st (c # cs) =
     (let (st, evs) = stream_assistant_chunk sink secrets st c;
          (st, evs') = stream_chunks sink secrets st cs
      in (st, evs @ evs'))"

text \<open>
  The flush after the stream (of the response, or of the partial message of a cancelled stream):
  a content that the last emit did not cover is sent again in full.
\<close>

definition flush_response ::
  "bool option \<Rightarrow> rstr list \<Rightarrow> assistant_stream_state \<Rightarrow> rstr option \<Rightarrow> rstr option \<Rightarrow> loop_event list" where
  "flush_response sink secrets st text reasoning =
     (if sink = None then []
      else (case text of
              Some t \<Rightarrow> if last_emit_len (st_last_text_emit st) \<noteq> byte_len t
                       then [AssistantMessage (filter_secrets_in_text t secrets)] else []
            | None \<Rightarrow> []) @
           (case reasoning of
              Some r \<Rightarrow> if last_emit_len (st_last_reasoning_emit st) \<noteq> byte_len r
                       then [AssistantReasoning (filter_secrets_in_text r secrets)] else []
            | None \<Rightarrow> []))"

definition flush_partial ::
  "bool option \<Rightarrow> rstr list \<Rightarrow> assistant_stream_state \<Rightarrow> loop_event list" where
  "flush_partial sink secrets st =
     (if sink = None then []
      else (if st_text st \<noteq> [] \<and> last_emit_len (st_last_text_emit st) \<noteq> byte_len (st_text st)
            then [AssistantMessage (filter_secrets_in_text (st_text st) secrets)] else []) @
           (if st_reasoning st \<noteq> [] \<and>
               last_emit_len (st_last_reasoning_emit st) \<noteq> byte_len (st_reasoning st)
            then [AssistantReasoning (filter_secrets_in_text (st_reasoning st) secrets)] else []))"

section \<open>Previews of tool calls\<close>

text \<open>\<open>to_string_pretty\<close> of \<open>serde_json\<close> is a parameter; printing a value does not fail.\<close>

definition bash_args_preview :: "(json \<Rightarrow> rstr) \<Rightarrow> json \<Rightarrow> rstr list \<Rightarrow> rstr" where
  "bash_args_preview pretty inp secrets =
     pretty (case inp of
       JObject kvs \<Rightarrow>
         (case map_of kvs (lit ''command'') of
            Some (JString command) \<Rightarrow>
              JObject (obj_insert (lit ''command'') (JString (filter_secrets_in_text command secrets)) kvs)
          | _ \<Rightarrow> inp)
     | _ \<Rightarrow> inp)"

section \<open>Replacement removes a secret\<close>

lemma in_map_filter: "y \<in> set (List.map_filter f xs) \<longleftrightarrow> (\<exists>x \<in> set xs. f x = Some y)"
  by (force simp: List.map_filter_def)

lemma secret_answer_nonempty: "secret_answer a = Some s \<Longrightarrow> s \<noteq> []"
  unfolding secret_answer_def Let_def by (auto split: if_splits option.splits)

lemma extract_secrets_nonempty:
  "s \<in> set (extract_secrets_from_messages from_str ms) \<Longrightarrow> s \<noteq> []"
  unfolding extract_secrets_from_messages_def Let_def in_map_filter
  by (elim bexE) (rule secret_answer_nonempty)

lemma contains_skip:
  "\<lbrakk>q \<noteq> []; set q \<inter> set r = {}; str_contains q (r @ x)\<rbrakk> \<Longrightarrow> str_contains q x"
  by (induction r) (auto simp: starts_with_prefix prefix_Cons)

lemma contains_drop: "str_contains q (drop n s) \<Longrightarrow> str_contains q s"
  unfolding str_contains_sublist by (rule sublist_order.order_trans [OF _ sublist_drop])

lemma replace_from_match:
  "p \<noteq> [] \<and> starts_with p (c # s) \<Longrightarrow>
   replace_from p r (c # s) = r @ replace_from p r (drop (length p) (c # s))"
  unfolding replace_from.simps by (rule if_P)

lemma replace_from_other:
  "\<not> (p \<noteq> [] \<and> starts_with p (c # s)) \<Longrightarrow> replace_from p r (c # s) = c # replace_from p r s"
  unfolding replace_from.simps by (rule if_not_P)

lemma prefix_of_replacement:
  assumes "q \<noteq> []" "set q \<inter> set r = {}" "r \<noteq> []" "prefix q (replace_from p r s)"
  shows "prefix q s"
  using assms
proof (induction p r s arbitrary: q rule: replace_from.induct)
  case (1 p r)
  then show ?case by simp
next
  case (2 p r c s)
  from 2(3) obtain a q' where q: "q = a # q'" by (cases q) auto
  show ?case
  proof (cases "p \<noteq> [] \<and> starts_with p (c # s)")
    case True
    from 2(5) obtain b r' where r: "r = b # r'" by (cases r) auto
    from 2(6) have "a = b" unfolding replace_from_match [OF True] q r by simp
    with 2(4) show ?thesis unfolding q r by simp
  next
    case False
    from 2(6) have ac: "a = c" "prefix q' (replace_from p r s)"
      unfolding replace_from_other [OF False] q by simp_all
    have "prefix q' s"
    proof (cases "q' = []")
      case ne: False
      have "set q' \<inter> set r = {}" using 2(4) unfolding q by simp
      then show ?thesis by (rule 2(2) [OF False ne _ 2(5) ac(2)])
    qed simp
    with ac(1) show ?thesis unfolding q by simp
  qed
qed

lemma contains_Cons: "str_contains q (c # s) \<longleftrightarrow> prefix q (c # s) \<or> str_contains q s"
  by (simp add: starts_with_prefix)

lemma replacement_adds_nothing:
  assumes "q \<noteq> []" "set q \<inter> set r = {}" "r \<noteq> []" "str_contains q (replace_from p r s)"
  shows "str_contains q s"
  using assms
proof (induction p r s rule: replace_from.induct)
  case (1 p r)
  then show ?case by simp
next
  case (2 p r c s)
  show ?case
  proof (cases "p \<noteq> [] \<and> starts_with p (c # s)")
    case True
    note eq = replace_from_match [OF True]
    have "str_contains q (replace_from p r (drop (length p) (c # s)))"
      using 2(6) unfolding eq by (rule contains_skip [OF 2(3,4)])
    from 2(1) [OF True 2(3-5) this] show ?thesis by (rule contains_drop)
  next
    case False
    note eq = replace_from_other [OF False]
    from 2(6) consider "prefix q (c # replace_from p r s)" | "str_contains q (replace_from p r s)"
      unfolding eq contains_Cons by blast
    then show ?thesis
    proof cases
      case 1
      then have "prefix q (c # s)"
        using prefix_of_replacement [OF 2(3-5), where p = p and s = "c # s"] unfolding eq by blast
      then show ?thesis unfolding contains_Cons by blast
    next
      case b: 2
      from 2(2) [OF False 2(3-5) b] show ?thesis unfolding contains_Cons by blast
    qed
  qed
qed

lemma replacement_removes:
  assumes "p \<noteq> []" "set p \<inter> set r = {}" "r \<noteq> []"
  shows "\<not> str_contains p (replace_from p r s)"
  using assms
proof (induction p r s rule: replace_from.induct)
  case (1 p r)
  then show ?case by simp
next
  case (2 p r c s)
  show ?case
  proof (cases "p \<noteq> [] \<and> starts_with p (c # s)")
    case True
    note eq = replace_from_match [OF True]
    show ?thesis
      unfolding eq using 2(1) [OF True 2(3-5)] contains_skip [OF 2(3,4)] by (rule contrapos_nn)
  next
    case False
    note eq = replace_from_other [OF False]
    have "\<not> prefix p (c # s)" using False 2(3) by (simp add: starts_with_prefix)
    then have "\<not> prefix p (c # replace_from p r s)"
      using prefix_of_replacement [OF 2(3-5), where p = p and s = "c # s"] unfolding eq by blast
    then show ?thesis
      using 2(2) [OF False 2(3-5)] unfolding eq contains_Cons by blast
  qed
qed

text \<open>A secret with no character of the marker.\<close>

definition maskable :: "rstr \<Rightarrow> bool" where
  "maskable s \<longleftrightarrow> s \<noteq> [] \<and> set s \<inter> set secret_marker = {}"

lemma filter_keeps_absent:
  assumes "maskable q" "\<not> str_contains q t" "\<forall>s \<in> set secrets. maskable s"
  shows "\<not> str_contains q (filter_secrets_in_text t secrets)"
  using assms(2,3)
proof (induction secrets arbitrary: t)
  case Nil
  then show ?case by simp
next
  case (Cons s secrets)
  have "secret_marker \<noteq> []" by (simp add: secret_marker_def lit_def)
  then have "\<not> str_contains q (str_replace t s secret_marker)"
    using Cons.prems assms(1) replacement_adds_nothing [of q secret_marker s t]
    by (auto simp: str_replace_def maskable_def)
  then show ?case using Cons by auto
qed

lemma filter_removes_secrets:
  "\<lbrakk>\<forall>s \<in> set secrets. maskable s; q \<in> set secrets\<rbrakk> \<Longrightarrow>
   \<not> str_contains q (filter_secrets_in_text t secrets)"
proof (induction secrets arbitrary: t)
  case Nil
  then show ?case by simp
next
  case (Cons s secrets)
  have m: "secret_marker \<noteq> []" by (simp add: secret_marker_def lit_def)
  show ?case
  proof (cases "q = s")
    case True
    with Cons.prems m have "\<not> str_contains q (str_replace t q secret_marker)"
      using replacement_removes [of q secret_marker t] by (auto simp: str_replace_def maskable_def)
    then show ?thesis using Cons.prems True filter_keeps_absent [of q _ secrets] by auto
  next
    case False
    with Cons show ?thesis by auto
  qed
qed

lemma filter_empty: "[] \<notin> set secrets \<Longrightarrow> filter_secrets_in_text [] secrets = []"
  by (induction secrets) auto

section \<open>What the sink is shown\<close>

text \<open>
  The text and the reasoning a sink displays: a message replaces the text, a delta extends it.
\<close>

fun shown_text :: "rstr \<Rightarrow> loop_event \<Rightarrow> rstr" where
  "shown_text d (AssistantMessage t) = t"
| "shown_text d (AssistantMessageDelta t) = d @ t"
| "shown_text d _ = d"

fun shown_reasoning :: "rstr \<Rightarrow> loop_event \<Rightarrow> rstr" where
  "shown_reasoning d (AssistantReasoning t) = t"
| "shown_reasoning d (AssistantReasoningDelta t) = d @ t"
| "shown_reasoning d _ = d"

fun event_text :: "loop_event \<Rightarrow> rstr option" where
  "event_text (AssistantMessage t) = Some t"
| "event_text (AssistantReasoning t) = Some t"
| "event_text (AssistantMessageDelta t) = Some t"
| "event_text (AssistantReasoningDelta t) = Some t"
| "event_text _ = None"

text \<open>The displayed content is the filtered prefix that the last emit covered.\<close>

definition covers :: "rstr list \<Rightarrow> bool \<Rightarrow> rstr \<Rightarrow> rstr \<Rightarrow> stream_emit_state \<Rightarrow> bool" where
  "covers secrets fast shown full es \<longleftrightarrow>
     (if fast then shown = full \<and> last_emit_len es = 0
      else \<exists>p. prefix p full \<and> byte_len p = last_emit_len es \<and> shown = filter_secrets_in_text p secrets)"

definition stream_inv :: "rstr list \<Rightarrow> bool \<Rightarrow> rstr \<Rightarrow> rstr \<Rightarrow> assistant_stream_state \<Rightarrow> bool" where
  "stream_inv secrets supports_delta shown_t shown_r st \<longleftrightarrow>
     covers secrets (supports_delta \<and> secrets = []) shown_t (st_text st) (st_last_text_emit st) \<and>
     covers secrets (supports_delta \<and> secrets = []) shown_r (st_reasoning st) (st_last_reasoning_emit st)"

lemma covers_default: "[] \<notin> set secrets \<Longrightarrow> covers secrets fast [] [] stream_emit_default"
  by (simp add: covers_def stream_emit_default_def filter_empty)

lemma should_emit_len:
  "last_emit_len (snd (should_emit now n es)) = (if fst (should_emit now n es) then n else last_emit_len es)"
  by (simp add: should_emit_def Let_def)

lemma covers_extend:
  assumes "covers secrets False shown full es" "should_emit now (byte_len (full @ d)) es = (emit, es')"
  shows "covers secrets False (if emit then filter_secrets_in_text (full @ d) secrets else shown) (full @ d) es'"
proof -
  obtain p where p: "prefix p full" "byte_len p = last_emit_len es" "shown = filter_secrets_in_text p secrets"
    using assms(1) by (auto simp: covers_def)
  have "last_emit_len es' = (if emit then byte_len (full @ d) else last_emit_len es)"
    using should_emit_len [of now "byte_len (full @ d)" es] by (simp only: assms(2) fst_conv snd_conv)
  then show ?thesis
    unfolding covers_def if_False
    by (intro exI [of _ "if emit then full @ d else p"] conjI)
       (simp_all add: p prefix_prefix [OF p(1)])
qed

lemma stream_reasoning_delta_inv:
  assumes "stream_inv secrets sd t r st" "stream_reasoning_delta (Some sd) now secrets d st = (st', evs)"
  shows "stream_inv secrets sd (foldl shown_text t evs) (foldl shown_reasoning r evs) st'"
proof (cases "sd \<and> secrets = []")
  case True
  then have fast: "(sd \<and> secrets = []) = True" by blast
  have out: "st' = st\<lparr>st_reasoning := st_reasoning st @ d\<rparr>" "evs = [AssistantReasoningDelta d]"
    using assms(2) fast by (simp_all add: stream_reasoning_delta_def)
  show ?thesis
    using assms(1) unfolding stream_inv_def covers_def fast out by simp
next
  case False
  obtain emit es where e: "should_emit now (byte_len (st_reasoning st @ d)) (st_last_reasoning_emit st) = (emit, es)"
    by (rule prod.exhaust)
  have out: "st' = st\<lparr>st_reasoning := st_reasoning st @ d, st_last_reasoning_emit := es\<rparr>"
    "evs = (if emit then [AssistantReasoning (filter_secrets_in_text (st_reasoning st @ d) secrets)] else [])"
    using assms(2) False e by (auto simp: stream_reasoning_delta_def Let_def)
  from False have fast: "(sd \<and> secrets = []) = False" by blast
  show ?thesis
    using assms(1) covers_extend [OF _ e, of secrets r]
    unfolding stream_inv_def fast out by (cases emit) simp_all
qed

lemma stream_text_delta_inv:
  assumes "stream_inv secrets sd t r st" "stream_text_delta (Some sd) now secrets d st = (st', evs)"
  shows "stream_inv secrets sd (foldl shown_text t evs) (foldl shown_reasoning r evs) st'"
proof (cases "sd \<and> secrets = []")
  case True
  then have fast: "(sd \<and> secrets = []) = True" by blast
  have out: "st' = st\<lparr>st_text := st_text st @ d\<rparr>" "evs = [AssistantMessageDelta d]"
    using assms(2) fast by (simp_all add: stream_text_delta_def)
  show ?thesis
    using assms(1) unfolding stream_inv_def covers_def fast out by simp
next
  case False
  obtain emit es where e: "should_emit now (byte_len (st_text st @ d)) (st_last_text_emit st) = (emit, es)"
    by (rule prod.exhaust)
  have out: "st' = st\<lparr>st_text := st_text st @ d, st_last_text_emit := es\<rparr>"
    "evs = (if emit then [AssistantMessage (filter_secrets_in_text (st_text st @ d) secrets)] else [])"
    using assms(2) False e by (auto simp: stream_text_delta_def Let_def)
  from False have fast: "(sd \<and> secrets = []) = False" by blast
  show ?thesis
    using assms(1) covers_extend [OF _ e, of secrets t]
    unfolding stream_inv_def fast out by (cases emit) simp_all
qed

lemma stream_assistant_chunk_inv:
  assumes "[] \<notin> set secrets" "stream_inv secrets sd t r st"
    "stream_assistant_chunk (Some sd) secrets st c = (st', evs)"
  shows "stream_inv secrets sd (foldl shown_text t evs) (foldl shown_reasoning r evs) st'"
proof (cases "sk_reset (snd c)")
  case True
  with assms show ?thesis
    by (auto simp: stream_assistant_chunk_def stream_inv_def assistant_stream_default_def
        covers_default Let_def split: prod.splits)
next
  case False
  obtain now_r now_t chunk where c: "c = ((now_r, now_t), chunk)" by (metis prod.exhaust)
  obtain st1 e1 where 1: "(case sk_delta_reasoning chunk of
      Some d \<Rightarrow> stream_reasoning_delta (Some sd) now_r secrets d st | None \<Rightarrow> (st, [])) = (st1, e1)"
    by (rule prod.exhaust)
  obtain st2 e2 where 2: "(case sk_delta_text chunk of
      Some d \<Rightarrow> stream_text_delta (Some sd) now_t secrets d st1 | None \<Rightarrow> (st1, [])) = (st2, e2)"
    by (rule prod.exhaust)
  have out: "st' = st2" "evs = e1 @ e2"
    using assms(3) False 1 2 by (simp_all add: stream_assistant_chunk_def c)
  have i1: "stream_inv secrets sd (foldl shown_text t e1) (foldl shown_reasoning r e1) st1"
    using assms(2) 1 stream_reasoning_delta_inv by (cases "sk_delta_reasoning chunk") auto
  have "stream_inv secrets sd (foldl shown_text (foldl shown_text t e1) e2)
          (foldl shown_reasoning (foldl shown_reasoning r e1) e2) st2"
    using i1 2 stream_text_delta_inv by (cases "sk_delta_text chunk") auto
  then show ?thesis by (simp add: out)
qed

lemma stream_chunks_inv:
  "\<lbrakk>[] \<notin> set secrets; stream_inv secrets sd t r st; stream_chunks (Some sd) secrets st cs = (st', evs)\<rbrakk> \<Longrightarrow>
   stream_inv secrets sd (foldl shown_text t evs) (foldl shown_reasoning r evs) st'"
proof (induction cs arbitrary: st t r evs)
  case Nil
  then show ?case by simp
next
  case (Cons c cs)
  obtain st1 e1 where 1: "stream_assistant_chunk (Some sd) secrets st c = (st1, e1)" by (rule prod.exhaust)
  obtain st2 e2 where 2: "stream_chunks (Some sd) secrets st1 cs = (st2, e2)" by (rule prod.exhaust)
  have out: "st' = st2" "evs = e1 @ e2" using Cons.prems(3) 1 2 by simp_all
  show ?case
    using Cons.IH [OF Cons.prems(1) stream_assistant_chunk_inv [OF Cons.prems(1,2) 1], of e2] 2 out by simp
qed

lemma byte_len_prefix_eq: "\<lbrakk>prefix p t; byte_len p = byte_len t\<rbrakk> \<Longrightarrow> p = t"
  by (auto simp: prefix_def)

lemma covers_final:
  assumes "covers secrets (sd \<and> secrets = []) shown full es"
  shows "(if last_emit_len es \<noteq> byte_len full then filter_secrets_in_text full secrets else shown) =
    filter_secrets_in_text full secrets"
  using assms by (auto simp: covers_def dest: byte_len_prefix_eq split: if_splits)

lemma covers_nil: "covers secrets fast shown [] es \<Longrightarrow> last_emit_len es = 0"
  by (auto simp: covers_def split: if_splits)

text \<open>Every event carries a text from which the secrets are gone.\<close>

definition masked :: "rstr list \<Rightarrow> loop_event \<Rightarrow> bool" where
  "masked secrets e \<longleftrightarrow> (\<forall>t. event_text e = Some t \<longrightarrow> (\<forall>s \<in> set secrets. \<not> str_contains s t))"

lemma masked_filtered:
  "\<forall>s \<in> set secrets. maskable s \<Longrightarrow> masked secrets (AssistantMessage (filter_secrets_in_text t secrets))"
  "\<forall>s \<in> set secrets. maskable s \<Longrightarrow> masked secrets (AssistantReasoning (filter_secrets_in_text t secrets))"
  by (simp_all add: masked_def filter_removes_secrets)

lemma masked_empty:
  "\<forall>s \<in> set secrets. maskable s \<Longrightarrow> masked secrets (AssistantMessage [])"
  "\<forall>s \<in> set secrets. maskable s \<Longrightarrow> masked secrets (AssistantReasoning [])"
  by (auto simp: masked_def maskable_def)

lemma stream_delta_masked:
  assumes "\<forall>s \<in> set secrets. maskable s"
  shows "\<forall>e \<in> set (snd (stream_reasoning_delta sink now secrets d st)). masked secrets e"
    "\<forall>e \<in> set (snd (stream_text_delta sink now secrets d st)). masked secrets e"
  using masked_filtered [OF assms]
  by (simp_all add: stream_reasoning_delta_def stream_text_delta_def Let_def masked_def
      split: option.split prod.split)

lemma stream_chunk_masked:
  assumes "\<forall>s \<in> set secrets. maskable s"
  shows "\<forall>e \<in> set (snd (stream_assistant_chunk sink secrets st c)). masked secrets e"
proof -
  obtain now_r now_t chunk where c: "c = ((now_r, now_t), chunk)" by (metis prod.exhaust)
  obtain st1 e1 where 1: "(case sk_delta_reasoning chunk of
      Some d \<Rightarrow> stream_reasoning_delta sink now_r secrets d st | None \<Rightarrow> (st, [])) = (st1, e1)"
    by (rule prod.exhaust)
  obtain st2 e2 where 2: "(case sk_delta_text chunk of
      Some d \<Rightarrow> stream_text_delta sink now_t secrets d st1 | None \<Rightarrow> (st1, [])) = (st2, e2)"
    by (rule prod.exhaust)
  have "\<forall>e \<in> set e1. masked secrets e"
    using 1 stream_delta_masked(1) [OF assms, of sink now_r _ st]
    by (cases "sk_delta_reasoning chunk") (simp, metis option.case(2) snd_conv)
  moreover have "\<forall>e \<in> set e2. masked secrets e"
    using 2 stream_delta_masked(2) [OF assms, of sink now_t _ st1]
    by (cases "sk_delta_text chunk") (simp, metis option.case(2) snd_conv)
  ultimately show ?thesis
    using masked_empty [OF assms] by (simp add: stream_assistant_chunk_def c 1 2 ball_Un)
qed

lemma stream_chunks_masked:
  "\<forall>s \<in> set secrets. maskable s \<Longrightarrow>
   \<forall>e \<in> set (snd (stream_chunks sink secrets st cs)). masked secrets e"
proof (induction cs arbitrary: st)
  case Nil
  then show ?case by simp
next
  case (Cons c cs)
  obtain st1 e1 where 1: "stream_assistant_chunk sink secrets st c = (st1, e1)" by (rule prod.exhaust)
  obtain st2 e2 where 2: "stream_chunks sink secrets st1 cs = (st2, e2)" by (rule prod.exhaust)
  show ?case
    using Cons.IH [OF Cons.prems, of st1] stream_chunk_masked [OF Cons.prems, of sink st c]
    by (simp add: 1 2 ball_Un)
qed

section \<open>Examples\<close>

definition ex_answer :: json where
  "ex_answer = JObject [(lit ''answers'', JArray [JObject
     [(lit ''kind'', JString (lit ''text'')), (lit ''value'', JString (lit ''hunter2'')),
      (lit ''display_value'', JString (lit ''*''))]])]"

definition ex_secrets :: "rstr list" where
  "ex_secrets = extract_secrets_from_messages (\<lambda>_. Some ex_answer)
     [chat_tool_result (lit ''c1'') (lit ''ask_user_question'') (lit ''{}'') False 0]"

definition ex_chunk :: "rstr \<Rightarrow> (nat \<times> nat) \<times> stream_chunk" where
  "ex_chunk t = ((0, 0), \<lparr>sk_reset = False, sk_delta_text = Some t, sk_delta_reasoning = None,
     sk_delta_tool_call = None\<rparr>)"

definition ex_stream :: "bool option \<Rightarrow> assistant_stream_state \<times> loop_event list" where
  "ex_stream sink = stream_chunks sink ex_secrets assistant_stream_default
     [ex_chunk (lit ''the password that you gave me is hunt''), ex_chunk (lit ''er2'')]"

lemma ex_secrets: "ex_secrets = [lit ''hunter2'']"
  by code_simp

lemma ex_stream:
  "flush_response (Some True) ex_secrets (fst (ex_stream (Some True)))
     (Some (st_text (fst (ex_stream (Some True))))) None =
   [AssistantMessage (lit ''the password that you gave me is <SECRET>'')]"
  by code_simp

section \<open>Properties\<close>





end
