(* ===== verification/ToolCalls.thy ===== *)
theory ToolCalls
  imports LoopTypes
begin

text \<open>
  Preparation of the tool calls of a response (\<open>crates/core/src/tool_exec.rs\<close>,
  \<open>crates/tool/src/framework\<close>): missing call ids, repair of tool names, validity, the tool filter
  and the construction of calls, and the tracking of repeated identical calls. The registry's
  executors and the hasher of the standard library (whose algorithm is unspecified) are parameters.
\<close>

section \<open>Normalisation\<close>

definition synthesize_missing_call_ids :: "nat \<Rightarrow> tool_use_block list \<Rightarrow> tool_use_block list" where
  "synthesize_missing_call_ids turn calls =
     map (\<lambda>(idx, tc). if trim (tub_call_id tc) = []
                      then tc\<lparr>tub_call_id := lit ''call_'' @ dec turn @ lit ''_'' @ dec idx\<rparr> else tc)
       (enumerate 0 calls)"

definition normalize_name :: "rstr \<Rightarrow> rstr" where
  "normalize_name s = map to_ascii_lower (filter is_ascii_alnum s)"

text \<open>\<open>entry(..).or_insert_with(..)\<close>: the first visible tool of a normal form wins.\<close>

definition normalized_names :: "tool_spec list \<Rightarrow> (rstr \<times> rstr) list" where
  "normalized_names visible = map (\<lambda>t. (normalize_name (ts_name t), ts_name t)) visible"

definition repair_tool_names :: "tool_spec list \<Rightarrow> tool_use_block list \<Rightarrow> tool_use_block list" where
  "repair_tool_names visible calls =
     (if visible = [] then calls
      else map (\<lambda>tc.
        if tub_tool_name tc \<in> ts_name ` set visible then tc
        else (case map_of (normalized_names visible) (normalize_name (tub_tool_name tc)) of
                Some fixed \<Rightarrow> if fixed \<noteq> tub_tool_name tc then tc\<lparr>tub_tool_name := fixed\<rparr> else tc
              | None \<Rightarrow> tc)) calls)"

definition is_valid_tool_call_id :: "rstr \<Rightarrow> bool" where
  "is_valid_tool_call_id cid \<longleftrightarrow> trim cid \<noteq> []"

definition is_valid_tool_name :: "rstr \<Rightarrow> bool" where
  "is_valid_tool_name name \<longleftrightarrow> trim name \<noteq> []"

definition is_valid_tool_call :: "tool_use_block \<Rightarrow> bool" where
  "is_valid_tool_call tc \<longleftrightarrow> is_valid_tool_call_id (tub_call_id tc) \<and> is_valid_tool_name (tub_tool_name tc)"

definition invalid_tool_call_message :: "tool_use_block \<Rightarrow> rstr" where
  "invalid_tool_call_message tc =
     (case (is_valid_tool_call_id (tub_call_id tc), is_valid_tool_name (tub_tool_name tc)) of
        (False, False) \<Rightarrow> lit ''invalid tool call: missing call_id and tool_name''
      | (False, True) \<Rightarrow> lit ''invalid tool call: missing call_id''
      | (True, False) \<Rightarrow> lit ''invalid tool call: missing tool_name''
      | (True, True) \<Rightarrow> lit ''invalid tool call'')"

definition build_invalid_tool_call_result :: "nat \<Rightarrow> tool_use_block \<Rightarrow> chat_message" where
  "build_invalid_tool_call_result now tc =
     chat_tool_result (tub_call_id tc) (tub_tool_name tc)
       (lit ''Error: '' @ invalid_tool_call_message tc @ lit ''.'') True now"

text \<open>\<open>normalized_tool_calls\<close>: the rewritten calls, the valid ones and the invalid ones.\<close>

definition normalized_tool_calls ::
  "nat \<Rightarrow> tool_spec list \<Rightarrow> tool_use_block list \<Rightarrow>
   tool_use_block list \<times> tool_use_block list \<times> tool_use_block list" where
  "normalized_tool_calls turn_count visible calls =
     (let calls = repair_tool_names visible (synthesize_missing_call_ids turn_count calls) in
      (calls, filter is_valid_tool_call calls, filter (\<lambda>tc. \<not> is_valid_tool_call tc) calls))"

text \<open>The stable sort that puts \<open>join_subagent\<close> calls last.\<close>

definition sort_joins_last :: "tool_use_block list \<Rightarrow> tool_use_block list" where
  "sort_joins_last calls =
     filter (\<lambda>tc. tub_tool_name tc \<noteq> lit ''join_subagent'') calls @
     filter (\<lambda>tc. tub_tool_name tc = lit ''join_subagent'') calls"

section \<open>The filter and the construction of calls\<close>

text \<open>
  \<open>tool_filter_from_specs\<close>: the names of the visible specifications, and those with a registered
  executor of the same id and name (\<open>get_executor\<close> is the registry's executor, as its own
  specification). Collecting into a hash map keeps the last entry of a name.
\<close>

record tool_filter =
  tf_specs_by_name :: "(rstr \<times> tool_spec) list"
  tf_executors_by_name :: "(rstr \<times> tool_spec) list"

definition tool_filter_from_specs :: "(rstr \<Rightarrow> tool_spec option) \<Rightarrow> tool_spec list \<Rightarrow> tool_filter" where
  "tool_filter_from_specs get_executor visible =
     \<lparr>tf_specs_by_name = rev (map (\<lambda>s. (ts_name s, s)) visible),
      tf_executors_by_name = rev (List.map_filter
        (\<lambda>s. case get_executor (ts_id s) of
               Some ex \<Rightarrow> if ts_id ex = ts_id s \<and> ts_name ex = ts_name s then Some (ts_name s, ex) else None
             | None \<Rightarrow> None) visible)\<rparr>"

definition get_spec_for_name :: "tool_filter \<Rightarrow> rstr \<Rightarrow> tool_spec option" where
  "get_spec_for_name f name = map_of (tf_specs_by_name f) name"

definition get_executor_for_name :: "tool_filter \<Rightarrow> rstr \<Rightarrow> tool_spec option" where
  "get_executor_for_name f name = map_of (tf_executors_by_name f) name"

definition quoted :: "rstr \<Rightarrow> rstr" where
  "quoted s = [39] @ s @ [39]"

definition build_with_filter_ref :: "tool_filter \<Rightarrow> tool_use_block \<Rightarrow> rstr + final_tool_call" where
  "build_with_filter_ref f raw =
     (case get_spec_for_name f (tub_tool_name raw) of
        None \<Rightarrow> Inl (lit ''tool '' @ quoted (tub_tool_name raw) @ lit '' is not visible in the current ToolFilter'')
      | Some _ \<Rightarrow>
          (case get_executor_for_name f (tub_tool_name raw) of
             None \<Rightarrow> Inl (lit ''tool '' @ quoted (tub_tool_name raw) @
                      lit '' is missing an executor in the current ToolFilter'')
           | Some _ \<Rightarrow> Inr \<lparr>fc_call_id = tub_call_id raw, fc_tool_name = tub_tool_name raw,
                           fc_input = tub_input raw, fc_extra = None\<rparr>))"

text \<open>A build error is a failed result in the place of the call.\<close>

definition build_tool_call :: "tool_filter \<Rightarrow> tool_use_block \<Rightarrow> tool_execution_result + final_tool_call" where
  "build_tool_call f raw =
     map_err (\<lambda>e. build_framework_failed_tool_result
                \<lparr>fc_call_id = tub_call_id raw, fc_tool_name = tub_tool_name raw, fc_input = tub_input raw,
                 fc_extra = None\<rparr> (lit ''tool call build failed: invalid config: '' @ e))
       (build_with_filter_ref f raw)"

section \<open>Repeated calls\<close>

definition repeated_failure_threshold :: nat where
  "repeated_failure_threshold = 3"

definition repeated_success_threshold :: nat where
  "repeated_success_threshold = 3"

text \<open>
  \<open>hash3 name args output\<close> is the hasher fed with the tool name, the printed arguments and, for a
  successful result, the output.
\<close>

definition tool_call_signature ::
  "(rstr \<Rightarrow> rstr \<Rightarrow> rstr option \<Rightarrow> nat) \<Rightarrow> (json \<Rightarrow> rstr) \<Rightarrow> tool_execution_result \<Rightarrow> nat" where
  "tool_call_signature hash3 js result =
     hash3 (result_tool_name result) (js (fc_input (final_call result)))
       (case result of Completed _ (Success out) _ _ \<Rightarrow> Some out | _ \<Rightarrow> None)"

definition streak_note :: "bool \<Rightarrow> rstr \<Rightarrow> nat \<Rightarrow> rstr" where
  "streak_note failed tool repetitions =
     (if failed then
        lit ''The `'' @ tool @ lit ''` call has now failed '' @ dec repetitions @
        lit '' times in a row with identical arguments. Stop retrying it unchanged '' @ [8212] @
        lit '' change approach: fix the arguments, read the relevant file or state to understand why it fails, or use a different tool to reach the goal.''
      else
        lit ''The `'' @ tool @ lit ''` call has now run '' @ dec repetitions @
        lit '' times in a row with identical arguments and the same result '' @ [8212] @
        lit '' that output is already in your context above. Stop repeating it: use what you have, or take a different action toward the goal.'')"

text \<open>One counter step: the new signature, the new count, and whether the threshold was reached.\<close>

definition streak_step :: "nat option \<Rightarrow> nat \<Rightarrow> nat \<Rightarrow> nat \<Rightarrow> nat option \<times> nat \<times> nat option" where
  "streak_step last_sig count_now threshold signature =
     (let c = (if last_sig = Some signature then count_now + 1 else 1) in
      if c < threshold then (Some signature, c, None) else (None, 0, Some c))"

definition update_tool_streak ::
  "(rstr \<Rightarrow> rstr \<Rightarrow> rstr option \<Rightarrow> nat) \<Rightarrow> (json \<Rightarrow> rstr) \<Rightarrow> loop_state \<Rightarrow> tool_execution_result \<Rightarrow>
   rstr option \<times> loop_state" where
  "update_tool_streak hash3 js s result =
     (let failed = is_failure_result result;
          signature = tool_call_signature hash3 js result in
      if failed then
        let s = s\<lparr>ls_last_success_sig := None, ls_repeated_success_count := 0\<rparr>;
            (l, c, n) = streak_step (ls_last_failure_sig s) (ls_repeated_failure_count s)
                          repeated_failure_threshold signature
        in (map_option (streak_note True (result_tool_name result)) n,
            s\<lparr>ls_last_failure_sig := l, ls_repeated_failure_count := c\<rparr>)
      else
        let s = s\<lparr>ls_last_failure_sig := None, ls_repeated_failure_count := 0\<rparr>;
            (l, c, n) = streak_step (ls_last_success_sig s) (ls_repeated_success_count s)
                          repeated_success_threshold signature
        in (map_option (streak_note False (result_tool_name result)) n,
            s\<lparr>ls_last_success_sig := l, ls_repeated_success_count := c\<rparr>))"

section \<open>Stop rules\<close>

fun stop_rule_matches_tool_result :: "loop_stop_rule \<Rightarrow> tool_execution_result \<Rightarrow> bool" where
  "stop_rule_matches_tool_result (AfterSuccessfulTool name) result =
     (result_tool_name result = name \<and> (case result of Completed _ (Success _) _ _ \<Rightarrow> True | _ \<Rightarrow> False))"

definition should_stop_after_tool_result :: "loop_stop_rule list \<Rightarrow> tool_execution_result \<Rightarrow> bool" where
  "should_stop_after_tool_result rules result = list_ex (\<lambda>r. stop_rule_matches_tool_result r result) rules"

section \<open>Lemmas\<close>

lemma trim_call_id: "trim (lit ''call_'' @ t) \<noteq> []"
  by (auto simp: trim_eq_Nil lit_def is_whitespace_def)

lemma length_synthesize [simp]: "length (synthesize_missing_call_ids turn calls) = length calls"
  by (simp add: synthesize_missing_call_ids_def)

lemma length_repair [simp]: "length (repair_tool_names visible calls) = length calls"
  by (simp add: repair_tool_names_def)

lemma synthesize_nth:
  "i < length calls \<Longrightarrow> synthesize_missing_call_ids turn calls ! i =
     (if trim (tub_call_id (calls ! i)) = []
      then (calls ! i)\<lparr>tub_call_id := lit ''call_'' @ dec turn @ lit ''_'' @ dec i\<rparr> else calls ! i)"
  by (simp add: synthesize_missing_call_ids_def nth_enumerate_eq)

lemma synthesize_nth_name [simp]:
  "i < length calls \<Longrightarrow> tub_tool_name (synthesize_missing_call_ids turn calls ! i) = tub_tool_name (calls ! i)"
  "i < length calls \<Longrightarrow> tub_input (synthesize_missing_call_ids turn calls ! i) = tub_input (calls ! i)"
  by (simp_all add: synthesize_nth)

lemma repair_nth_id [simp]:
  "i < length calls \<Longrightarrow> tub_call_id (repair_tool_names visible calls ! i) = tub_call_id (calls ! i)"
  "i < length calls \<Longrightarrow> tub_input (repair_tool_names visible calls ! i) = tub_input (calls ! i)"
  by (auto simp: repair_tool_names_def split: option.splits)

lemma repair_nth_name:
  assumes "i < length calls"
  shows "tub_tool_name (repair_tool_names visible calls ! i) = tub_tool_name (calls ! i) \<or>
    (tub_tool_name (calls ! i) \<notin> ts_name ` set visible \<and>
     tub_tool_name (repair_tool_names visible calls ! i) \<in> ts_name ` set visible \<and>
     normalize_name (tub_tool_name (repair_tool_names visible calls ! i)) = normalize_name (tub_tool_name (calls ! i)))"
proof -
  have m: "fixed \<in> ts_name ` set visible \<and> normalize_name fixed = k"
    if "map_of (normalized_names visible) k = Some fixed" for k fixed
    using map_of_SomeD [OF that] by (auto simp: normalized_names_def)
  show ?thesis
    using assms by (auto simp: repair_tool_names_def dest!: m split: option.splits)
qed

text \<open>The notes of a sequence of results.\<close>

fun streak_notes ::
  "(rstr \<Rightarrow> rstr \<Rightarrow> rstr option \<Rightarrow> nat) \<Rightarrow> (json \<Rightarrow> rstr) \<Rightarrow> loop_state \<Rightarrow> tool_execution_result list \<Rightarrow> rstr option list" where
  "streak_notes h js s [] = []"
| "streak_notes h js s (r # rs) =
     (let (n, s) = update_tool_streak h js s r in n # streak_notes h js s rs)"

definition streak_ok :: "loop_state \<Rightarrow> bool" where
  "streak_ok s \<longleftrightarrow> ls_repeated_failure_count s < 3 \<and> ls_repeated_success_count s < 3"

lemma streak_step_lt: "fst (snd (streak_step l c 3 sg)) < 3"
  by (simp add: streak_step_def Let_def)

lemma update_tool_streak_ok:
  "streak_ok s \<Longrightarrow> update_tool_streak h js s r = (n, s') \<Longrightarrow> streak_ok s'"
  using streak_step_lt
  by (auto simp: streak_ok_def update_tool_streak_def Let_def repeated_failure_threshold_def
      repeated_success_threshold_def split_beta split: if_splits)

lemma update_tool_streak_messages [simp]:
  "ls_messages (snd (update_tool_streak h js s r)) = ls_messages s"
  by (simp add: update_tool_streak_def Let_def split_beta)

text \<open>The state of the counter after \<open>k\<close> identical results.\<close>

definition streak_at :: "(rstr \<Rightarrow> rstr \<Rightarrow> rstr option \<Rightarrow> nat) \<Rightarrow> (json \<Rightarrow> rstr) \<Rightarrow> tool_execution_result \<Rightarrow> nat \<Rightarrow> loop_state \<Rightarrow> bool" where
  "streak_at h js r k s \<longleftrightarrow>
     (if is_failure_result r
      then ls_repeated_failure_count s = k \<and> ls_last_failure_sig s = (if k = 0 then None else Some (tool_call_signature h js r))
      else ls_repeated_success_count s = k \<and> ls_last_success_sig s = (if k = 0 then None else Some (tool_call_signature h js r)))"

lemma streak_step_at:
  assumes "k < 3" "l = (if k = 0 then None else Some sg)"
  shows "streak_step l k 3 sg = (if k = 2 then (None, 0, Some 3) else (Some sg, k + 1, None))"
  using assms by (cases "k = 0") (auto simp: streak_step_def)

lemma update_tool_streak_failure:
  assumes "is_failure_result r"
    "streak_step (ls_last_failure_sig s) (ls_repeated_failure_count s) 3 (tool_call_signature h js r) = (l, c, m)"
  shows "update_tool_streak h js s r = (map_option (streak_note True (result_tool_name r)) m,
    s\<lparr>ls_last_success_sig := None, ls_repeated_success_count := 0, ls_last_failure_sig := l, ls_repeated_failure_count := c\<rparr>)"
  using assms by (simp add: update_tool_streak_def Let_def repeated_failure_threshold_def)

lemma update_tool_streak_success:
  assumes "\<not> is_failure_result r"
    "streak_step (ls_last_success_sig s) (ls_repeated_success_count s) 3 (tool_call_signature h js r) = (l, c, m)"
  shows "update_tool_streak h js s r = (map_option (streak_note False (result_tool_name r)) m,
    s\<lparr>ls_last_failure_sig := None, ls_repeated_failure_count := 0, ls_last_success_sig := l, ls_repeated_success_count := c\<rparr>)"
  using assms by (simp add: update_tool_streak_def Let_def repeated_success_threshold_def)

lemma streak_at_step:
  assumes at: "streak_at h js r k s" and k: "k < 3" and u: "update_tool_streak h js s r = (n, s')"
  shows "streak_at h js r ((k + 1) mod 3) s' \<and> (n \<noteq> None \<longleftrightarrow> k = 2)"
proof -
  have k3: "(k + 1) mod 3 = (if k = 2 then 0 else k + 1)" using k by presburger
  show ?thesis
  proof (cases "is_failure_result r")
    case True
  from at True have c: "ls_repeated_failure_count s = k"
    and l: "ls_last_failure_sig s = (if k = 0 then None else Some (tool_call_signature h js r))"
    by (simp_all add: streak_at_def)
  obtain l' c' m where st: "streak_step (ls_last_failure_sig s) k 3 (tool_call_signature h js r) = (l', c', m)"
    by (metis prod_cases3)
  with streak_step_at [OF k l] have v: "c' = (k + 1) mod 3" "m \<noteq> None \<longleftrightarrow> k = 2"
    "l' = (if c' = 0 then None else Some (tool_call_signature h js r))"
    using k3 by (auto split: if_splits)
  from st c have "n = map_option (streak_note True (result_tool_name r)) m"
    and "s' = s\<lparr>ls_last_success_sig := None, ls_repeated_success_count := 0, ls_last_failure_sig := l', ls_repeated_failure_count := c'\<rparr>"
    using u update_tool_streak_failure [OF True, of s h js l' c' m] by simp_all
  with v True show ?thesis by (simp add: streak_at_def)
  next
    case False
  from at False have c: "ls_repeated_success_count s = k"
    and l: "ls_last_success_sig s = (if k = 0 then None else Some (tool_call_signature h js r))"
    by (simp_all add: streak_at_def)
  obtain l' c' m where st: "streak_step (ls_last_success_sig s) k 3 (tool_call_signature h js r) = (l', c', m)"
    by (metis prod_cases3)
  with streak_step_at [OF k l] have v: "c' = (k + 1) mod 3" "m \<noteq> None \<longleftrightarrow> k = 2"
    "l' = (if c' = 0 then None else Some (tool_call_signature h js r))"
    using k3 by (auto split: if_splits)
  from st c have "n = map_option (streak_note False (result_tool_name r)) m"
    and "s' = s\<lparr>ls_last_failure_sig := None, ls_repeated_failure_count := 0, ls_last_success_sig := l', ls_repeated_success_count := c'\<rparr>"
    using u update_tool_streak_success [OF False, of s h js l' c' m] by simp_all
  with v False show ?thesis by (simp add: streak_at_def)
  qed
qed

lemma streak_notes_replicate:
  "streak_at h js r k s \<Longrightarrow> k < 3 \<Longrightarrow> i < n \<Longrightarrow>
   streak_notes h js s (replicate n r) ! i \<noteq> None \<longleftrightarrow> (k + i + 1) mod 3 = 0"
proof (induction n arbitrary: k s i)
  case (Suc n)
  obtain m s' where u: "update_tool_streak h js s r = (m, s')" by (rule prod.exhaust)
  note sm = streak_at_step [OF Suc.prems(1,2) u]
  note st = conjunct1 [OF sm] and m = conjunct2 [OF sm]
  have unf: "streak_notes h js s (replicate (Suc n) r) = m # streak_notes h js s' (replicate n r)"
    by (simp add: u)
  show ?case
  proof (cases i)
    case 0
    have "k = 2 \<longleftrightarrow> (k + 0 + 1) mod 3 = 0" using Suc.prems(2) by presburger
    then show ?thesis unfolding 0 unf using m by (simp only: nth_Cons_0)
  next
    case (Suc j)
    have "((k + 1) mod 3 + j + 1) mod 3 = (k + Suc j + 1) mod 3"
      using mod_add_left_eq [of "k + 1" 3 "j + 1"] by (simp add: ac_simps)
    moreover have "streak_notes h js s' (replicate n r) ! j \<noteq> None \<longleftrightarrow> ((k + 1) mod 3 + j + 1) mod 3 = 0"
      by (rule Suc.IH [OF st]) (use Suc Suc.prems(3) in simp_all)
    ultimately show ?thesis unfolding Suc unf by (simp only: nth_Cons_Suc)
  qed
qed simp

section \<open>Properties\<close>

text \<open>
  C33: normalising the tool calls of a response keeps their number, order and arguments; afterwards
  every call has a non-blank id, a non-blank id of the provider is kept, the name of a visible tool
  is kept, and a name is changed only into that of a visible tool with the same letters and digits
  up to case.
\<close>

theorem normalization_sound:
  assumes "normalized_tool_calls turn visible calls = (calls', valid, invalid)"
  shows "length calls' = length calls \<and>
    (\<forall>i < length calls. is_valid_tool_call_id (tub_call_id (calls' ! i)) \<and>
       tub_input (calls' ! i) = tub_input (calls ! i) \<and>
       (is_valid_tool_call_id (tub_call_id (calls ! i)) \<longrightarrow> tub_call_id (calls' ! i) = tub_call_id (calls ! i)) \<and>
       (tub_tool_name (calls' ! i) = tub_tool_name (calls ! i) \<or>
        (tub_tool_name (calls ! i) \<notin> ts_name ` set visible \<and>
         tub_tool_name (calls' ! i) \<in> ts_name ` set visible \<and>
         normalize_name (tub_tool_name (calls' ! i)) = normalize_name (tub_tool_name (calls ! i))))) \<and>
    set calls' = set valid \<union> set invalid \<and>
    (\<forall>tc \<in> set invalid. trim (tub_tool_name tc) = [])"
proof -
  let ?s = "synthesize_missing_call_ids turn calls"
  have e: "calls' = repair_tool_names visible ?s" "valid = filter is_valid_tool_call calls'"
    "invalid = filter (\<lambda>tc. \<not> is_valid_tool_call tc) calls'"
    using assms by (auto simp: normalized_tool_calls_def Let_def)
  have id: "is_valid_tool_call_id (tub_call_id (calls' ! i))" if "i < length calls" for i
    using that by (simp add: e synthesize_nth is_valid_tool_call_id_def trim_call_id)
  have "\<forall>tc \<in> set invalid. trim (tub_tool_name tc) = []"
  proof
    fix tc assume "tc \<in> set invalid"
    then obtain i where "i < length calls" "tc = calls' ! i" "\<not> is_valid_tool_call tc"
      unfolding e(3) using e(1) by (auto simp: in_set_conv_nth)
    then show "trim (tub_tool_name tc) = []"
      using id [of i] by (simp add: is_valid_tool_call_def is_valid_tool_name_def)
  qed
  moreover have "\<forall>i < length calls. tub_input (calls' ! i) = tub_input (calls ! i) \<and>
       (is_valid_tool_call_id (tub_call_id (calls ! i)) \<longrightarrow> tub_call_id (calls' ! i) = tub_call_id (calls ! i)) \<and>
       (tub_tool_name (calls' ! i) = tub_tool_name (calls ! i) \<or>
        (tub_tool_name (calls ! i) \<notin> ts_name ` set visible \<and>
         tub_tool_name (calls' ! i) \<in> ts_name ` set visible \<and>
         normalize_name (tub_tool_name (calls' ! i)) = normalize_name (tub_tool_name (calls ! i))))"
  proof (intro allI impI)
    fix i assume i: "i < length calls"
    then have i': "i < length ?s" by simp
    show "tub_input (calls' ! i) = tub_input (calls ! i) \<and>
       (is_valid_tool_call_id (tub_call_id (calls ! i)) \<longrightarrow> tub_call_id (calls' ! i) = tub_call_id (calls ! i)) \<and>
       (tub_tool_name (calls' ! i) = tub_tool_name (calls ! i) \<or>
        (tub_tool_name (calls ! i) \<notin> ts_name ` set visible \<and>
         tub_tool_name (calls' ! i) \<in> ts_name ` set visible \<and>
         normalize_name (tub_tool_name (calls' ! i)) = normalize_name (tub_tool_name (calls ! i))))"
      using repair_nth_name [OF i', of visible] i unfolding e(1)
      by (simp add: is_valid_tool_call_id_def) (simp add: synthesize_nth)
  qed
  moreover have "length calls' = length calls" by (simp add: e(1))
  moreover have "set calls' = set valid \<union> set invalid" by (auto simp: e(2,3))
  ultimately show ?thesis using id by simp
qed

theorem normalization_sound_witness:
  "is_valid_tool_call_id (tub_call_id (fst (normalized_tool_calls 2 []
      [\<lparr>tub_call_id = [], tub_tool_name = lit ''bash'', tub_input = JNull\<rparr>]) ! 0))"
proof -
  let ?c = "[\<lparr>tub_call_id = [], tub_tool_name = lit ''bash'', tub_input = JNull\<rparr>]"
  obtain a b c where r: "normalized_tool_calls 2 [] ?c = (a, b, c)" by (metis prod_cases3)
  from normalization_sound [OF r] have "\<forall>i < length ?c. is_valid_tool_call_id (tub_call_id (a ! i))"
    by blast
  then show ?thesis by (simp add: r)
qed

text \<open>
  From a fresh state, a sequence of identical results of one tool call produces a note at every
  third result and at no other.
\<close>

lemma streak_note_every_third:
  assumes "i < n"
  shows "streak_notes hash3 js (loop_state_new sid) (replicate n r) ! i \<noteq> None \<longleftrightarrow> (i + 1) mod 3 = 0"
  using streak_notes_replicate [of hash3 js r 0 "loop_state_new sid" i n] assms
  by (simp add: streak_at_def loop_state_new_def)

text \<open>
  The repetition counters never reach their threshold: every update leaves both below three,
  and it never touches the history.
\<close>

lemma streak_counters_bounded:
  assumes "streak_ok s" "update_tool_streak hash3 js s r = (n, s')"
  shows "streak_ok s' \<and> ls_messages s' = ls_messages s \<and>
     (is_failure_result r \<longrightarrow> ls_repeated_success_count s' = 0) \<and>
     (\<not> is_failure_result r \<longrightarrow> ls_repeated_failure_count s' = 0)"
  using update_tool_streak_ok [OF assms] update_tool_streak_messages [of hash3 js s r] assms(2)
  by (auto simp: update_tool_streak_def Let_def split_beta split: if_splits)

lemma streak_counters_bounded_witness:
  "streak_ok (snd (update_tool_streak (\<lambda>_ _ _. 0) (\<lambda>_. []) (loop_state_new []) (Failed
     \<lparr>fc_call_id = lit ''c'', fc_tool_name = lit ''bash'', fc_input = JNull, fc_extra = None\<rparr> [] []
     (ToolTimeout 5))))"
  by (rule streak_counters_bounded [THEN conjunct1, OF _ prod.collapse [symmetric]])
     (simp add: streak_ok_def loop_state_new_def)

end
