(* ===== verification/LoopEnv.thy ===== *)
theory LoopEnv
  imports Redaction ToolCalls "HOL-Library.List_Lexorder"
begin

text \<open>
  The surroundings of the agent loop (\<open>crates/core/src/agent_loop.rs\<close>): state passing with
  errors, the services a run calls as one record of functions over an unspecified state \<open>'e\<close> of the
  outside world, the context of a run, and the chat hooks. Trace spans and their timings are not
  modelled: nothing in the loop reads them.
\<close>

section \<open>State passing with errors\<close>

type_synonym ('s, 'x, 'a) step = "'s \<Rightarrow> ('x + 'a) \<times> 's"

definition sreturn :: "'a \<Rightarrow> ('s, 'x, 'a) step" where
  "sreturn a s = (Inr a, s)"

definition sthrow :: "'x \<Rightarrow> ('s, 'x, 'a) step" where
  "sthrow x s = (Inl x, s)"

definition sbind :: "('s, 'x, 'a) step \<Rightarrow> ('a \<Rightarrow> ('s, 'x, 'b) step) \<Rightarrow> ('s, 'x, 'b) step" where
  "sbind m f s = (case m s of (Inr a, s') \<Rightarrow> f a s' | (Inl x, s') \<Rightarrow> (Inl x, s'))"

definition sread :: "('s \<Rightarrow> 'a) \<Rightarrow> ('s, 'x, 'a) step" where
  "sread f s = (Inr (f s), s)"

definition smodify :: "('s \<Rightarrow> 's) \<Rightarrow> ('s, 'x, unit) step" where
  "smodify f s = (Inr (), f s)"

definition smap_err :: "('x \<Rightarrow> 'y) \<Rightarrow> ('s, 'x, 'a) step \<Rightarrow> ('s, 'y, 'a) step" where
  "smap_err f m s = (case m s of (Inr a, s') \<Rightarrow> (Inr a, s') | (Inl x, s') \<Rightarrow> (Inl (f x), s'))"

text \<open>The result of a step as a value: what an \<open>async\<close> block gives before its \<open>?\<close>.\<close>

definition stry :: "('s, 'x, 'a) step \<Rightarrow> ('s, 'x, 'x + 'a) step" where
  "stry m s = (case m s of (r, s') \<Rightarrow> (Inr r, s'))"

definition sresult :: "'x + 'a \<Rightarrow> ('s, 'x, 'a) step" where
  "sresult r s = (r, s)"

fun siter :: "('a \<Rightarrow> ('s, 'x, unit) step) \<Rightarrow> 'a list \<Rightarrow> ('s, 'x, unit) step" where
  "siter f [] = sreturn ()"
| "siter f (a # as) = sbind (f a) (\<lambda>_. siter f as)"

text \<open>
  A triple: started where \<open>P\<close> holds, a step ends with \<open>Q\<close> of its value and state, or with \<open>E\<close> of its
  error and state.
\<close>

definition triple ::
  "('s \<Rightarrow> bool) \<Rightarrow> ('s, 'x, 'a) step \<Rightarrow> ('a \<Rightarrow> 's \<Rightarrow> bool) \<Rightarrow> ('x \<Rightarrow> 's \<Rightarrow> bool) \<Rightarrow> bool" where
  "triple P m Q E \<longleftrightarrow>
     (\<forall>s. P s \<longrightarrow> (case m s of (Inr a, s') \<Rightarrow> Q a s' | (Inl x, s') \<Rightarrow> E x s'))"

named_theorems triples

lemma triple_return [triples]: "(\<And>s. P s \<Longrightarrow> Q a s) \<Longrightarrow> triple P (sreturn a) Q E"
  by (simp add: triple_def sreturn_def)

lemma triple_throw [triples]: "(\<And>s. P s \<Longrightarrow> E x s) \<Longrightarrow> triple P (sthrow x) Q E"
  by (simp add: triple_def sthrow_def)

lemma triple_bind:
  assumes "triple P m R E" "\<And>a. triple (R a) (f a) Q E"
  shows "triple P (sbind m f) Q E"
  unfolding triple_def
proof (intro allI impI)
  fix s assume "P s"
  with assms(1) have m: "case m s of (Inr a, s') \<Rightarrow> R a s' | (Inl x, s') \<Rightarrow> E x s'"
    by (simp add: triple_def)
  obtain r s' where r: "m s = (r, s')" by (rule prod.exhaust)
  show "case sbind m f s of (Inr a, s') \<Rightarrow> Q a s' | (Inl x, s') \<Rightarrow> E x s'"
  proof (cases r)
    case (Inl x)
    with m r show ?thesis by (simp add: sbind_def)
  next
    case (Inr a)
    with m r assms(2) [of a] show ?thesis by (simp add: sbind_def triple_def)
  qed
qed

lemma triple_read [triples]: "(\<And>s. P s \<Longrightarrow> Q (f s) s) \<Longrightarrow> triple P (sread f) Q E"
  by (simp add: triple_def sread_def)

lemma triple_modify [triples]: "(\<And>s. P s \<Longrightarrow> Q () (f s)) \<Longrightarrow> triple P (smodify f) Q E"
  by (simp add: triple_def smodify_def)

lemma tripleI:
  assumes "\<And>s a s'. P s \<Longrightarrow> m s = (Inr a, s') \<Longrightarrow> Q a s'" "\<And>s x s'. P s \<Longrightarrow> m s = (Inl x, s') \<Longrightarrow> E x s'"
  shows "triple P m Q E"
  using assms by (simp add: triple_def split: prod.split sum.split)

lemma tripleD:
  "triple P m Q E \<Longrightarrow> P s \<Longrightarrow> m s = (Inr a, s') \<Longrightarrow> Q a s'"
  "triple P m Q E \<Longrightarrow> P s \<Longrightarrow> m s = (Inl x, s') \<Longrightarrow> E x s'"
  by (force simp: triple_def)+

lemma triple_map_err:
  assumes "triple P m Q (\<lambda>x. E (f x))"
  shows "triple P (smap_err f m) Q E"
  by (rule tripleI) (auto simp: smap_err_def split: prod.splits sum.splits dest: tripleD [OF assms])

lemma triple_try:
  assumes "triple P m (\<lambda>a. Q (Inr a)) (\<lambda>x. Q (Inl x))"
  shows "triple P (stry m) Q E"
proof (rule tripleI)
  fix s r s' assume "P s" "stry m s = (Inr r, s')"
  then show "Q r s'"
    using tripleD [OF assms] by (cases r) (auto simp: stry_def split: prod.splits)
qed (simp add: stry_def split: prod.splits)

lemma triple_result:
  "(\<And>s a. P s \<Longrightarrow> r = Inr a \<Longrightarrow> Q a s) \<Longrightarrow> (\<And>s x. P s \<Longrightarrow> r = Inl x \<Longrightarrow> E x s) \<Longrightarrow> triple P (sresult r) Q E"
  by (cases r) (simp_all add: triple_def sresult_def)

lemma triple_iter:
  "(\<And>a. a \<in> set as \<Longrightarrow> triple P (f a) (\<lambda>_. P) E) \<Longrightarrow> triple P (siter f as) (\<lambda>_. P) E"
  by (induction as) (auto intro: triple_return triple_bind)

lemma triple_if:
  "(b \<Longrightarrow> triple P m Q E) \<Longrightarrow> (\<not> b \<Longrightarrow> triple P m' Q E) \<Longrightarrow> triple P (if b then m else m') Q E"
  by simp

lemma triple_option:
  "(r = None \<Longrightarrow> triple P m Q E) \<Longrightarrow> (\<And>x. r = Some x \<Longrightarrow> triple P (m' x) Q E) \<Longrightarrow>
   triple P (case r of None \<Rightarrow> m | Some x \<Rightarrow> m' x) Q E"
  by (cases r) simp_all

lemma triple_sum:
  "(\<And>x. r = Inl x \<Longrightarrow> triple P (m x) Q E) \<Longrightarrow> (\<And>x. r = Inr x \<Longrightarrow> triple P (m' x) Q E) \<Longrightarrow>
   triple P (case r of Inl x \<Rightarrow> m x | Inr x \<Rightarrow> m' x) Q E"
  by (cases r) simp_all

lemma triple_prod:
  "(\<And>x y. r = (x, y) \<Longrightarrow> triple P (m x y) Q E) \<Longrightarrow> triple P (case r of (x, y) \<Rightarrow> m x y) Q E"
  by (cases r) simp

lemma triple_assoc: "triple P (sbind (sbind m f) g) Q E \<Longrightarrow> triple P (sbind m (\<lambda>a. sbind (f a) g)) Q E"
  unfolding triple_def sbind_def by (auto split: prod.splits sum.splits)

lemma triple_weaken:
  "triple P' m Q' E' \<Longrightarrow> (\<And>s. P s \<Longrightarrow> P' s) \<Longrightarrow> (\<And>a s. Q' a s \<Longrightarrow> Q a s) \<Longrightarrow> (\<And>x s. E' x s \<Longrightarrow> E x s) \<Longrightarrow>
   triple P m Q E"
  by (fastforce simp: triple_def split: prod.splits sum.splits)

text \<open>What a step leaves alone, whether it succeeds or fails.\<close>

definition keeps :: "('s \<Rightarrow> 'b) \<Rightarrow> ('s, 'x, 'a) step \<Rightarrow> bool" where
  "keeps f m \<longleftrightarrow> (\<forall>s. f (snd (m s)) = f s)"

named_theorems keeping

lemma keeps_basic [keeping]:
  "keeps f (sreturn a)" "keeps f (sthrow x)" "keeps f (sread g)" "keeps f (sresult r)"
  by (simp_all add: keeps_def sreturn_def sthrow_def sread_def sresult_def)

lemma keeps_modify [keeping]: "(\<And>s. f (h s) = f s) \<Longrightarrow> keeps f (smodify h)"
  by (simp add: keeps_def smodify_def)

lemma keeps_bind [keeping]:
  assumes "keeps f m" "\<And>a. keeps f (g a)"
  shows "keeps f (sbind m g)"
  unfolding keeps_def sbind_def
proof
  fix s
  obtain r s' where "m s = (r, s')" by (rule prod.exhaust)
  then show "f (snd (case m s of (Inr a, s') \<Rightarrow> g a s' | (Inl x, s') \<Rightarrow> (Inl x, s'))) = f s"
    using assms by (cases r) (auto simp: keeps_def dest: spec [of _ s])
qed

lemma keeps_map_err [keeping]: "keeps f m \<Longrightarrow> keeps f (smap_err g m)"
  by (auto simp: keeps_def smap_err_def split: prod.splits sum.splits) (metis snd_conv)+

lemma keeps_try [keeping]: "keeps f m \<Longrightarrow> keeps f (stry m)"
  by (auto simp: keeps_def stry_def split: prod.splits) (metis snd_conv)

lemma keeps_iter [keeping]: "(\<And>a. a \<in> set as \<Longrightarrow> keeps f (g a)) \<Longrightarrow> keeps f (siter g as)"
  by (induction as) (auto intro: keeping)

lemma keeps_if [keeping]: "keeps f a \<Longrightarrow> keeps f b \<Longrightarrow> keeps f (if P then a else b)"
  by simp

lemma keeps_option [keeping]:
  "keeps f a \<Longrightarrow> (\<And>x. keeps f (b x)) \<Longrightarrow> keeps f (case r of None \<Rightarrow> a | Some x \<Rightarrow> b x)"
  by (cases r) simp_all

lemma keeps_sum [keeping]:
  "(\<And>x. keeps f (a x)) \<Longrightarrow> (\<And>x. keeps f (b x)) \<Longrightarrow> keeps f (case r of Inl x \<Rightarrow> a x | Inr x \<Rightarrow> b x)"
  by (cases r) simp_all

lemma keeps_prod [keeping]: "(\<And>x y. keeps f (a x y)) \<Longrightarrow> keeps f (case r of (x, y) \<Rightarrow> a x y)"
  by (cases r) simp

lemma keeps_Let [keeping]: "(\<And>x. keeps f (a x)) \<Longrightarrow> keeps f (let x = v in a x)"
  by simp

lemma triple_keeps:
  "keeps f m \<Longrightarrow> (\<And>s s'. f s' = f s \<Longrightarrow> P s \<Longrightarrow> P s') \<Longrightarrow> triple P m (\<lambda>_. P) (\<lambda>_. P)"
  unfolding keeps_def triple_def by (auto split: prod.split sum.split) (metis snd_conv)+

lemma triple_frame:
  "keeps f m \<Longrightarrow> triple P m Q E \<Longrightarrow> triple (\<lambda>s. P s \<and> R (f s)) m (\<lambda>a s. Q a s \<and> R (f s)) E"
  unfolding keeps_def triple_def by (auto split: prod.splits sum.splits) (metis snd_conv)

lemma triple_ex: "(\<And>x. triple (P x) m Q E) \<Longrightarrow> triple (\<lambda>s. \<exists>x. P x s) m Q E"
  unfolding triple_def
proof (intro allI impI)
  fix s
  assume all: "\<And>x. \<forall>s. P x s \<longrightarrow> (case m s of (Inl y, s') \<Rightarrow> E y s' | (Inr a, s') \<Rightarrow> Q a s')"
    and "\<exists>x. P x s"
  then obtain x where "P x s" by (elim exE)
  then show "case m s of (Inl y, s') \<Rightarrow> E y s' | (Inr a, s') \<Rightarrow> Q a s'"
    by (rule all [THEN spec, THEN mp])
qed

text \<open>What a step preserves, whether it succeeds or fails.\<close>

definition preserves :: "('s \<Rightarrow> bool) \<Rightarrow> ('s, 'x, 'a) step \<Rightarrow> bool" where
  "preserves P m \<longleftrightarrow> triple P m (\<lambda>_. P) (\<lambda>_. P)"

named_theorems preserving

lemma preserves_basic [preserving]:
  "preserves P (sreturn a)" "preserves P (sthrow x)" "preserves P (sread g)" "preserves P (sresult r)"
  by (auto simp: preserves_def intro: triple_return triple_throw triple_read triple_result)

lemma preserves_modify: "(\<And>s. P s \<Longrightarrow> P (h s)) \<Longrightarrow> preserves P (smodify h)"
  by (simp add: preserves_def triple_modify)

lemma preserves_bind [preserving]:
  "preserves P m \<Longrightarrow> (\<And>a. preserves P (g a)) \<Longrightarrow> preserves P (sbind m g)"
  unfolding preserves_def by (rule triple_bind)

lemma preserves_map_err [preserving]: "preserves P m \<Longrightarrow> preserves P (smap_err g m)"
  unfolding preserves_def by (rule triple_map_err)

lemma preserves_try [preserving]: "preserves P m \<Longrightarrow> preserves P (stry m)"
  unfolding preserves_def by (rule triple_try)

lemma preserves_iter [preserving]: "(\<And>a. a \<in> set as \<Longrightarrow> preserves P (g a)) \<Longrightarrow> preserves P (siter g as)"
  unfolding preserves_def by (rule triple_iter)

lemma preserves_if [preserving]: "preserves P a \<Longrightarrow> preserves P b \<Longrightarrow> preserves P (if B then a else b)"
  by simp

lemma preserves_option [preserving]:
  "preserves P a \<Longrightarrow> (\<And>x. preserves P (b x)) \<Longrightarrow> preserves P (case r of None \<Rightarrow> a | Some x \<Rightarrow> b x)"
  by (cases r) simp_all

lemma preserves_sum [preserving]:
  "(\<And>x. preserves P (a x)) \<Longrightarrow> (\<And>x. preserves P (b x)) \<Longrightarrow> preserves P (case r of Inl x \<Rightarrow> a x | Inr x \<Rightarrow> b x)"
  by (cases r) simp_all

lemma preserves_prod [preserving]:
  "(\<And>x y. preserves P (a x y)) \<Longrightarrow> preserves P (case r of (x, y) \<Rightarrow> a x y)"
  by (cases r) simp

lemma preserves_Let [preserving]: "(\<And>x. preserves P (a x)) \<Longrightarrow> preserves P (let x = v in a x)"
  by simp

lemma preserves_keeps:
  "keeps f m \<Longrightarrow> preserves (\<lambda>s. P (f s)) m"
  unfolding preserves_def by (erule triple_keeps) metis

lemma preserves_conj: "preserves P m \<Longrightarrow> preserves Q m \<Longrightarrow> preserves (\<lambda>s. P s \<and> Q s) m"
  unfolding preserves_def triple_def by (auto split: prod.splits sum.splits)

section \<open>The services of a run\<close>

record skill_summary =
  sks_skill_id :: rstr
  sks_description :: rstr

record skill_spec =
  sk_full_prompt :: rstr
  sk_user_invocable :: bool
  sk_location :: "rstr option"

record memory_snippet =
  mn_source :: rstr
  mn_content :: rstr
  mn_relevance_score :: f64

record environment_info =
  ei_model :: rstr
  ei_cwd :: rstr
  ei_workspace_root :: "rstr option"
  ei_date :: rstr
  ei_agent_id :: rstr

record prompt_build_input =
  pi_system_prompt :: rstr
  pi_messages :: "chat_message list"
  pi_visible_tools :: "tool_spec list"
  pi_skill_summaries :: "skill_summary list"
  pi_memory_snippets :: "memory_snippet list"
  pi_environment :: environment_info
  pi_feature_flags :: feature_flags
  pi_turn_count :: nat
  pi_budget :: token_budget_config

record prompt_build_result =
  pb_request :: llm_request
  pb_estimated_input_tokens :: nat
  pb_system_parts :: "rstr list"

record llm_response =
  rp_message :: assistant_message
  rp_kv_cache_chunk_hashes :: "rstr list"

text \<open>
  Inputs and results of the chat hooks. The model reference and the metadata of an input are
  default values; the primaries of the tool, provider and session hooks are one constructor.
\<close>

datatype hook_input =
    HookSystemTransform "rstr option" "rstr list"
  | HookChatMessage rstr rstr "rstr option" chat_message nat
  | HookCommandBefore rstr rstr rstr rstr

datatype system_transform_result = SystemAllow | SystemTransform "rstr list"
datatype chat_message_hook_result = MessageAccept | MessageTransform chat_message
datatype command_before_result = CommandAllow | CommandTransform rstr | CommandDeny rstr

datatype hook_primary =
    PrimarySystem system_transform_result
  | PrimaryMessage chat_message_hook_result
  | PrimaryCommand command_before_result
  | PrimaryOther

text \<open>
  Every service is a function of the outside world and returns it updated: the world holds the
  clock, the cancellation token, the queue of pending user messages, the plugins, the provider, the
  tools. \<open>sv_execute_all\<close> runs calls concurrently (\<open>join_all\<close>) and gives their results in the order
  of the calls. The stream of a provider is the chunks it delivers, each with the instants at which it is
  handled, before its final answer.
\<close>

record 'e services =
  sv_snapshot :: runtime_snapshot
  sv_cancelled :: "'e \<Rightarrow> bool \<times> 'e"
  sv_now :: "'e \<Rightarrow> nat \<times> 'e"
  sv_drain :: "'e \<Rightarrow> rstr list \<times> 'e"
  sv_hookers :: "rstr \<Rightarrow> rstr list"
  sv_hooker_enabled :: "rstr \<Rightarrow> bool"
  sv_invoke :: "rstr \<Rightarrow> hook_input \<Rightarrow> 'e \<Rightarrow> (rstr + hook_primary) \<times> 'e"
  sv_message_count :: "'e \<Rightarrow> nat"
  sv_skills :: "skill_summary list"
  sv_get_skill :: "rstr \<Rightarrow> skill_spec option"
  sv_open_todos :: "'e \<Rightarrow> rstr list"
  sv_policy :: token_budget_config
  sv_analyze :: "chat_message list \<Rightarrow> token_budget_config \<Rightarrow> context_analysis option"
  sv_compress :: "chat_message list \<Rightarrow> token_budget_config \<Rightarrow> compression_meta \<Rightarrow> 'e \<Rightarrow>
    (compression_error + compressed_view) \<times> 'e"
  sv_build :: "prompt_build_input \<Rightarrow> 'e \<Rightarrow> (rstr + prompt_build_result) \<times> 'e"
  sv_non_streaming :: bool
  sv_complete :: "llm_request \<Rightarrow> 'e \<Rightarrow> (llm_error + llm_response) \<times> 'e"
  sv_stream :: "llm_request \<Rightarrow> 'e \<Rightarrow>
    ((nat \<times> nat) \<times> stream_chunk) list \<times> (llm_error + llm_response) \<times> 'e"
  sv_get_executor :: "rstr \<Rightarrow> tool_spec option"
  sv_execute :: "final_tool_call \<Rightarrow> 'e \<Rightarrow> (rstr + tool_execution_result) \<times> 'e"
  sv_execute_all :: "final_tool_call list \<Rightarrow> 'e \<Rightarrow> (rstr + tool_execution_result) list \<times> 'e"
  sv_save_output :: "rstr \<Rightarrow> rstr \<Rightarrow> rstr \<Rightarrow> 'e \<Rightarrow> rstr option \<times> 'e"
  sv_js :: "json \<Rightarrow> rstr"
  sv_pretty :: "json \<Rightarrow> rstr"
  sv_from_str :: "rstr \<Rightarrow> json option"
  sv_hash3 :: "rstr \<Rightarrow> rstr \<Rightarrow> rstr option \<Rightarrow> nat"

section \<open>The context of a run\<close>

datatype loop_decision = Continue | ReturnComplete | ReturnMaxTurns | ReturnBudgetExhausted | ReturnCancelled

record turn_state =
  tn_turn_number :: nat
  tn_compression_output :: "compressed_view option"
  tn_build_messages_output :: "prompt_build_result option"
  tn_assistant_message :: "assistant_message option"
  tn_tool_results :: "tool_execution_result list"
  tn_decision :: "loop_decision option"
  tn_force_return_complete :: bool

definition turn_state_new :: "nat \<Rightarrow> turn_state" where
  "turn_state_new n = \<lparr>tn_turn_number = n, tn_compression_output = None, tn_build_messages_output = None,
     tn_assistant_message = None, tn_tool_results = [], tn_decision = None,
     tn_force_return_complete = False\<rparr>"

record 'e loop_context =
  cx_state :: loop_state
  cx_input :: agent_loop_input
  cx_turn :: turn_state
  cx_estimator :: core_estimator
  cx_env :: 'e
  cx_events :: "loop_event list"
  cx_evicted :: "rstr list list"

text \<open>A run ends with an error of the agent, or with a panic of the code.\<close>

datatype loop_abort = AgentErr agent_error | Panic

definition env_call :: "('e \<Rightarrow> 'a \<times> 'e) \<Rightarrow> ('e loop_context, 'x, 'a) step" where
  "env_call f c = (case f (cx_env c) of (a, e) \<Rightarrow> (Inr a, c\<lparr>cx_env := e\<rparr>))"

definition emit :: "loop_event list \<Rightarrow> ('e loop_context, 'x, unit) step" where
  "emit evs = smodify (\<lambda>c. if in_event_sink (cx_input c) = None then c
                           else c\<lparr>cx_events := cx_events c @ evs\<rparr>)"

definition update_state :: "(loop_state \<Rightarrow> loop_state) \<Rightarrow> ('e loop_context, 'x, unit) step" where
  "update_state f = smodify (\<lambda>c. c\<lparr>cx_state := f (cx_state c)\<rparr>)"

definition update_turn :: "(turn_state \<Rightarrow> turn_state) \<Rightarrow> ('e loop_context, 'x, unit) step" where
  "update_turn f = smodify (\<lambda>c. c\<lparr>cx_turn := f (cx_turn c)\<rparr>)"

definition push_raw :: "chat_message \<Rightarrow> ('e loop_context, 'x, unit) step" where
  "push_raw m = update_state (\<lambda>s. s\<lparr>ls_messages := ls_messages s @ [m]\<rparr>)"

text \<open>\<open>update_message_cache\<close> followed by the push, as at every push site.\<close>

definition push_message :: "'e services \<Rightarrow> chat_message \<Rightarrow> ('e loop_context, 'x, unit) step" where
  "push_message sv m = push_raw (update_message_cache (sv_js sv) m)"

section \<open>Chat hooks\<close>

text \<open>Strings are ordered by their code points, which is the order of their UTF-8 bytes.\<close>

definition enabled_hookers_for :: "'e services \<Rightarrow> rstr \<Rightarrow> rstr list" where
  "enabled_hookers_for sv hook_point = sort (filter (sv_hooker_enabled sv) (sv_hookers sv hook_point))"

definition chat_agent_segment :: "rstr option \<Rightarrow> rstr" where
  "chat_agent_segment agent_id = (case agent_id of Some a \<Rightarrow> a | None \<Rightarrow> lit ''anonymous'')"

text \<open>\<open>HookApply\<close> is the accumulator with whether to stop; an unexpected output is an error.\<close>

fun run_chat_hook_chain ::
  "'e services \<Rightarrow> ('acc \<Rightarrow> hook_input) \<Rightarrow> ('acc \<Rightarrow> hook_primary \<Rightarrow> rstr + 'acc \<times> bool) \<Rightarrow>
   rstr list \<Rightarrow> 'acc \<Rightarrow> 'e \<Rightarrow> 'acc \<times> 'e" where
  "run_chat_hook_chain sv build_input apply_output [] acc e = (acc, e)"
| "run_chat_hook_chain sv build_input apply_output (h # hs) acc e =
     (case sv_invoke sv h (build_input acc) e of
        (Inl _, e) \<Rightarrow> run_chat_hook_chain sv build_input apply_output hs acc e
      | (Inr output, e) \<Rightarrow>
          (case apply_output acc output of
             Inl _ \<Rightarrow> run_chat_hook_chain sv build_input apply_output hs acc e
           | Inr (acc, do_break) \<Rightarrow>
               if do_break then (acc, e)
               else run_chat_hook_chain sv build_input apply_output hs acc e))"

definition unexpected_primary :: "rstr \<Rightarrow> rstr" where
  "unexpected_primary expected = lit ''expected '' @ expected @ lit '' primary''"

fun rewrite_system_message :: "rstr \<Rightarrow> chat_message list \<Rightarrow> chat_message list" where
  "rewrite_system_message joined [] = []"
| "rewrite_system_message joined (m # ms) =
     (if role m = System then m\<lparr>blocks := [Text joined]\<rparr> # ms else m # ms)"

fun apply_system_transform ::
  "prompt_build_result \<Rightarrow> hook_primary \<Rightarrow> rstr + prompt_build_result \<times> bool" where
  "apply_system_transform result (PrimarySystem SystemAllow) = Inr (result, False)"
| "apply_system_transform result (PrimarySystem (SystemTransform system)) =
     (let request = pb_request result in
      Inr (result\<lparr>pb_system_parts := system,
             pb_request := request\<lparr>lr_messages :=
               rewrite_system_message (join [10, 10] system) (lr_messages request)\<rparr>\<rparr>, False))"
| "apply_system_transform result _ = Inl (unexpected_primary (lit ''ChatSystemTransform''))"

definition run_chat_system_transform_sequence ::
  "'e services \<Rightarrow> prompt_build_result \<Rightarrow> ('e loop_context, 'x, prompt_build_result) step" where
  "run_chat_system_transform_sequence sv result c =
     (if \<not> in_runtime_view (cx_input c) then (Inr result, c)
      else
        let hook_point = chat_agent_segment (in_agent_id (cx_input c)) @ lit ''.Chat.system.transform'';
            session_id = ls_session_id (cx_state c) in
        env_call (run_chat_hook_chain sv
            (\<lambda>r. HookSystemTransform (Some session_id) (pb_system_parts r)) apply_system_transform
            (enabled_hookers_for sv hook_point) result) c)"

fun apply_message_hook :: "chat_message \<Rightarrow> hook_primary \<Rightarrow> rstr + chat_message \<times> bool" where
  "apply_message_hook message (PrimaryMessage MessageAccept) = Inr (message, False)"
| "apply_message_hook message (PrimaryMessage (MessageTransform new_message)) = Inr (new_message, False)"
| "apply_message_hook message _ = Inl (unexpected_primary (lit ''ChatMessage''))"

definition run_chat_message_hook ::
  "'e services \<Rightarrow> rstr \<Rightarrow> rstr option \<Rightarrow> chat_message \<Rightarrow> 'e \<Rightarrow> chat_message \<times> 'e" where
  "run_chat_message_hook sv session_id agent_id candidate e =
     (let agent_segment = chat_agent_segment agent_id;
          hook_point = agent_segment @ lit ''.Chat.message.received'';
          prior_message_count = sv_message_count sv e in
      run_chat_hook_chain sv
        (\<lambda>m. HookChatMessage session_id agent_segment (message_id m) m prior_message_count)
        apply_message_hook (enabled_hookers_for sv hook_point) candidate e)"

definition apply_chat_message_hook ::
  "'e services \<Rightarrow> chat_message \<Rightarrow> ('e loop_context, 'x, chat_message) step" where
  "apply_chat_message_hook sv candidate c =
     (if in_runtime_view (cx_input c)
      then env_call (run_chat_message_hook sv (ls_session_id (cx_state c)) (in_agent_id (cx_input c)) candidate) c
      else (Inr candidate, c))"

fun apply_command_hook ::
  "rstr \<times> rstr option \<Rightarrow> hook_primary \<Rightarrow> rstr + (rstr \<times> rstr option) \<times> bool" where
  "apply_command_hook acc (PrimaryCommand CommandAllow) = Inr (acc, False)"
| "apply_command_hook acc (PrimaryCommand (CommandTransform body)) = Inr ((body, snd acc), False)"
| "apply_command_hook acc (PrimaryCommand (CommandDeny reason)) = Inr ((fst acc, Some reason), True)"
| "apply_command_hook acc _ = Inl (unexpected_primary (lit ''CommandExecuteBefore''))"

definition run_command_execute_before_hook ::
  "'e services \<Rightarrow> rstr \<Rightarrow> rstr option \<Rightarrow> rstr \<Rightarrow> rstr \<Rightarrow> rstr \<Rightarrow> 'e \<Rightarrow> (rstr \<times> rstr option) \<times> 'e" where
  "run_command_execute_before_hook sv session_id agent_id command arguments body e =
     (let hook_point = chat_agent_segment agent_id @ lit ''.Chat.command.before'' in
      run_chat_hook_chain sv (\<lambda>acc. HookCommandBefore command session_id arguments (fst acc))
        apply_command_hook (enabled_hookers_for sv hook_point) (body, None) e)"

section \<open>Lemmas\<close>

lemma triple_env_call:
  "(\<And>c a e. P c \<Longrightarrow> f (cx_env c) = (a, e) \<Longrightarrow> Q a (c\<lparr>cx_env := e\<rparr>)) \<Longrightarrow> triple P (env_call f) Q E"
  by (auto simp: triple_def env_call_def split: prod.split)

lemma keeps_env_call [keeping]: "(\<And>c e. f (c\<lparr>cx_env := e\<rparr>) = f c) \<Longrightarrow> keeps f (env_call g)"
  by (simp add: keeps_def env_call_def split: prod.split)

text \<open>The history and the number of the turn.\<close>

abbreviation history :: "'e loop_context \<Rightarrow> chat_message list" where
  "history c \<equiv> ls_messages (cx_state c)"

abbreviation turn_number :: "'e loop_context \<Rightarrow> nat" where
  "turn_number c \<equiv> tn_turn_number (cx_turn c)"

abbreviation turn_results :: "'e loop_context \<Rightarrow> tool_execution_result list" where
  "turn_results c \<equiv> tn_tool_results (cx_turn c)"

lemma emit_keeps [keeping]:
  "keeps history (emit evs)" "keeps turn_number (emit evs)" "keeps turn_results (emit evs)"
  "keeps cx_turn (emit evs)" "keeps cx_input (emit evs)"
  unfolding emit_def by (intro keeping; simp)+

lemma hooks_keep [keeping]:
  "keeps history (run_chat_system_transform_sequence sv r)"
  "keeps turn_number (run_chat_system_transform_sequence sv r)"
  "keeps turn_results (run_chat_system_transform_sequence sv r)"
  "keeps cx_turn (run_chat_system_transform_sequence sv r)"
  "keeps cx_input (run_chat_system_transform_sequence sv r)"
  "keeps history (apply_chat_message_hook sv m)" "keeps turn_number (apply_chat_message_hook sv m)"
  by (auto simp: keeps_def run_chat_system_transform_sequence_def apply_chat_message_hook_def env_call_def
      Let_def split: prod.split)

lemmas preserves_history = preserves_keeps [where f = history]

text \<open>A hook chain applies the outputs in the order of the ids and stops at the first that asks for it.\<close>

lemma hook_chain_invariant:
  assumes "I acc"
    and "\<And>h acc e out e' acc' b. I acc \<Longrightarrow> sv_invoke sv h (build_input acc) e = (Inr out, e') \<Longrightarrow>
      apply_output acc out = Inr (acc', b) \<Longrightarrow> I acc'"
  shows "I (fst (run_chat_hook_chain sv build_input apply_output hs acc e))"
  using assms(1)
proof (induction hs arbitrary: acc e)
  case Nil
  then show ?case by simp
next
  case (Cons h hs)
  obtain r e' where r: "sv_invoke sv h (build_input acc) e = (r, e')" by (rule prod.exhaust)
  show ?case
  proof (cases r)
    case (Inl x)
    with Cons r show ?thesis by simp
  next
    case (Inr out)
    then show ?thesis
      using Cons assms(2) r by (cases "apply_output acc out") (auto split: prod.split)
  qed
qed

end
