(* ===== verification/Turn.thy ===== *)
theory Turn
  imports LoopEnv
begin

text \<open>
  One turn of the agent loop up to the model's answer (\<open>crates/core/src/agent_loop.rs\<close>): compression
  with the pruning of stale tool output, the live context of the prompt, prompt building, the
  budget pre-check, the provider call with its redacted streaming, and the single recovery from a
  provider that rejects the request as too long.
\<close>

section \<open>Compression\<close>

datatype compression_trigger = Automatic | ContextLimitRetry | PreCheckExceeded

fun trigger_as_str :: "compression_trigger \<Rightarrow> rstr" where
  "trigger_as_str Automatic = lit ''automatic''"
| "trigger_as_str ContextLimitRetry = lit ''context_limit_retry''"
| "trigger_as_str PreCheckExceeded = lit ''pre_check_exceeded''"

definition is_forced :: "compression_trigger \<Rightarrow> bool" where
  "is_forced t \<longleftrightarrow> t = ContextLimitRetry \<or> t = PreCheckExceeded"

definition keep_recent_tool_bytes :: nat where
  "keep_recent_tool_bytes = 40000"

definition min_prunable_bytes :: nat where
  "min_prunable_bytes = 1000"

definition pruned_marker :: rstr where
  "pruned_marker = lit ''[older tool output pruned to save context '' @ [8212] @
     lit '' re-run the tool or read the file if you still need it]''"

fun prune_block :: "nat \<Rightarrow> content_block \<Rightarrow> nat \<times> content_block" where
  "prune_block kept (ToolResult cid name out err) =
     (if out = pruned_marker then (kept, ToolResult cid name out err)
      else if kept < keep_recent_tool_bytes then (kept + byte_len out, ToolResult cid name out err)
      else if min_prunable_bytes < byte_len out then (kept, ToolResult cid name pruned_marker err)
      else (kept, ToolResult cid name out err))"
| "prune_block kept b = (kept, b)"

fun prune_blocks :: "nat \<Rightarrow> content_block list \<Rightarrow> nat \<times> content_block list" where
  "prune_blocks kept [] = (kept, [])"
| "prune_blocks kept (b # bs) =
     (let (kept, b) = prune_block kept b; (kept, bs) = prune_blocks kept bs in (kept, b # bs))"

text \<open>The messages from the newest to the oldest.\<close>

fun prune_messages :: "nat \<Rightarrow> chat_message list \<Rightarrow> chat_message list" where
  "prune_messages kept [] = []"
| "prune_messages kept (m # ms) =
     (let (kept, bs) = prune_blocks kept (blocks m) in m\<lparr>blocks := bs\<rparr> # prune_messages kept ms)"

definition prune_stale_tool_output :: "chat_message list \<Rightarrow> chat_message list" where
  "prune_stale_tool_output messages = rev (prune_messages 0 (rev messages))"

text \<open>The history after a compression: pruned, with the token caches filled.\<close>

definition install_view :: "'e services \<Rightarrow> compressed_view \<Rightarrow> ('e loop_context, loop_abort, unit) step" where
  "install_view sv view =
     (let view = view\<lparr>cv_messages := prune_stale_tool_output (cv_messages view)\<rparr>;
          new_messages = map (update_message_cache (sv_js sv)) (cv_messages view) in
      sbind (update_state (\<lambda>s. s\<lparr>ls_messages := new_messages, ls_compression_meta := cv_updated_meta view\<rparr>)) (\<lambda>_.
      update_turn (\<lambda>t. t\<lparr>tn_compression_output := Some view\<rparr>)))"

definition compress ::
  "'e services \<Rightarrow> compression_trigger \<Rightarrow> ('e loop_context, loop_abort, unit) step" where
  "compress sv trigger =
     sbind (sread (\<lambda>c. ls_messages (cx_state c))) (\<lambda>messages.
     case sv_analyze sv messages (sv_policy sv) of
       None \<Rightarrow> sthrow Panic
     | Some analysis \<Rightarrow>
         if \<not> is_forced trigger \<and> \<not> needs_compression analysis then sreturn ()
         else
           sbind (sread (\<lambda>c. ls_compression_meta (cx_state c))) (\<lambda>meta.
           sbind (env_call (sv_compress sv messages (sv_policy sv) meta)) (\<lambda>view.
           case view of
             Inl e \<Rightarrow> sthrow (AgentErr (Compression e))
           | Inr view \<Rightarrow> install_view sv view)))"

section \<open>Prompt\<close>

definition horizon_snippet :: "nat \<Rightarrow> nat \<Rightarrow> nat \<Rightarrow> nat \<Rightarrow> memory_snippet" where
  "horizon_snippet turn max_turns remaining tokens_used =
     \<lparr>mn_source = lit ''horizon'',
      mn_content = lit ''- turn: '' @ dec turn @ lit ''/'' @ dec max_turns @ lit '' ('' @ dec remaining @
        lit '' remaining)'' @ [10] @ lit ''- tokens used so far: ~'' @ dec tokens_used @ [10] @
        lit ''- NEARING THE TURN LIMIT '' @ [8212] @
        lit '' stop investigating and converge now: apply your best fix, save the files, and finish this turn. A committed partial fix beats an unfinished exploration that gets cut off.'',
      mn_relevance_score = Fin 1\<rparr>"

definition budget_snippet :: "nat \<Rightarrow> nat \<Rightarrow> nat \<Rightarrow> memory_snippet" where
  "budget_snippet pct context_input window =
     \<lparr>mn_source = lit ''budget'',
      mn_content = lit ''- context window: ~'' @ dec pct @ lit ''% used ('' @ dec context_input @ lit ''/'' @
        dec window @ lit '' input tokens)'' @
        (if 75 \<le> pct
         then lit '' '' @ [8212] @
           lit '' running full; converge and finish before the earliest context is compacted away.''
         else []),
      mn_relevance_score = f64_round (95/100)\<rparr>"

definition plan_snippet :: "rstr \<Rightarrow> memory_snippet" where
  "plan_snippet line =
     \<lparr>mn_source = lit ''plan'', mn_content = line, mn_relevance_score = f64_round (9/10)\<rparr>"

definition live_context_snippets :: "'e services \<Rightarrow> 'e loop_context \<Rightarrow> memory_snippet list" where
  "live_context_snippets sv c =
     (let turn = tn_turn_number (cx_turn c);
          max_turns = rs_max_turns (sv_snapshot sv);
          tokens_used = total_tokens (ls_last_token_usage (cx_state c));
          remaining = max_turns - turn;
          window = total_budget (rs_token_budget_config (sv_snapshot sv));
          context_input = prompt_tokens (ls_last_token_usage (cx_state c));
          pct = min (context_input * 100) u64_max div window in
      (if 0 < max_turns \<and> remaining \<le> 5
       then [horizon_snippet turn max_turns remaining tokens_used] else []) @
      (if window \<noteq> 0 \<and> 25 \<le> pct then [budget_snippet pct context_input window] else []) @
      (if in_runtime_view (cx_input c)
       then map plan_snippet (sv_open_todos sv (cx_env c))
       else []))"

definition is_final_turn :: "'e services \<Rightarrow> 'e loop_context \<Rightarrow> bool" where
  "is_final_turn sv c \<longleftrightarrow>
     0 < rs_max_turns (sv_snapshot sv) \<and> rs_max_turns (sv_snapshot sv) \<le> tn_turn_number (cx_turn c)"

definition prompt_input :: "'e services \<Rightarrow> 'e loop_context \<Rightarrow> prompt_build_input" where
  "prompt_input sv c =
     \<lparr>pi_system_prompt = rs_system_prompt (sv_snapshot sv),
      pi_messages = ls_messages (cx_state c),
      pi_visible_tools = (if is_final_turn sv c then [] else in_visible_tools (cx_input c)),
      pi_skill_summaries = sv_skills sv,
      pi_memory_snippets = live_context_snippets sv c,
      pi_environment = \<lparr>ei_model = [], ei_cwd = [], ei_workspace_root = None, ei_date = [],
        ei_agent_id = (case in_agent_id (cx_input c) of Some a \<Rightarrow> a | None \<Rightarrow> [])\<rparr>,
      pi_feature_flags = rs_feature_flags (sv_snapshot sv),
      pi_turn_count = tn_turn_number (cx_turn c),
      pi_budget = rs_token_budget_config (sv_snapshot sv)\<rparr>"

definition build_messages :: "'e services \<Rightarrow> ('e loop_context, loop_abort, unit) step" where
  "build_messages sv =
     sbind (sread (prompt_input sv)) (\<lambda>input.
     sbind (env_call (sv_build sv input)) (\<lambda>result.
     case result of
       Inl e \<Rightarrow> sthrow (AgentErr (PromptBuild e))
     | Inr result \<Rightarrow>
         sbind (sread (\<lambda>c. in_reasoning_effort (cx_input c))) (\<lambda>effort.
         sbind (run_chat_system_transform_sequence sv
                  (result\<lparr>pb_request := (pb_request result)\<lparr>lr_reasoning_effort := effort\<rparr>\<rparr>)) (\<lambda>result.
         update_turn (\<lambda>t. t\<lparr>tn_build_messages_output := Some result\<rparr>)))))"

section \<open>Budget pre-check\<close>

definition run_estimate :: "'e services \<Rightarrow> ('e loop_context, 'x, nat) step" where
  "run_estimate sv c =
     (let (n, te) = estimate_input_tokens (sv_js sv) (cx_estimator c) (rs_system_prompt (sv_snapshot sv))
            (rs_tool_spec_count (sv_snapshot sv)) (ls_messages (cx_state c))
      in (Inr n, c\<lparr>cx_estimator := te\<rparr>))"

text \<open>The two branches after the second estimate differ in what they log.\<close>

definition pre_check_token_budget :: "'e services \<Rightarrow> ('e loop_context, loop_abort, unit) step" where
  "pre_check_token_budget sv =
     sbind (run_estimate sv) (\<lambda>estimated_input.
     let budget = rs_token_budget_config (sv_snapshot sv);
         available_for_input = total_budget budget - reserved_for_output budget - reserved_for_system budget in
     if estimated_input \<le> available_for_input then sreturn ()
     else
       sbind (compress sv PreCheckExceeded) (\<lambda>_.
       sbind (build_messages sv) (\<lambda>_.
       sbind (run_estimate sv) (\<lambda>new_estimated. sreturn ()))))"

section \<open>The provider call\<close>

definition usage_of_response :: "llm_response \<Rightarrow> usage" where
  "usage_of_response response = am_usage (rp_message response)"

text \<open>The partial message of a cancelled stream; nothing when nothing was streamed.\<close>

definition partial_assistant_message :: "assistant_stream_state \<Rightarrow> assistant_message option" where
  "partial_assistant_message st =
     (if st_text st = [] \<and> st_reasoning st = [] then None
      else Some \<lparr>am_text = (if st_text st = [] then None else Some (st_text st)),
                 am_reasoning = (if st_reasoning st = [] then None else Some (st_reasoning st)),
                 am_tool_calls = [], am_usage = usage_default, am_stop_reason = EndTurn\<rparr>)"

definition cancelled_stream ::
  "rstr list \<Rightarrow> assistant_stream_state \<Rightarrow> ('e loop_context, llm_error, unit) step" where
  "cancelled_stream secrets st =
     (case partial_assistant_message st of
        None \<Rightarrow> sreturn ()
      | Some partial \<Rightarrow>
          sbind (sread (\<lambda>c. in_event_sink (cx_input c))) (\<lambda>sink.
          sbind (emit (flush_partial sink secrets st)) (\<lambda>_.
          update_turn (\<lambda>t. t\<lparr>tn_assistant_message := Some partial\<rparr>))))"

definition update_kv_cache :: "'e services \<Rightarrow> llm_response \<Rightarrow> ('e loop_context, llm_error, unit) step" where
  "update_kv_cache sv response =
     (if \<not> ff_kvcache_enabled (rs_feature_flags (sv_snapshot sv)) then sreturn ()
      else
        let hashes = rp_kv_cache_chunk_hashes response;
            assistant_text = (case am_text (rp_message response) of Some t \<Rightarrow> t | None \<Rightarrow> []) in
        smodify (\<lambda>c. c\<lparr>cx_evicted := cx_evicted c @ [kv_diff_deleted (ls_kv_cache_map (cx_state c)) hashes],
                       cx_state := (cx_state c)\<lparr>ls_kv_cache_map := kv_replace hashes assistant_text\<rparr>\<rparr>))"

definition finish_llm_call ::
  "'e services \<Rightarrow> rstr list \<Rightarrow> assistant_stream_state \<Rightarrow> llm_response \<Rightarrow> ('e loop_context, llm_error, unit) step" where
  "finish_llm_call sv secrets st response =
     sbind (update_state (\<lambda>s. s\<lparr>ls_last_token_usage := usage_of_response response,
              ls_token_usage := usage_add_assign (ls_token_usage s) (usage_of_response response)\<rparr>)) (\<lambda>_.
     sbind (sread (\<lambda>c. in_event_sink (cx_input c))) (\<lambda>sink.
     sbind (emit (flush_response sink secrets st (am_text (rp_message response))
              (am_reasoning (rp_message response)))) (\<lambda>_.
     sbind (update_turn (\<lambda>t. t\<lparr>tn_assistant_message := Some (rp_message response)\<rparr>)) (\<lambda>_.
     update_kv_cache sv response))))"

text \<open>
  \<open>llm_call\<close>. Nothing is called once the run is cancelled. The missing prompt of the \<open>expect\<close> is a
  panic; it is thrown as \<open>None\<close> in the place of a provider error.
\<close>

definition llm_call_request ::
  "'e services \<Rightarrow> llm_request \<Rightarrow> ('e loop_context, llm_error, unit) step" where
  "llm_call_request sv request =
     sbind (sread (\<lambda>c. if ff_redact_secrets_display (rs_feature_flags (sv_snapshot sv))
                       then extract_secrets_from_messages (sv_from_str sv) (ls_messages (cx_state c))
                       else [])) (\<lambda>secrets.
     if sv_non_streaming sv then
       sbind (env_call (sv_complete sv request)) (\<lambda>r.
       sbind (sresult r) (\<lambda>response. finish_llm_call sv secrets assistant_stream_default response))
     else
       sbind (env_call (\<lambda>e. case sv_stream sv request e of (chunks, r, e) \<Rightarrow> ((chunks, r), e))) (\<lambda>(chunks, r).
       sbind (sread (\<lambda>c. in_event_sink (cx_input c))) (\<lambda>sink.
       let (st, evs) = stream_chunks sink secrets assistant_stream_default chunks in
       sbind (emit evs) (\<lambda>_.
       case r of
         Inr response \<Rightarrow> finish_llm_call sv secrets st response
       | Inl error \<Rightarrow> if error = LlmCancelled then cancelled_stream secrets st else sthrow error))))"

definition llm_call :: "'e services \<Rightarrow> ('e loop_context, llm_error option, unit) step" where
  "llm_call sv =
     sbind (env_call (sv_cancelled sv)) (\<lambda>cancelled.
     if cancelled then sreturn ()
     else
       sbind (sread (\<lambda>c. tn_build_messages_output (cx_turn c))) (\<lambda>output.
       case output of
         None \<Rightarrow> sthrow None
       | Some build_result \<Rightarrow> smap_err Some (llm_call_request sv (pb_request build_result))))"

definition llm_abort :: "llm_error option \<Rightarrow> loop_abort" where
  "llm_abort e = (case e of Some error \<Rightarrow> AgentErr (LlmProviderError error) | None \<Rightarrow> Panic)"

definition is_context_limit :: "llm_error option \<Rightarrow> bool" where
  "is_context_limit e \<longleftrightarrow> (case e of Some (ContextLengthExceeded message) \<Rightarrow> True | _ \<Rightarrow> False)"

definition llm_call_with_recovery :: "'e services \<Rightarrow> ('e loop_context, loop_abort, unit) step" where
  "llm_call_with_recovery sv =
     sbind (smap_err llm_abort (stry (llm_call sv))) (\<lambda>result.
     case result of
       Inl e \<Rightarrow>
         if is_context_limit e then
           sbind (compress sv ContextLimitRetry) (\<lambda>_.
           sbind (build_messages sv) (\<lambda>_.
           smap_err llm_abort (llm_call sv)))
         else sthrow (llm_abort e)
     | Inr r \<Rightarrow> sreturn r)"

section \<open>Pruning\<close>

lemma prune_block_ids [simp]:
  "use_id (snd (prune_block k b)) = use_id b" "result_id (snd (prune_block k b)) = result_id b"
  by (cases b; simp)+

lemma prune_blocks_ids [simp]:
  "map use_id (snd (prune_blocks k bs)) = map use_id bs"
  "map result_id (snd (prune_blocks k bs)) = map result_id bs"
  by (induction bs arbitrary: k) (simp_all add: Let_def split_beta)

lemma map_filter_via_map: "List.map_filter f xs = List.map_filter id (map f xs)"
  by (induction xs) (simp_all add: List.map_filter_simps split: option.split)

text \<open>What pairing depends on.\<close>

definition shape :: "chat_message \<Rightarrow> message_role \<times> rstr list \<times> rstr list" where
  "shape m = (role m, tool_use_ids m, tool_result_ids m)"

lemma shape_prune_blocks: "shape (m\<lparr>blocks := snd (prune_blocks k (blocks m))\<rparr>) = shape m"
  by (simp add: shape_def tool_use_ids_def tool_result_ids_def
      map_filter_via_map [of use_id] map_filter_via_map [of result_id])

lemma shape_prune_messages: "map shape (prune_messages k ms) = map shape ms"
  by (induction ms arbitrary: k) (simp_all add: Let_def split_beta shape_prune_blocks)

lemma shape_prune: "map shape (prune_stale_tool_output ms) = map shape ms"
  by (simp add: prune_stale_tool_output_def rev_map [symmetric] shape_prune_messages)

lemma shape_cache: "shape (update_message_cache js m) = shape m"
  by (simp add: shape_def update_message_cache_def tool_use_ids_def tool_result_ids_def)

lemma paired_from_shape: "map shape ms = map shape ms' \<Longrightarrow> paired_from S ms = paired_from S ms'"
proof (induction ms arbitrary: ms' S)
  case (Cons m ms)
  then obtain m' ms2 where m': "ms' = m' # ms2" by (cases ms') auto
  with Cons.prems have "shape m = shape m'" "map shape ms = map shape ms2" by simp_all
  with Cons.IH [of ms2] show ?case unfolding m' paired_from.simps by (simp add: shape_def [of m] shape_def [of m'])
qed simp

lemma wf_history_shape: "map shape ms = map shape ms' \<Longrightarrow> wf_history ms = wf_history ms'"
proof (induction ms arbitrary: ms')
  case (Cons m ms)
  then obtain m' ms2 where m': "ms' = m' # ms2" by (cases ms') auto
  with Cons.prems have "shape m = shape m'" "map shape ms = map shape ms2" by simp_all
  with Cons.IH [of ms2] show ?case
    unfolding m' by (simp add: wf_history_def shape_def [of m] shape_def [of m'])
qed simp

lemma sound_upto_shape:
  assumes "map shape ms = map shape ms'"
  shows "sound_upto n ms = sound_upto n ms'"
proof -
  have "length ms = length ms'" using assms by (rule map_eq_imp_length_eq)
  moreover have "map shape (take k ms) = map shape (take k ms')" for k
    using assms by (metis take_map)
  ultimately show ?thesis
    unfolding sound_upto_def sound_history_def by (metis paired_from_shape wf_history_shape)
qed

text \<open>Pruning again changes nothing, and the recent output is untouched.\<close>

lemma prune_block_again: "prune_block k (snd (prune_block k b)) = prune_block k b"
  by (cases b) (simp_all add: pruned_marker_def)

lemma prune_blocks_again: "prune_blocks k (snd (prune_blocks k bs)) = prune_blocks k bs"
proof (induction bs arbitrary: k)
  case (Cons b bs)
  then show ?case
    using prune_block_again [of k b] by (simp add: Let_def split_beta)
qed simp

lemma prune_messages_again: "prune_messages k (prune_messages k ms) = prune_messages k ms"
proof (induction ms arbitrary: k)
  case (Cons m ms)
  then show ?case
    using prune_blocks_again [of k "blocks m"] by (simp add: Let_def split_beta)
qed simp

fun output_bytes :: "content_block \<Rightarrow> nat" where
  "output_bytes (ToolResult _ _ out _) = byte_len out"
| "output_bytes _ = 0"

definition tool_bytes :: "chat_message list \<Rightarrow> nat" where
  "tool_bytes ms = sum_list (map (\<lambda>m. sum_list (map output_bytes (blocks m))) ms)"

lemma prune_block_recent:
  assumes "k + output_bytes b < keep_recent_tool_bytes"
  shows "snd (prune_block k b) = b" "fst (prune_block k b) \<le> k + output_bytes b"
  using assms by (cases b; simp)+

lemma prune_blocks_recent:
  "k + sum_list (map output_bytes bs) < keep_recent_tool_bytes \<Longrightarrow>
   snd (prune_blocks k bs) = bs \<and> fst (prune_blocks k bs) \<le> k + sum_list (map output_bytes bs)"
proof (induction bs arbitrary: k)
  case (Cons b bs)
  have "snd (prune_block k b) = b" "fst (prune_block k b) \<le> k + output_bytes b"
    using prune_block_recent [of k b] Cons.prems by simp_all
  with Cons.IH [of "fst (prune_block k b)"] Cons.prems show ?case
    by (simp add: split_beta Let_def)
qed simp

lemma prune_messages_recent:
  "k + tool_bytes xs < keep_recent_tool_bytes \<Longrightarrow>
   take (length xs) (prune_messages k (xs @ ys)) = xs"
proof (induction xs arbitrary: k)
  case (Cons m xs)
  let ?p = "prune_blocks k (blocks m)"
  have b: "snd ?p = blocks m" "fst ?p \<le> k + sum_list (map output_bytes (blocks m))"
    using prune_blocks_recent [of k "blocks m"] Cons.prems by (simp_all add: tool_bytes_def)
  then have "fst ?p + tool_bytes xs < keep_recent_tool_bytes"
    using Cons.prems by (simp add: tool_bytes_def)
  with Cons.IH b show ?case by (simp add: split_beta Let_def)
qed simp

section \<open>What the phases keep\<close>

lemma build_messages_keeps [keeping]:
  "keeps history (build_messages sv)" "keeps turn_number (build_messages sv)"
  "keeps turn_results (build_messages sv)" "keeps cx_input (build_messages sv)"
  unfolding build_messages_def update_turn_def by (intro keeping; simp)+

lemma run_estimate_keeps [keeping]:
  "keeps history (run_estimate sv)" "keeps turn_number (run_estimate sv)"
  "keeps turn_results (run_estimate sv)" "keeps cx_input (run_estimate sv)" "keeps cx_turn (run_estimate sv)"
  by (simp_all add: keeps_def run_estimate_def split_beta)

lemma finish_llm_call_keeps [keeping]:
  "keeps history (finish_llm_call sv secrets st r)" "keeps turn_number (finish_llm_call sv secrets st r)"
  "keeps turn_results (finish_llm_call sv secrets st r)" "keeps cx_input (finish_llm_call sv secrets st r)"
  unfolding finish_llm_call_def update_kv_cache_def update_turn_def update_state_def
  by (intro keeping; simp)+

lemma cancelled_stream_keeps [keeping]:
  "keeps history (cancelled_stream secrets st)" "keeps turn_number (cancelled_stream secrets st)"
  "keeps turn_results (cancelled_stream secrets st)" "keeps cx_input (cancelled_stream secrets st)"
  unfolding cancelled_stream_def update_turn_def by (intro keeping; simp)+

lemma llm_call_keeps [keeping]:
  "keeps history (llm_call sv)" "keeps turn_number (llm_call sv)"
  "keeps turn_results (llm_call sv)" "keeps cx_input (llm_call sv)"
  unfolding llm_call_def llm_call_request_def by (intro keeping; simp)+

lemma compress_keeps [keeping]:
  "keeps turn_number (compress sv trigger)" "keeps turn_results (compress sv trigger)"
  "keeps cx_input (compress sv trigger)"
  unfolding compress_def install_view_def update_turn_def update_state_def by (intro keeping; simp)+

lemma pre_check_keeps [keeping]:
  "keeps turn_number (pre_check_token_budget sv)" "keeps turn_results (pre_check_token_budget sv)"
  "keeps cx_input (pre_check_token_budget sv)"
  unfolding pre_check_token_budget_def by (intro keeping)+

lemma llm_call_with_recovery_keeps [keeping]:
  "keeps turn_number (llm_call_with_recovery sv)" "keeps turn_results (llm_call_with_recovery sv)"
  "keeps cx_input (llm_call_with_recovery sv)"
  unfolding llm_call_with_recovery_def by (intro keeping)+

text \<open>Once the turn has an answer of the model it keeps one.\<close>

definition has_answer :: "'e loop_context \<Rightarrow> bool" where
  "has_answer c \<longleftrightarrow> tn_assistant_message (cx_turn c) \<noteq> None"

lemma has_answer_keeps: "keeps cx_turn m \<Longrightarrow> preserves has_answer m"
  unfolding has_answer_def by (rule preserves_keeps)

lemma has_answer_update [preserving]:
  "(\<And>t. tn_assistant_message t \<noteq> None \<Longrightarrow> tn_assistant_message (f t) \<noteq> None) \<Longrightarrow> preserves has_answer (update_turn f)"
  "preserves has_answer (update_state g)" "preserves has_answer (env_call h)"
  by (auto simp: update_turn_def update_state_def has_answer_def preserves_def env_call_def triple_def smodify_def
      split: prod.split)

lemma build_messages_answer [preserving]: "preserves has_answer (build_messages sv)"
  unfolding build_messages_def by (intro preserving has_answer_keeps keeping; simp)

lemma compress_answer [preserving]: "preserves has_answer (compress sv trigger)"
  unfolding compress_def install_view_def by (intro preserving; simp)

lemma llm_call_answer [preserving]: "preserves has_answer (llm_call sv)"
proof -
  have kv: "keeps cx_turn (update_kv_cache sv r)" for r
    unfolding update_kv_cache_def by (intro keeping; simp)
  show ?thesis
    unfolding llm_call_def llm_call_request_def finish_llm_call_def cancelled_stream_def
    by (intro preserving has_answer_keeps [OF kv] has_answer_keeps [OF emit_keeps(4)]; simp)
qed

lemma recovery_answer [preserving]: "preserves has_answer (llm_call_with_recovery sv)"
  unfolding llm_call_with_recovery_def by (intro preserving)

text \<open>
  A compressor that keeps a history sound, also when its last message is left aside: what the
  pipelines of the context manager promise.
\<close>

definition sound_compressor :: "'e services \<Rightarrow> bool" where
  "sound_compressor sv \<longleftrightarrow>
     (\<forall>n ms b meta e v. n \<le> 1 \<longrightarrow> sound_upto n ms \<longrightarrow> fst (sv_compress sv ms b meta e) = Inr v \<longrightarrow>
        sound_upto n (cv_messages v))"

abbreviation sound_ctx :: "nat \<Rightarrow> 'e loop_context \<Rightarrow> bool" where
  "sound_ctx n c \<equiv> sound_upto n (history c)"

lemma sound_view:
  "sound_upto n (cv_messages v) \<Longrightarrow>
   sound_upto n (map (update_message_cache js) (prune_stale_tool_output (cv_messages v)))"
  by (subst sound_upto_shape [where ms' = "cv_messages v"]) (simp_all add: shape_cache comp_def shape_prune)

lemma install_view_sound:
  "sound_upto n (cv_messages v) \<Longrightarrow>
   triple (\<lambda>_. True) (install_view sv v) (\<lambda>_. sound_ctx n) (\<lambda>_. sound_ctx n)"
  by (simp add: triple_def install_view_def sbind_def update_state_def update_turn_def smodify_def sound_view)

lemma sound_compressorD:
  assumes "sound_compressor sv" "n \<le> 1" "sound_upto n ms" "sv_compress sv ms b meta e = (Inr v, e')"
  shows "sound_upto n (cv_messages v)"
  by (rule assms(1) [unfolded sound_compressor_def, rule_format, where ms = ms and b = b and meta = meta and e = e,
        OF assms(2,3)])
    (simp add: assms(4))

lemma compress_sound:
  assumes "sound_compressor sv" "n \<le> 1"
  shows "preserves (sound_ctx n) (compress sv trigger)"
  unfolding compress_def preserves_def
proof (rule triple_bind [where R = "\<lambda>ms c. sound_ctx n c \<and> history c = ms"])
  fix ms
  let ?P = "\<lambda>c. sound_ctx n c \<and> history c = ms" and ?S = "\<lambda>_. sound_ctx n"
  let ?V = "\<lambda>r c. sound_ctx n c \<and> (\<forall>v. r = Inr v \<longrightarrow> sound_upto n (cv_messages v))"
  have "triple (?V r) (case r of Inl e \<Rightarrow> sthrow (AgentErr (Compression e)) | Inr v \<Rightarrow> install_view sv v) ?S ?S" for r
  proof (cases r)
    case (Inr v)
    then show ?thesis
      using install_view_sound [of n v sv] by (simp add: triple_def)
  qed (simp add: triple_throw)
  moreover have "triple ?P (env_call (sv_compress sv ms (sv_policy sv) meta)) ?V ?S" for meta
    by (rule triple_env_call) (auto intro: sound_compressorD [OF assms])
  ultimately show "triple ?P (case sv_analyze sv ms (sv_policy sv) of None \<Rightarrow> sthrow Panic
     | Some analysis \<Rightarrow> if \<not> is_forced trigger \<and> \<not> needs_compression analysis then sreturn ()
         else sbind (sread (\<lambda>c. ls_compression_meta (cx_state c))) (\<lambda>meta.
           sbind (env_call (sv_compress sv ms (sv_policy sv) meta)) (\<lambda>view. case view of
             Inl e \<Rightarrow> sthrow (AgentErr (Compression e)) | Inr view \<Rightarrow> install_view sv view))) ?S ?S"
    by (intro triple_option triple_if triple_bind [OF triple_read [where Q = "\<lambda>_. ?P"]])
      (auto intro: triple_throw triple_return triple_bind)
qed (rule triple_read, simp)

lemma pre_check_sound:
  assumes "sound_compressor sv" "n \<le> 1"
  shows "preserves (sound_ctx n) (pre_check_token_budget sv)"
  unfolding pre_check_token_budget_def
  by (intro preserving preserves_history keeping compress_sound [OF assms])

lemma recovery_sound:
  assumes "sound_compressor sv" "n \<le> 1"
  shows "preserves (sound_ctx n) (llm_call_with_recovery sv)"
  unfolding llm_call_with_recovery_def
  by (intro preserving preserves_history keeping compress_sound [OF assms])

section \<open>Properties\<close>

text \<open>A message before and after pruning: only long tool outputs are replaced, by the marker.\<close>

fun pruned_block :: "content_block \<Rightarrow> content_block \<Rightarrow> bool" where
  "pruned_block (ToolResult cid name out err) b \<longleftrightarrow>
     b = ToolResult cid name out err \<or>
     min_prunable_bytes < byte_len out \<and> b = ToolResult cid name pruned_marker err"
| "pruned_block b b' \<longleftrightarrow> b' = b"

definition pruned_message :: "chat_message \<Rightarrow> chat_message \<Rightarrow> bool" where
  "pruned_message m m' \<longleftrightarrow> list_all2 pruned_block (blocks m) (blocks m') \<and> m' = m\<lparr>blocks := blocks m'\<rparr>"

lemma pruned_blocks: "list_all2 pruned_block bs (snd (prune_blocks k bs))"
proof (induction bs arbitrary: k)
  case (Cons b bs)
  have "pruned_block b (snd (prune_block k b))" by (cases b) simp_all
  with Cons show ?case by (simp add: Let_def split_beta)
qed simp

lemma pruned_messages: "list_all2 pruned_message ms (prune_messages k ms)"
  by (induction ms arbitrary: k) (simp_all add: Let_def split_beta pruned_message_def pruned_blocks)

text \<open>
  C40: pruning stale tool output only replaces outputs of more than 1000 bytes by the marker: every
  other block and field stays, so calls and results stay paired. It never touches the newest
  messages whose tool output together is below 40000 bytes, and pruning twice is pruning once.
\<close>

theorem prune_only_stale_output:
  "list_all2 pruned_message ms (prune_stale_tool_output ms) \<and>
   prune_stale_tool_output (prune_stale_tool_output ms) = prune_stale_tool_output ms \<and>
   (tool_bytes (drop k ms) < 40000 \<longrightarrow> drop k (prune_stale_tool_output ms) = drop k ms)"
proof (intro conjI impI)
  show "list_all2 pruned_message ms (prune_stale_tool_output ms)"
    unfolding prune_stale_tool_output_def
    using pruned_messages [of "rev ms" 0] by (metis list_all2_rev rev_rev_ident)
  show "prune_stale_tool_output (prune_stale_tool_output ms) = prune_stale_tool_output ms"
    by (simp add: prune_stale_tool_output_def prune_messages_again)
  assume "tool_bytes (drop k ms) < 40000"
  then have "0 + tool_bytes (rev (drop k ms)) < keep_recent_tool_bytes"
    by (simp add: tool_bytes_def keep_recent_tool_bytes_def rev_map [symmetric] sum_list_rev)
  from prune_messages_recent [OF this, of "rev (take k ms)"]
  have "take (length ms - k) (prune_messages 0 (rev ms)) = rev (drop k ms)"
    by (simp flip: rev_append)
  moreover have "length (prune_messages 0 (rev ms)) = length ms"
    using pruned_messages [of "rev ms" 0] by (simp add: list_all2_lengthD [symmetric])
  ultimately show "drop k (prune_stale_tool_output ms) = drop k ms"
    unfolding prune_stale_tool_output_def by (cases "k \<le> length ms") (simp_all add: drop_rev)
qed

definition ex_outputs :: "chat_message list" where
  "ex_outputs = [chat_tool_result (lit ''c1'') (lit ''bash'') (lit ''first'') False 0,
     chat_tool_result (lit ''c2'') (lit ''bash'') (lit ''second'') False 1]"

theorem prune_only_stale_output_witness:
  "tool_bytes (drop 1 ex_outputs) = 6 \<and>
   drop 1 (prune_stale_tool_output ex_outputs) = [chat_tool_result (lit ''c2'') (lit ''bash'') (lit ''second'') False 1]"
proof -
  have b: "tool_bytes (drop 1 ex_outputs) = 6"
    by (simp add: ex_outputs_def tool_bytes_def chat_tool_result_def lit_def utf8_len_def)
  then have "drop 1 (prune_stale_tool_output ex_outputs) = drop 1 ex_outputs"
    using prune_only_stale_output [of ex_outputs 1] by simp
  with b show ?thesis by (simp add: ex_outputs_def)
qed

end
