(* ===== verification/ToolRun.thy ===== *)
theory ToolRun
  imports Turn "HOL-Library.Code_Target_Nat"
begin

text \<open>
  Tool calls of a turn (\<open>crates/core/src/tool_exec.rs\<close>): the one retry after a single invalid call,
  the assistant message in the history, the batch of calls, and the recording of results,
  suspensions and repetition notes. The calls of a batch run one after the other, or concurrently
  when all of them only read; the loop's own state is not touched while they run.
\<close>

section \<open>Events\<close>

definition emit_tool_event ::
  "'e services \<Rightarrow> rstr \<Rightarrow> rstr \<Rightarrow> json \<Rightarrow> rstr \<Rightarrow> bool \<Rightarrow> ('e loop_context, 'x, unit) step" where
  "emit_tool_event sv cid tool_name inp output_preview is_error =
     sbind (sread (\<lambda>c. if tool_name = lit ''bash''
                       then bash_args_preview (sv_pretty sv) inp
                              (extract_secrets_from_messages (sv_from_str sv) (ls_messages (cx_state c)))
                       else sv_pretty sv inp)) (\<lambda>args_preview.
     emit [ToolResultEvent cid tool_name output_preview is_error args_preview])"

definition is_suspended :: "tool_execution_result \<Rightarrow> bool" where
  "is_suspended r \<longleftrightarrow> suspended_from_tool_result r \<noteq> None"

definition emit_tool_result_event ::
  "'e services \<Rightarrow> tool_execution_result \<Rightarrow> ('e loop_context, 'x, unit) step" where
  "emit_tool_result_event sv result =
     (if is_suspended result then sreturn ()
      else
        let output = tool_output result;
            preview = (if result_tool_name result = lit ''ask_user_question'' \<and> \<not> is_failure_result result
                       then filter_ask_user_question_output (sv_from_str sv) (sv_js sv) output else output);
            call = final_call result in
        emit_tool_event sv (fc_call_id call) (fc_tool_name call) (fc_input call) preview
          (is_failure_result result))"

section \<open>Preparation\<close>

definition assistant_chat_message :: "nat \<Rightarrow> assistant_message \<Rightarrow> chat_message" where
  "assistant_chat_message now msg =
     \<lparr>role = Assistant,
      blocks = (case am_text msg of Some t \<Rightarrow> [Text t] | None \<Rightarrow> []) @
        map (\<lambda>tc. ToolUse (tub_call_id tc) (tub_tool_name tc) (tub_input tc)) (am_tool_calls msg),
      message_id = None, timestamp_ms = now, api_usage_tokens = Some (total_tokens (am_usage msg)),
      reasoning_content = am_reasoning msg, estimated_tokens = None\<rparr>"

definition append_assistant_to_history :: "'e services \<Rightarrow> ('e loop_context, 'x, unit) step" where
  "append_assistant_to_history sv =
     sbind (sread (\<lambda>c. tn_assistant_message (cx_turn c))) (\<lambda>am.
     case am of
       None \<Rightarrow> sreturn ()
     | Some msg \<Rightarrow>
         sbind (env_call (sv_now sv)) (\<lambda>now. push_message sv (assistant_chat_message now msg)))"

definition normalize_calls ::
  "('e loop_context, 'x, tool_use_block list \<times> tool_use_block list) step" where
  "normalize_calls =
     sbind (sread (\<lambda>c. tn_assistant_message (cx_turn c))) (\<lambda>am.
     case am of
       None \<Rightarrow> sreturn ([], [])
     | Some msg \<Rightarrow>
         sbind (sread (\<lambda>c. normalized_tool_calls (ls_turn_count (cx_state c))
                             (in_visible_tools (cx_input c)) (am_tool_calls msg))) (\<lambda>(calls, valid, invalid).
         sbind (update_turn (\<lambda>t. t\<lparr>tn_assistant_message := Some (msg\<lparr>am_tool_calls := calls\<rparr>)\<rparr>)) (\<lambda>_.
         sreturn (valid, invalid))))"

fun retry_error :: "loop_abort \<Rightarrow> loop_abort" where
  "retry_error (AgentErr (PromptBuild e)) =
     AgentErr (PromptBuild (lit ''retry after invalid tool call: prompt build error: '' @ e))"
| "retry_error x = x"

definition pop_message :: "('e loop_context, 'x, unit) step" where
  "pop_message = update_state (\<lambda>s. s\<lparr>ls_messages := butlast (ls_messages s)\<rparr>)"

text \<open>The error result is in the history while the model is asked again, and no longer.\<close>

definition retry_invalid_call ::
  "'e services \<Rightarrow> tool_use_block \<Rightarrow> ('e loop_context, loop_abort, tool_use_block list \<times> tool_use_block list) step" where
  "retry_invalid_call sv invalid =
     sbind (env_call (sv_now sv)) (\<lambda>now.
     sbind (push_raw (build_invalid_tool_call_result now invalid)) (\<lambda>_.
     sbind (stry (sbind (smap_err retry_error (build_messages sv)) (\<lambda>_. llm_call_with_recovery sv))) (\<lambda>retry.
     sbind pop_message (\<lambda>_.
     sbind (sresult retry) (\<lambda>_.
     normalize_calls)))))"

definition process_llm_tool_calls ::
  "'e services \<Rightarrow> ('e loop_context, loop_abort, tool_use_block list) step" where
  "process_llm_tool_calls sv =
     sbind normalize_calls (\<lambda>(valid_calls, invalid_calls).
     sbind (if valid_calls = [] \<and> length invalid_calls = 1
            then retry_invalid_call sv (hd invalid_calls)
            else sreturn (valid_calls, invalid_calls)) (\<lambda>(valid_calls, invalid_calls).
     let valid_calls = sort_joins_last valid_calls in
     sbind (update_turn (\<lambda>t. t\<lparr>tn_assistant_message :=
              map_option (\<lambda>msg. msg\<lparr>am_tool_calls := valid_calls\<rparr>) (tn_assistant_message t)\<rparr>)) (\<lambda>_.
     sbind (append_assistant_to_history sv) (\<lambda>_.
     sbind (siter (\<lambda>call. emit_tool_event sv (tub_call_id call) (tub_tool_name call) (tub_input call)
              (invalid_tool_call_message call) True) invalid_calls) (\<lambda>_.
     sreturn valid_calls)))))"

section \<open>Execution\<close>

definition execution_result :: "final_tool_call \<Rightarrow> rstr + tool_execution_result \<Rightarrow> tool_execution_result" where
  "execution_result call r =
     (case r of Inr result \<Rightarrow> result | Inl e \<Rightarrow> build_framework_failed_tool_result call e)"

definition execute_tool_call ::
  "'e services \<Rightarrow> tool_execution_result + final_tool_call \<Rightarrow> ('e loop_context, 'x, tool_execution_result) step" where
  "execute_tool_call sv call =
     (case call of
        Inl result \<Rightarrow> sreturn result
      | Inr call \<Rightarrow> sbind (env_call (sv_execute sv call)) (\<lambda>r. sreturn (execution_result call r)))"

fun execute_serially ::
  "'e services \<Rightarrow> (tool_execution_result + final_tool_call) list \<Rightarrow>
   ('e loop_context, 'x, tool_execution_result list) step" where
  "execute_serially sv [] = sreturn []"
| "execute_serially sv (call # calls) =
     sbind (execute_tool_call sv call) (\<lambda>result.
     sbind (execute_serially sv calls) (\<lambda>results. sreturn (result # results)))"

text \<open>The results of a concurrent batch: a build error in its place, an execution for every call.\<close>

fun merge_results ::
  "(tool_execution_result + final_tool_call) list \<Rightarrow> (rstr + tool_execution_result) list \<Rightarrow>
   tool_execution_result list" where
  "merge_results [] rs = []"
| "merge_results (Inl result # calls) rs = result # merge_results calls rs"
| "merge_results (Inr call # calls) (r # rs) = execution_result call r # merge_results calls rs"
| "merge_results (Inr call # calls) [] = []"

definition execute_tool_batch ::
  "'e services \<Rightarrow> (tool_execution_result + final_tool_call) list \<Rightarrow> bool \<Rightarrow>
   ('e loop_context, 'x, tool_execution_result list) step" where
  "execute_tool_batch sv calls serialize =
     (if serialize then execute_serially sv calls
      else sbind (env_call (sv_execute_all sv
                   (List.map_filter (\<lambda>call. case call of Inr c \<Rightarrow> Some c | Inl _ \<Rightarrow> None) calls))) (\<lambda>rs.
           sreturn (merge_results calls rs)))"

text \<open>Whether the calls of a batch run one after the other.\<close>

definition serialize_batch :: "tool_filter \<Rightarrow> (tool_execution_result + final_tool_call) list \<Rightarrow> bool" where
  "serialize_batch f built \<longleftrightarrow>
     \<not> list_all (\<lambda>call. case call of
           Inl _ \<Rightarrow> True
         | Inr call \<Rightarrow> (case get_spec_for_name f (fc_tool_name call) of
                         Some spec \<Rightarrow> is_parallel_safe (ts_effect_profile spec) | None \<Rightarrow> False)) built"

section \<open>Recording\<close>

definition fits_tool_output :: "rstr \<Rightarrow> bool" where
  "fits_tool_output output \<longleftrightarrow>
     byte_len output \<le> max_tool_output_bytes \<and> length (str_lines output) \<le> max_tool_output_lines"

definition tool_result_message ::
  "'e services \<Rightarrow> tool_execution_result \<Rightarrow> ('e loop_context, loop_abort, chat_message) step" where
  "tool_result_message sv result =
     (let call = final_call result; output = tool_output result in
      sbind (if fits_tool_output output then sreturn None
             else env_call (sv_save_output sv (fc_tool_name call) (fc_call_id call) output)) (\<lambda>saved_path.
      sbind (env_call (sv_now sv)) (\<lambda>now.
      case build_tool_result_message saved_path now result of
        Some m \<Rightarrow> sreturn m
      | None \<Rightarrow> sthrow Panic)))"

record recorded =
  rc_streak_note :: "rstr option"
  rc_suspended_calls :: "suspended_tool_call list"
  rc_stop_after_batch :: bool

definition record_tool_result ::
  "'e services \<Rightarrow> tool_execution_result \<Rightarrow> recorded \<Rightarrow> ('e loop_context, loop_abort, recorded) step" where
  "record_tool_result sv result acc =
     sbind (update_state (\<lambda>s. s\<lparr>ls_tool_executed := True\<rparr>)) (\<lambda>_.
     sbind (sread (\<lambda>c. should_stop_after_tool_result (in_stop_rules (cx_input c)) result)) (\<lambda>stop.
     let acc = acc\<lparr>rc_stop_after_batch := rc_stop_after_batch acc \<or> stop\<rparr> in
     sbind (emit_tool_result_event sv result) (\<lambda>_.
     case suspended_from_tool_result result of
       Some suspended_call \<Rightarrow>
         sbind (update_turn (\<lambda>t. t\<lparr>tn_tool_results := tn_tool_results t @ [result]\<rparr>)) (\<lambda>_.
         sreturn (acc\<lparr>rc_suspended_calls := rc_suspended_calls acc @ [suspended_call]\<rparr>))
     | None \<Rightarrow>
         sbind (tool_result_message sv result) (\<lambda>message.
         sbind (push_message sv message) (\<lambda>_.
         sbind (sread (\<lambda>c. update_tool_streak (sv_hash3 sv) (sv_js sv) (cx_state c) result)) (\<lambda>(note, s').
         sbind (update_state (\<lambda>_. s')) (\<lambda>_.
         sbind (update_turn (\<lambda>t. t\<lparr>tn_tool_results := tn_tool_results t @ [result]\<rparr>)) (\<lambda>_.
         sreturn (acc\<lparr>rc_streak_note := (if note = None then rc_streak_note acc else note)\<rparr>)))))))))"

fun record_results ::
  "'e services \<Rightarrow> tool_execution_result list \<Rightarrow> recorded \<Rightarrow> ('e loop_context, loop_abort, recorded) step" where
  "record_results sv [] acc = sreturn acc"
| "record_results sv (r # rs) acc = sbind (record_tool_result sv r acc) (record_results sv rs)"

definition record_tool_results ::
  "'e services \<Rightarrow> tool_execution_result list \<Rightarrow> ('e loop_context, loop_abort, suspended_tool_call list) step" where
  "record_tool_results sv results =
     sbind (record_results sv results
              \<lparr>rc_streak_note = None, rc_suspended_calls = [], rc_stop_after_batch = False\<rparr>) (\<lambda>acc.
     sbind (if rc_stop_after_batch acc \<and> rc_suspended_calls acc = []
            then update_turn (\<lambda>t. t\<lparr>tn_force_return_complete := True\<rparr>) else sreturn ()) (\<lambda>_.
     sbind (if rc_suspended_calls acc = []
            then (case rc_streak_note acc of Some note \<Rightarrow> push_message sv (chat_user note) | None \<Rightarrow> sreturn ())
            else sreturn ()) (\<lambda>_.
     sreturn (rc_suspended_calls acc))))"

section \<open>The tool phase\<close>

definition run_batch ::
  "'e services \<Rightarrow> agent_loop_input \<Rightarrow> ('e loop_context, loop_abort, suspended_tool_call list) step" where
  "run_batch sv input =
     sbind (process_llm_tool_calls sv) (\<lambda>calls.
     let f = tool_filter_from_specs (sv_get_executor sv) (in_visible_tools input);
         built = map (build_tool_call f) calls in
     sbind (execute_tool_batch sv built (serialize_batch f built)) (record_tool_results sv))"

definition run_tools :: "'e services \<Rightarrow> ('e loop_context, loop_abort, suspended_tool_call list) step" where
  "run_tools sv =
     sbind (sread (\<lambda>c. (tn_assistant_message (cx_turn c), cx_input c))) (\<lambda>(am, input).
     case am of
       None \<Rightarrow> sreturn []
     | Some message \<Rightarrow>
         if am_tool_calls message = [] \<or> \<not> ff_tool_execution (rs_feature_flags (sv_snapshot sv)) \<or>
            \<not> in_runtime_view input \<or> in_agent_id input = None
         then sbind (append_assistant_to_history sv) (\<lambda>_. sreturn [])
         else run_batch sv input)"

section \<open>What the tool phase keeps\<close>

lemma push_history:
  "triple (\<lambda>c. history c = H \<and> P c) (push_raw m) (\<lambda>_ c. history c = H @ [m]) E"
  by (simp add: triple_def push_raw_def update_state_def smodify_def)

lemma emit_tool_event_keeps [keeping]:
  "keeps history (emit_tool_event sv cid name inp pv err)" "keeps turn_number (emit_tool_event sv cid name inp pv err)"
  "keeps turn_results (emit_tool_event sv cid name inp pv err)" "keeps cx_turn (emit_tool_event sv cid name inp pv err)"
  "keeps cx_input (emit_tool_event sv cid name inp pv err)"
  unfolding emit_tool_event_def by (intro keeping)+

lemma emit_tool_result_event_keeps [keeping]:
  "keeps history (emit_tool_result_event sv r)" "keeps turn_number (emit_tool_result_event sv r)"
  "keeps turn_results (emit_tool_result_event sv r)" "keeps cx_turn (emit_tool_result_event sv r)"
  "keeps cx_input (emit_tool_result_event sv r)"
  unfolding emit_tool_result_event_def by (intro keeping)+

lemma push_message_keeps [keeping]:
  "keeps turn_number (push_message sv m)" "keeps turn_results (push_message sv m)" "keeps cx_turn (push_message sv m)"
  "keeps cx_input (push_message sv m)"
  unfolding push_message_def push_raw_def update_state_def by (intro keeping; simp)+

lemma append_assistant_keeps [keeping]:
  "keeps turn_number (append_assistant_to_history sv)" "keeps turn_results (append_assistant_to_history sv)"
  "keeps cx_turn (append_assistant_to_history sv)" "keeps cx_input (append_assistant_to_history sv)"
  unfolding append_assistant_to_history_def by (intro keeping; simp)+

lemma normalize_calls_keeps [keeping]:
  "keeps history normalize_calls" "keeps turn_number normalize_calls" "keeps turn_results normalize_calls"
  "keeps cx_input normalize_calls"
  unfolding normalize_calls_def update_turn_def by (intro keeping; simp)+

lemma normalize_calls_answer [preserving]: "preserves has_answer normalize_calls"
  unfolding normalize_calls_def by (intro preserving; simp)

lemma pop_message_keeps [keeping]:
  "keeps turn_number pop_message" "keeps turn_results pop_message" "keeps cx_turn pop_message" "keeps cx_input pop_message"
  unfolding pop_message_def update_state_def by (intro keeping; simp)+

lemma push_raw_keeps [keeping]:
  "keeps turn_number (push_raw m)" "keeps turn_results (push_raw m)" "keeps cx_turn (push_raw m)" "keeps cx_input (push_raw m)"
  unfolding push_raw_def update_state_def by (intro keeping; simp)+

lemma retry_keeps [keeping]:
  "keeps turn_number (retry_invalid_call sv call)" "keeps turn_results (retry_invalid_call sv call)"
  "keeps cx_input (retry_invalid_call sv call)"
  unfolding retry_invalid_call_def by (intro keeping; simp)+

lemma retry_answer [preserving]: "preserves has_answer (retry_invalid_call sv call)"
  unfolding retry_invalid_call_def
  by (intro preserving has_answer_keeps [OF push_raw_keeps(3)] has_answer_keeps [OF pop_message_keeps(3)])

lemma process_keeps [keeping]:
  "keeps turn_number (process_llm_tool_calls sv)" "keeps turn_results (process_llm_tool_calls sv)"
  "keeps cx_input (process_llm_tool_calls sv)"
  unfolding process_llm_tool_calls_def update_turn_def by (intro keeping; simp)+

lemma execute_serially_keeps [keeping]:
  assumes "\<And>c e. f (c\<lparr>cx_env := e\<rparr>) = f c"
  shows "keeps f (execute_serially sv calls)"
  by (induction calls) (auto simp: execute_tool_call_def intro!: keeping assms split: sum.split)

lemma execute_tool_batch_keeps [keeping]:
  assumes "\<And>c e. f (c\<lparr>cx_env := e\<rparr>) = f c"
  shows "keeps f (execute_tool_batch sv calls serialize)"
  unfolding execute_tool_batch_def by (intro keeping assms)

lemma record_result_keeps [keeping]:
  "keeps turn_number (record_tool_result sv r acc)" "keeps cx_input (record_tool_result sv r acc)"
  unfolding record_tool_result_def tool_result_message_def update_state_def update_turn_def Let_def
  by (intro keeping; simp)+

lemma record_results_keeps [keeping]:
  "keeps turn_number (record_results sv rs acc)" "keeps cx_input (record_results sv rs acc)"
  by (induction rs arbitrary: acc) (auto intro: keeping)

lemma record_tool_results_keeps [keeping]:
  "keeps turn_number (record_tool_results sv rs)" "keeps cx_input (record_tool_results sv rs)"
  unfolding record_tool_results_def update_turn_def by (intro keeping; simp)+

lemma run_tools_keeps [keeping]: "keeps turn_number (run_tools sv)" "keeps cx_input (run_tools sv)"
  unfolding run_tools_def run_batch_def by (intro keeping; simp)+

section \<open>Results of a batch\<close>

text \<open>
  What the loop relies on of the tools: a result is about the call it was executed for, and a
  concurrent batch gives one outcome per call.
\<close>

definition outcome_of :: "final_tool_call \<Rightarrow> rstr + tool_execution_result \<Rightarrow> bool" where
  "outcome_of call x \<longleftrightarrow> (case x of Inr r \<Rightarrow> result_call_id r = fc_call_id call | Inl _ \<Rightarrow> True)"

definition honest_executor :: "'e services \<Rightarrow> bool" where
  "honest_executor sv \<longleftrightarrow>
     (\<forall>call e. outcome_of call (fst (sv_execute sv call e))) \<and>
     (\<forall>calls e. list_all2 outcome_of calls (fst (sv_execute_all sv calls e)))"

definition prepared_id :: "tool_execution_result + final_tool_call \<Rightarrow> rstr" where
  "prepared_id p = (case p of Inl r \<Rightarrow> result_call_id r | Inr call \<Rightarrow> fc_call_id call)"

lemma execution_result_id: "outcome_of call x \<Longrightarrow> result_call_id (execution_result call x) = fc_call_id call"
  by (auto simp: outcome_of_def execution_result_def build_framework_failed_tool_result_def result_call_id_def
      split: sum.splits)

lemma build_tool_call_id [simp]: "prepared_id (build_tool_call f raw) = tub_call_id raw"
  by (simp add: build_tool_call_def build_with_filter_ref_def prepared_id_def
      build_framework_failed_tool_result_def result_call_id_def split: option.split)

lemma execute_tool_call_id:
  assumes "honest_executor sv"
  shows "triple (\<lambda>_. True) (execute_tool_call sv p) (\<lambda>r _. result_call_id r = prepared_id p) E"
proof (cases p)
  case (Inl r)
  then show ?thesis by (simp add: execute_tool_call_def prepared_id_def triple_return)
next
  case (Inr call)
  have "outcome_of call x" if "sv_execute sv call e = (x, e')" for x e e'
    using assms that unfolding honest_executor_def by (metis fst_conv)
  then show ?thesis
    unfolding execute_tool_call_def Inr sum.case prepared_id_def
    by (intro triple_bind [OF triple_env_call [where Q = "\<lambda>x _. outcome_of call x"]] triple_return)
      (auto simp: execution_result_id)
qed

lemma execute_serially_ids:
  assumes "honest_executor sv"
  shows "triple (\<lambda>_. True) (execute_serially sv ps) (\<lambda>rs _. map result_call_id rs = map prepared_id ps) E"
proof (induction ps)
  case Nil
  then show ?case by (simp add: triple_return)
next
  case (Cons p ps)
  have rest: "triple (\<lambda>_. result_call_id r = prepared_id p) (execute_serially sv ps)
      (\<lambda>rs _. map result_call_id (r # rs) = map prepared_id (p # ps)) E" for r
    using Cons.IH by (auto simp: triple_def split: prod.splits sum.splits)
  show ?case
    unfolding execute_serially.simps
    by (intro triple_bind [OF execute_tool_call_id [OF assms]] triple_bind [OF rest] triple_return) simp
qed

lemma merge_results_ids:
  "list_all2 outcome_of (List.map_filter (\<lambda>p. case p of Inr c \<Rightarrow> Some c | Inl _ \<Rightarrow> None) ps) xs \<Longrightarrow>
   map result_call_id (merge_results ps xs) = map prepared_id ps"
proof (induction ps xs rule: merge_results.induct)
  case (3 call calls r rs)
  then show ?case by (simp add: List.map_filter_simps prepared_id_def execution_result_id)
qed (simp_all add: List.map_filter_simps prepared_id_def)

lemma execute_tool_batch_ids:
  assumes "honest_executor sv"
  shows "triple (\<lambda>_. True) (execute_tool_batch sv ps serialize)
    (\<lambda>rs _. map result_call_id rs = map prepared_id ps) E"
proof (cases serialize)
  case True
  then show ?thesis by (simp add: execute_tool_batch_def execute_serially_ids [OF assms])
next
  case False
  let ?calls = "List.map_filter (\<lambda>p. case p of Inr c \<Rightarrow> Some c | Inl _ \<Rightarrow> None) ps"
  have "list_all2 outcome_of ?calls xs" if "sv_execute_all sv ?calls e = (xs, e')" for xs e e'
    using assms that unfolding honest_executor_def by (metis fst_conv)
  with False show ?thesis
    unfolding execute_tool_batch_def
    by (auto intro!: triple_bind [OF triple_env_call [where Q = "\<lambda>xs _. list_all2 outcome_of ?calls xs"]]
        triple_return merge_results_ids)
qed

section \<open>Recorded messages\<close>

text \<open>The messages that answer a batch: one per result that is not a suspension, in the same order.\<close>

definition answers :: "tool_execution_result list \<Rightarrow> chat_message list \<Rightarrow> bool" where
  "answers rs ms \<longleftrightarrow>
     map tool_result_ids ms = map (\<lambda>r. [result_call_id r]) (filter (\<lambda>r. \<not> is_suspended r) rs) \<and>
     (\<forall>m \<in> set ms. role m = Tool \<and> tool_use_ids m = [])"

lemma answers_append: "answers rs ms \<Longrightarrow> answers rs' ms' \<Longrightarrow> answers (rs @ rs') (ms @ ms')"
  by (auto simp: answers_def)

lemma answers_Nil: "answers [] []"
  by (simp add: answers_def)

lemma built_message:
  assumes "build_tool_result_message path now r = Some m"
  shows "role m = Tool" "tool_use_ids m = []" "tool_result_ids m = [result_call_id r]"
  using assms
  by (auto simp: build_tool_result_message_def build_tool_result_message_with_appendix_def chat_tool_result_def
      tool_use_ids_def tool_result_ids_def List.map_filter_simps result_call_id_def Let_def)

lemma tool_result_message_spec:
  "triple (\<lambda>c. history c = H \<and> turn_results c = R) (tool_result_message sv r)
     (\<lambda>m c. (history c = H \<and> turn_results c = R) \<and>
        role m = Tool \<and> tool_use_ids m = [] \<and> tool_result_ids m = [result_call_id r])
     (\<lambda>x _. x = Panic)"
proof -
  let ?P = "\<lambda>c :: 'a loop_context. history c = H \<and> turn_results c = R"
  have env: "triple ?P (env_call f) (\<lambda>_. ?P) (\<lambda>x _. x = Panic)" for f :: "'a \<Rightarrow> 'b \<times> 'a"
    by (rule triple_env_call) simp
  have save: "triple ?P (if b then sreturn None else env_call f) (\<lambda>_. ?P) (\<lambda>x _. x = Panic)"
    for b and f :: "'a \<Rightarrow> 'c option \<times> 'a"
    by (intro triple_if triple_return triple_env_call) simp_all
  show ?thesis
    unfolding tool_result_message_def Let_def
    by (intro triple_bind [OF save] triple_bind [OF env] triple_option triple_throw triple_return)
      (simp_all add: built_message)
qed

lemma cached_message:
  "role (update_message_cache js m) = role m" "tool_use_ids (update_message_cache js m) = tool_use_ids m"
  "tool_result_ids (update_message_cache js m) = tool_result_ids m"
  using shape_cache [of js m] by (simp_all add: shape_def)

lemma record_turn_results:
  "triple (\<lambda>c. history c = H \<and> turn_results c = R) (update_turn (\<lambda>t. t\<lparr>tn_tool_results := tn_tool_results t @ [r]\<rparr>))
     (\<lambda>_ c. history c = H \<and> turn_results c = R @ [r]) E"
  by (simp add: triple_def update_turn_def smodify_def)

lemma record_tool_result_spec:
  "triple (\<lambda>c. history c = H \<and> turn_results c = R) (record_tool_result sv r acc)
     (\<lambda>acc' c. (\<exists>ms. history c = H @ ms \<and> answers [r] ms) \<and> turn_results c = R @ [r] \<and>
        rc_suspended_calls acc' = rc_suspended_calls acc @ List.map_filter suspended_from_tool_result [r])
     (\<lambda>x _. x = Panic)" (is "triple ?P _ ?Q ?E")
proof -
  have upd: "triple ?P (update_state (\<lambda>s. s\<lparr>ls_tool_executed := True\<rparr>)) (\<lambda>_. ?P) ?E"
    by (simp add: triple_def update_state_def smodify_def)
  have emit: "triple ?P (emit_tool_result_event sv r) (\<lambda>_. ?P) ?E"
    by (simp add: triple_def emit_tool_result_event_def emit_tool_event_def emit_def sbind_def sread_def
        smodify_def sreturn_def Let_def)
  note start = triple_bind [OF upd] triple_bind [OF triple_read [where Q = "\<lambda>_. ?P"]] triple_bind [OF emit]
  show ?thesis
  proof (cases "suspended_from_tool_result r")
    case (Some sc)
    then have "answers [r] []" by (simp add: answers_def is_suspended_def)
    then show ?thesis
      unfolding record_tool_result_def Let_def Some option.case
      by (intro start triple_bind [OF record_turn_results] triple_return)
        (auto simp: Some List.map_filter_simps)
  next
    case None
    let ?M = "\<lambda>c. \<exists>m. (history c = H @ [m] \<and> turn_results c = R) \<and> answers [r] [m]"
    have push: "triple (\<lambda>c. (history c = H \<and> turn_results c = R) \<and>
        role m = Tool \<and> tool_use_ids m = [] \<and> tool_result_ids m = [result_call_id r])
        (push_message sv m) (\<lambda>_. ?M) ?E" for m
      by (simp add: triple_def push_message_def push_raw_def update_state_def smodify_def answers_def
          is_suspended_def cached_message None)
    have streak: "triple ?M (sread (\<lambda>c. update_tool_streak (sv_hash3 sv) (sv_js sv) (cx_state c) r))
        (\<lambda>(note, s') c. ?M c \<and> ls_messages s' = history c) ?E"
      by (rule triple_read) (auto simp: split_beta)
    have rest: "triple (case p of (n, s') \<Rightarrow> \<lambda>c. ?M c \<and> ls_messages s' = history c)
        (case p of (n, s') \<Rightarrow> sbind (update_state (\<lambda>_. s')) (\<lambda>_.
           sbind (update_turn (\<lambda>t. t\<lparr>tn_tool_results := tn_tool_results t @ [r]\<rparr>)) (\<lambda>_. sreturn (g n)))) ?Q ?E"
      if "\<And>n. rc_suspended_calls (g n) = rc_suspended_calls acc" for p :: "rstr option \<times> loop_state" and g
      using that None
      by (cases p) (auto simp: triple_def sbind_def update_state_def update_turn_def smodify_def sreturn_def
          List.map_filter_simps)
    show ?thesis
      unfolding record_tool_result_def Let_def None option.case
      by (rule start(1), rule start(2), simp, rule start(3), rule triple_bind [OF tool_result_message_spec],
          rule triple_bind [OF push], rule triple_bind [OF streak], rule rest, simp)
  qed
qed

lemma record_results_spec:
  "triple (\<lambda>c. history c = H \<and> turn_results c = R) (record_results sv rs acc)
     (\<lambda>acc' c. (\<exists>ms. history c = H @ ms \<and> answers rs ms) \<and> turn_results c = R @ rs \<and>
        rc_suspended_calls acc' = rc_suspended_calls acc @ List.map_filter suspended_from_tool_result rs)
     (\<lambda>x _. x = Panic)"
proof (induction rs arbitrary: H R acc)
  case Nil
  then show ?case by (auto simp: answers_Nil List.map_filter_simps intro: triple_return)
next
  case (Cons r rs)
  have "triple (\<lambda>c. (\<exists>ms. history c = H @ ms \<and> answers [r] ms) \<and> turn_results c = R @ [r] \<and>
        rc_suspended_calls acc' = rc_suspended_calls acc @ List.map_filter suspended_from_tool_result [r])
      (record_results sv rs acc')
      (\<lambda>acc2 c. (\<exists>ms. history c = H @ ms \<and> answers (r # rs) ms) \<and> turn_results c = R @ r # rs \<and>
        rc_suspended_calls acc2 = rc_suspended_calls acc @ List.map_filter suspended_from_tool_result (r # rs))
      (\<lambda>x _. x = Panic)" for acc'
    unfolding triple_def
  proof (intro allI impI)
    fix c :: "'a loop_context"
    assume c: "(\<exists>ms. history c = H @ ms \<and> answers [r] ms) \<and> turn_results c = R @ [r] \<and>
        rc_suspended_calls acc' = rc_suspended_calls acc @ List.map_filter suspended_from_tool_result [r]"
    then obtain ms where ms: "history c = H @ ms" "answers [r] ms" by blast
    obtain x c' where x: "record_results sv rs acc' c = (x, c')" by (rule prod.exhaust)
    note ih = Cons.IH [of "H @ ms" "R @ [r]" acc']
    show "case record_results sv rs acc' c of
        (Inr acc2, c') \<Rightarrow> (\<exists>ms. history c' = H @ ms \<and> answers (r # rs) ms) \<and> turn_results c' = R @ r # rs \<and>
          rc_suspended_calls acc2 = rc_suspended_calls acc @ List.map_filter suspended_from_tool_result (r # rs)
      | (Inl x, _) \<Rightarrow> x = Panic"
    proof (cases x)
      case (Inl y)
      with tripleD(2) [OF ih, of c y c'] x ms c show ?thesis by simp
    next
      case (Inr acc2)
      with tripleD(1) [OF ih, of c acc2 c'] x ms c
      obtain ms' where "history c' = (H @ ms) @ ms'" "answers rs ms'" "turn_results c' = (R @ [r]) @ rs"
        "rc_suspended_calls acc2 = rc_suspended_calls acc' @ List.map_filter suspended_from_tool_result rs"
        by auto
      with answers_append [OF ms(2)] Inr x c show ?thesis
        by (auto simp: List.map_filter_def)
    qed
  qed
  then show ?case
    unfolding record_results.simps by (rule triple_bind [OF record_tool_result_spec])
qed

text \<open>The repetition note after a batch: at most one user message.\<close>

definition batch_note :: "chat_message list \<Rightarrow> bool" where
  "batch_note ns \<longleftrightarrow> length ns \<le> 1 \<and> (\<forall>m \<in> set ns. role m = User \<and> tool_use_ids m = [] \<and> tool_result_ids m = [])"

definition batch_recorded ::
  "chat_message list \<Rightarrow> tool_execution_result list \<Rightarrow> suspended_tool_call list \<Rightarrow> chat_message list \<Rightarrow> bool" where
  "batch_recorded H rs susp ms \<longleftrightarrow>
     (\<exists>as ns. ms = H @ as @ ns \<and> answers rs as \<and> batch_note ns \<and> (susp \<noteq> [] \<longrightarrow> ns = [])) \<and>
     susp = List.map_filter suspended_from_tool_result rs"

lemma batch_recordedI:
  "answers rs as \<Longrightarrow> susp = List.map_filter suspended_from_tool_result rs \<Longrightarrow> batch_recorded H rs susp (H @ as)"
  unfolding batch_recorded_def by (intro conjI exI [of _ as] exI [of _ "[]"]) (simp_all add: batch_note_def)

lemma user_message: "role (chat_user t) = User" "tool_use_ids (chat_user t) = []" "tool_result_ids (chat_user t) = []"
  by (simp_all add: chat_user_def) (simp add: chat_text_def)

lemma batch_recorded_note:
  "answers rs as \<Longrightarrow> List.map_filter suspended_from_tool_result rs = [] \<Longrightarrow>
   batch_recorded H rs [] (H @ as @ [update_message_cache js (chat_user t)])"
  unfolding batch_recorded_def
  by (rule conjI, rule exI [of _ as], rule exI [of _ "[update_message_cache js (chat_user t)]"])
    (simp_all add: batch_note_def cached_message user_message)

lemma record_tool_results_spec:
  "triple (\<lambda>c. history c = H \<and> turn_results c = R) (record_tool_results sv rs)
     (\<lambda>susp c. batch_recorded H rs susp (history c) \<and> turn_results c = R @ rs)
     (\<lambda>x _. x = Panic)" (is "triple ?P _ ?Q ?E")
proof -
  let ?acc0 = "\<lparr>rc_streak_note = None, rc_suspended_calls = [], rc_stop_after_batch = False\<rparr>"
  let ?A = "\<lambda>acc c. (\<exists>ms. history c = H @ ms \<and> answers rs ms) \<and> turn_results c = R @ rs \<and>
        rc_suspended_calls acc = rc_suspended_calls ?acc0 @ List.map_filter suspended_from_tool_result rs"
  have force: "triple (?A acc) (if b then update_turn (\<lambda>t. t\<lparr>tn_force_return_complete := True\<rparr>) else sreturn ())
      (\<lambda>_. ?A acc) ?E" for acc b
    by (simp add: triple_def update_turn_def smodify_def sreturn_def)
  have push: "triple (?A acc) (if rc_suspended_calls acc = []
        then (case rc_streak_note acc of Some n \<Rightarrow> push_message sv (chat_user n) | None \<Rightarrow> sreturn ()) else sreturn ())
      (\<lambda>_ c. ?Q (rc_suspended_calls acc) c) ?E" for acc
  proof (cases "rc_suspended_calls acc = [] \<and> rc_streak_note acc \<noteq> None")
    case True
    then show ?thesis
      by (auto simp: triple_def push_message_def push_raw_def update_state_def smodify_def batch_recorded_note)
  next
    case False
    then show ?thesis
      by (auto simp: triple_def sreturn_def batch_recordedI split: option.split)
  qed
  show ?thesis
    unfolding record_tool_results_def
    by (rule triple_bind [OF record_results_spec], rule triple_bind [OF force], rule triple_bind [OF push],
        rule triple_return, simp)
qed

section \<open>Preparation\<close>

lemma sound_upto_0: "sound_upto 0 ms \<longleftrightarrow> sound_history ms"
  by (simp add: sound_upto_def)

lemma retry_sound:
  assumes "B \<Longrightarrow> sound_compressor sv"
  shows "preserves (\<lambda>c. B \<longrightarrow> sound_ctx 0 c) (retry_invalid_call sv call)"
proof (cases B)
  case False
  then show ?thesis by (simp add: preserves_def triple_def split: prod.split sum.split)
next
  case True
  let ?S = "\<lambda>_. sound_ctx 0" and ?T = "\<lambda>_. sound_ctx 1"
  have env: "triple (sound_ctx 0) (env_call (sv_now sv)) ?S ?S"
    by (rule triple_env_call) simp
  have push: "triple (sound_ctx 0) (push_raw m) ?T ?S" for m
    by (simp add: triple_def push_raw_def update_state_def smodify_def sound_upto_def)
  have pop: "triple (sound_ctx 1) pop_message ?S ?S"
    by (simp add: triple_def pop_message_def update_state_def smodify_def sound_upto_def butlast_conv_take)
  have body: "preserves (sound_ctx 1) (sbind (smap_err retry_error (build_messages sv)) (\<lambda>_. llm_call_with_recovery sv))"
    using assms [OF True]
    by (intro preserving preserves_history keeping recovery_sound) simp_all
  have again: "triple (sound_ctx 1) (stry (sbind (smap_err retry_error (build_messages sv)) (\<lambda>_. llm_call_with_recovery sv)))
      ?T ?S"
    using body unfolding preserves_def by (rule triple_try)
  have norm: "triple (sound_ctx 0) normalize_calls ?S ?S"
    using preserves_history [OF normalize_calls_keeps(1), of "sound_upto 0"] unfolding preserves_def by simp
  have "triple (sound_ctx 0) (retry_invalid_call sv call) ?S ?S"
    unfolding retry_invalid_call_def
    by (rule triple_bind [OF env], rule triple_bind [OF push], rule triple_bind [OF again],
        rule triple_bind [OF pop], rule triple_bind [OF triple_result [where Q = ?S]], simp, simp, rule norm)
  with True show ?thesis by (simp add: preserves_def)
qed

lemma append_answer:
  "triple (\<lambda>c. (B \<longrightarrow> sound_ctx 0 c) \<and> has_answer c)
     (sbind (update_turn (\<lambda>t. t\<lparr>tn_assistant_message :=
              map_option (\<lambda>msg. msg\<lparr>am_tool_calls := calls\<rparr>) (tn_assistant_message t)\<rparr>)) (\<lambda>_.
      append_assistant_to_history sv))
     (\<lambda>_ c. \<exists>pre am. history c = pre @ [am] \<and> (B \<longrightarrow> sound_history pre) \<and>
        tool_use_ids am = map tub_call_id calls \<and> tool_result_ids am = [] \<and> role am = Assistant) E"
proof -
  have ids: "tool_use_ids (assistant_chat_message now m) = map tub_call_id (am_tool_calls m)"
    "tool_result_ids (assistant_chat_message now m) = []" "role (assistant_chat_message now m) = Assistant" for now m
    by (auto simp: assistant_chat_message_def tool_use_ids_def tool_result_ids_def List.map_filter_def comp_def
        split: option.split)
  show ?thesis
    unfolding triple_def
  proof (intro allI impI)
    fix c :: "'a loop_context" assume c: "(B \<longrightarrow> sound_ctx 0 c) \<and> has_answer c"
    then obtain m where m: "tn_assistant_message (cx_turn c) = Some m" by (auto simp: has_answer_def)
    obtain now e where "sv_now sv (cx_env c) = (now, e)" by (rule prod.exhaust)
    with m c show "case sbind (update_turn (\<lambda>t. t\<lparr>tn_assistant_message :=
          map_option (\<lambda>msg. msg\<lparr>am_tool_calls := calls\<rparr>) (tn_assistant_message t)\<rparr>))
          (\<lambda>_. append_assistant_to_history sv) c of
        (Inr a, c) \<Rightarrow> \<exists>pre am. history c = pre @ [am] \<and> (B \<longrightarrow> sound_history pre) \<and>
          tool_use_ids am = map tub_call_id calls \<and> tool_result_ids am = [] \<and> role am = Assistant
      | (Inl x, c) \<Rightarrow> E x c"
      by (simp add: sbind_def update_turn_def smodify_def append_assistant_to_history_def sread_def
          env_call_def push_message_def push_raw_def update_state_def cached_message ids sound_upto_0)
  qed
qed

text \<open>The assistant message that makes the calls, after a history that is sound.\<close>

definition calls_appended :: "bool \<Rightarrow> rstr list \<Rightarrow> chat_message list \<Rightarrow> chat_message list \<Rightarrow> chat_message \<Rightarrow> bool" where
  "calls_appended B ids ms pre am \<longleftrightarrow> ms = pre @ [am] \<and> (B \<longrightarrow> sound_history pre) \<and>
     tool_use_ids am = ids \<and> tool_result_ids am = [] \<and> role am = Assistant"

lemma process_spec:
  assumes "B \<Longrightarrow> sound_compressor sv"
  shows "triple (\<lambda>c. (B \<longrightarrow> sound_ctx 0 c) \<and> has_answer c) (process_llm_tool_calls sv)
    (\<lambda>calls c. \<exists>pre am. calls_appended B (map tub_call_id calls) (history c) pre am)
    (\<lambda>_ c. B \<longrightarrow> sound_ctx 0 c)"
proof -
  let ?P = "\<lambda>c. (B \<longrightarrow> sound_ctx 0 c) \<and> has_answer c" and ?E = "\<lambda>_ c. B \<longrightarrow> sound_ctx 0 c"
  have weak: "triple ?P m (\<lambda>_. ?P) ?E" if "preserves ?P m" for m :: "('a loop_context, 'y, 'z) step"
    using that unfolding preserves_def by (rule triple_weaken) simp_all
  have norm: "preserves ?P normalize_calls"
    by (intro preserves_conj preserves_history keeping preserving)
  have retry: "preserves ?P (if b then retry_invalid_call sv call else sreturn x)" for b call x
    by (intro preserves_if preserves_conj retry_sound preserving assms)
  have emit: "triple (\<lambda>c. \<exists>pre am. calls_appended B ids (history c) pre am) (siter (\<lambda>call. emit_tool_event sv
      (tub_call_id call) (tub_tool_name call) (tub_input call) (invalid_tool_call_message call) True) calls)
      (\<lambda>_ c. \<exists>pre am. calls_appended B ids (history c) pre am) ?E" for ids calls
  proof -
    have "triple (\<lambda>c. \<exists>pre am. calls_appended B ids (history c) pre am) (emit_tool_event sv cid name inp pv err)
      (\<lambda>_ c. \<exists>pre am. calls_appended B ids (history c) pre am) ?E" for cid name inp pv err
      by (simp add: triple_def emit_tool_event_def emit_def sbind_def sread_def smodify_def)
    then show ?thesis by (rule triple_iter)
  qed
  note append = append_answer [where E = ?E, folded calls_appended_def]
  show ?thesis
    unfolding process_llm_tool_calls_def Let_def split_beta
    by (rule triple_bind [OF weak [OF norm]], rule triple_bind [OF weak [OF retry]], rule triple_assoc,
        rule triple_bind [OF append], rule triple_bind [OF emit], rule triple_return, simp)
qed

lemma sound_history_append:
  "sound_history (xs @ ys) \<longleftrightarrow> sound_history xs \<and> wf_history ys \<and>
     paired_from (\<Union>m \<in> set xs. set (tool_use_ids m)) ys"
  by (auto simp: sound_history_def wf_history_def paired_from_append)

lemma paired_answers:
  "\<lbrakk>\<forall>m \<in> set ms. set (tool_result_ids m) \<subseteq> S\<rbrakk> \<Longrightarrow> paired_from S ms"
proof (induction ms arbitrary: S)
  case (Cons m ms)
  then show ?case by (auto intro: paired_from_mono [of S])
qed simp

lemma batch_sound:
  assumes "calls_appended True ids H pre am" "batch_recorded H rs susp ms" "set (map result_call_id rs) \<subseteq> set ids"
  shows "sound_history ms"
proof -
  obtain as ns where ms: "ms = (pre @ [am]) @ as @ ns" and a: "answers rs as" and n: "batch_note ns"
    using assms(1,2) by (auto simp: calls_appended_def batch_recorded_def)
  have am: "sound_history pre" "tool_use_ids am = ids" "tool_result_ids am = []" "role am = Assistant"
    using assms(1) by (auto simp: calls_appended_def)
  then have "sound_history (pre @ [am])"
    by (simp add: sound_history_append wf_history_def)
  moreover have "wf_history (as @ ns)"
    using a n by (auto simp: wf_history_def answers_def batch_note_def list_all_iff)
  moreover have "set (tool_result_ids m) \<subseteq> set ids" if "m \<in> set (as @ ns)" for m
  proof (cases "m \<in> set as")
    case True
    then have "tool_result_ids m \<in> set (map tool_result_ids as)" by simp
    then show ?thesis using a assms(3) unfolding answers_def by auto
  next
    case False
    with that n show ?thesis by (auto simp: batch_note_def)
  qed
  then have "paired_from (\<Union>m \<in> set (pre @ [am]). set (tool_use_ids m)) (as @ ns)"
    using am(2) by (intro paired_answers) auto
  ultimately show ?thesis unfolding ms by (subst sound_history_append) blast
qed

text \<open>Whether the calls of the answer are executed, as \<open>run\<close> decides it.\<close>

definition executes_calls :: "'e services \<Rightarrow> 'e loop_context \<Rightarrow> bool" where
  "executes_calls sv c \<longleftrightarrow>
     (\<exists>m. tn_assistant_message (cx_turn c) = Some m \<and> am_tool_calls m \<noteq> []) \<and>
     ff_tool_execution (rs_feature_flags (sv_snapshot sv)) \<and> in_runtime_view (cx_input c) \<and>
     in_agent_id (cx_input c) \<noteq> None"

text \<open>The history after the tool phase: the calls, and everything that became of them.\<close>

definition batch_done ::
  "bool \<Rightarrow> tool_execution_result list \<Rightarrow> suspended_tool_call list \<Rightarrow> chat_message list \<Rightarrow> bool" where
  "batch_done B rs susp ms \<longleftrightarrow> (\<exists>pre am. calls_appended B (map result_call_id rs) (pre @ [am]) pre am \<and>
     batch_recorded (pre @ [am]) rs susp ms)"

lemma run_batch_spec:
  assumes "B \<Longrightarrow> sound_compressor sv" "honest_executor sv"
  shows "triple (\<lambda>c. ((B \<longrightarrow> sound_ctx 0 c) \<and> has_answer c) \<and> turn_results c = []) (run_batch sv input)
    (\<lambda>susp c. batch_done B (turn_results c) susp (history c)) (\<lambda>x c. x = Panic \<or> (B \<longrightarrow> sound_ctx 0 c))"
    (is "triple _ _ ?Q ?E")
proof -
  have process: "triple (\<lambda>c. ((B \<longrightarrow> sound_ctx 0 c) \<and> has_answer c) \<and> turn_results c = []) (process_llm_tool_calls sv)
      (\<lambda>calls c. \<exists>H. (history c = H \<and> turn_results c = []) \<and>
         (\<exists>pre am. calls_appended B (map tub_call_id calls) H pre am)) ?E"
    by (rule triple_weaken [OF triple_frame [where R = "\<lambda>r. r = []", OF process_keeps(2) process_spec [OF assms(1)]]]) auto
  have batch: "triple (\<lambda>c. (history c = H \<and> turn_results c = []) \<and> (\<exists>pre am. calls_appended B ids H pre am))
      (sbind (execute_tool_batch sv ps b) (record_tool_results sv)) ?Q ?E"
    if "map prepared_id ps = ids" for H ps b ids
  proof -
    let ?H = "\<lambda>c. (history c = H \<and> turn_results c = []) \<and> (\<exists>pre am. calls_appended B ids H pre am)"
    have exec: "triple ?H (execute_tool_batch sv ps b) (\<lambda>rs c. map result_call_id rs = ids \<and> ?H c) ?E"
      by (rule triple_weaken [OF triple_frame [where f = "\<lambda>c. (history c, turn_results c)" and
            R = "\<lambda>(h, r). (h = H \<and> r = []) \<and> (\<exists>pre am. calls_appended B ids H pre am)",
            OF execute_tool_batch_keeps execute_tool_batch_ids [OF assms(2)]]])
        (use that in auto)
    have "triple (\<lambda>c. map result_call_id rs = ids \<and> ?H c) (record_tool_results sv rs) ?Q ?E" for rs
    proof (rule triple_weaken [OF triple_frame [where f = "\<lambda>_. ()" and
          R = "\<lambda>_. map result_call_id rs = ids \<and> (\<exists>pre am. calls_appended B ids H pre am)",
          OF _ record_tool_results_spec [of H "[]"]]])
      show "keeps (\<lambda>_. ()) (record_tool_results sv rs)" by (simp add: keeps_def)
    qed (auto simp: batch_done_def calls_appended_def)
    then show ?thesis by (rule triple_bind [OF exec])
  qed
  show ?thesis
    unfolding run_batch_def Let_def
    by (rule triple_bind [OF process], rule triple_ex, rule batch) simp
qed

lemma batch_done_sound: "batch_done True rs susp ms \<Longrightarrow> sound_history ms"
  unfolding batch_done_def by (auto intro: batch_sound)

lemma run_tools_executes: "executes_calls sv c \<Longrightarrow> run_tools sv c = run_batch sv (cx_input c) c"
  by (auto simp: run_tools_def executes_calls_def sbind_def sread_def)

lemma run_tools_sound:
  assumes "sound_compressor sv" "honest_executor sv"
  shows "triple (\<lambda>c. sound_ctx 0 c \<and> turn_results c = []) (run_tools sv)
    (\<lambda>_. sound_ctx 0) (\<lambda>x c. x = Panic \<or> sound_ctx 0 c)"
  unfolding triple_def
proof (intro allI impI)
  fix c :: "'a loop_context" assume c: "sound_ctx 0 c \<and> turn_results c = []"
  show "case run_tools sv c of (Inr a, c') \<Rightarrow> sound_ctx 0 c' | (Inl x, c') \<Rightarrow> x = Panic \<or> sound_ctx 0 c'"
  proof (cases "executes_calls sv c")
    case True
    then have "has_answer c" by (auto simp: executes_calls_def has_answer_def)
    with c run_batch_spec [of True sv "cx_input c"] assms show ?thesis
      unfolding run_tools_executes [OF True] triple_def
      by (fastforce dest: batch_done_sound simp: sound_upto_0 split: prod.splits sum.splits)
  next
    case False
    have ids: "tool_result_ids (assistant_chat_message now m) = []" "role (assistant_chat_message now m) = Assistant" for now m
      by (auto simp: assistant_chat_message_def tool_result_ids_def List.map_filter_def split: option.split)
    from False c show ?thesis
      by (auto simp: run_tools_def executes_calls_def sbind_def sread_def sreturn_def append_assistant_to_history_def
          env_call_def push_message_def push_raw_def update_state_def smodify_def sound_upto_0 sound_history_append
          wf_history_def cached_message ids split: option.split prod.split)
  qed
qed

lemma suspension_ids:
  "map (fc_call_id \<circ> stc_final_call) (List.map_filter suspended_from_tool_result rs) =
   map result_call_id (filter is_suspended rs)"
proof (induction rs)
  case (Cons r rs)
  then show ?case
    by (cases r) (simp_all add: List.map_filter_simps is_suspended_def result_call_id_def)
qed (simp add: List.map_filter_simps)

section \<open>Examples\<close>

text \<open>A world that is the list of the answers the provider will give.\<close>

definition ex_tool :: "rstr \<Rightarrow> tool_spec" where
  "ex_tool name = \<lparr>ts_id = name, ts_name = name, ts_effect_profile =
     \<lparr>reads_filesystem = True, writes_filesystem = False, network_access = False, side_effects = False\<rparr>\<rparr>"

definition ex_snapshot :: runtime_snapshot where
  "ex_snapshot = \<lparr>rs_system_prompt = [], rs_feature_flags = feature_flags_default,
     rs_max_turns = 3, rs_token_budget_config = ex_budget, rs_tool_spec_count = 1\<rparr>"

definition ex_execute :: "final_tool_call \<Rightarrow> rstr + tool_execution_result" where
  "ex_execute call =
     (if fc_tool_name call = lit ''join_subagent'' then Inr (Suspended call [] (lit ''child''))
      else Inr (Completed call (Success (lit ''ok'')) [] []))"

definition ex_services :: "llm_response list services" where
  "ex_services =
     \<lparr>sv_snapshot = ex_snapshot, sv_cancelled = (\<lambda>e. (False, e)), sv_now = (\<lambda>e. (7, e)),
      sv_drain = (\<lambda>e. ([], e)), sv_hookers = (\<lambda>_. []), sv_hooker_enabled = (\<lambda>_. True),
      sv_invoke = (\<lambda>_ _ e. (Inr PrimaryOther, e)), sv_message_count = (\<lambda>_. 0), sv_skills = [],
      sv_get_skill = (\<lambda>_. None), sv_open_todos = (\<lambda>_. []), sv_policy = ex_budget,
      sv_analyze = (\<lambda>_ _. Some \<lparr>ca_severity = Normal, ca_estimated_tokens = 0, ca_should_compact = False,
        ca_total_tokens = 0, ca_available_tokens = 0, ca_usage_ratio = Fin 0\<rparr>),
      sv_compress = (\<lambda>ms b meta e. (passthrough_compress ms b meta, e)),
      sv_build = (\<lambda>inp e. (Inr \<lparr>pb_request = llm_request_new (pi_messages inp),
        pb_estimated_input_tokens = 5, pb_system_parts = []\<rparr>, e)),
      sv_non_streaming = True,
      sv_complete = (\<lambda>_ e. case e of [] \<Rightarrow> (Inl Timeout, []) | r # e \<Rightarrow> (Inr r, e)),
      sv_stream = (\<lambda>_ e. ([], Inl Timeout, e)),
      sv_get_executor = (\<lambda>name. Some (ex_tool name)),
      sv_execute = (\<lambda>call e. (ex_execute call, e)),
      sv_execute_all = (\<lambda>calls e. (map ex_execute calls, e)),
      sv_save_output = (\<lambda>_ _ _ e. (None, e)), sv_js = (\<lambda>_. lit ''{}''), sv_pretty = (\<lambda>_. lit ''{}''),
      sv_from_str = (\<lambda>_. None), sv_hash3 = (\<lambda>_ _ _. 0)\<rparr>"

definition ex_call :: "rstr \<Rightarrow> rstr \<Rightarrow> tool_use_block" where
  "ex_call cid name = \<lparr>tub_call_id = cid, tub_tool_name = name, tub_input = JNull\<rparr>"

definition ex_answer_with :: "tool_use_block list \<Rightarrow> assistant_message" where
  "ex_answer_with calls = \<lparr>am_text = Some (lit ''hi''), am_reasoning = None, am_tool_calls = calls,
     am_usage = usage_default, am_stop_reason = EndTurn\<rparr>"

definition ex_input :: agent_loop_input where
  "ex_input = \<lparr>in_user_message = lit ''go'', in_append_user_message = True, in_event_sink = None,
     in_agent_id = Some (lit ''main''),
     in_visible_tools = [ex_tool (lit ''read''), ex_tool (lit ''join_subagent'')],
     in_runtime_view = True, in_reasoning_effort = EDefault, in_stop_rules = [],
     in_pending_user_messages = False, in_command_context = None\<rparr>"

definition ex_context :: "assistant_message option \<Rightarrow> llm_response list loop_context" where
  "ex_context am = \<lparr>cx_state = (loop_state_new (lit ''s''))\<lparr>ls_messages := [chat_user (lit ''go'')]\<rparr>,
     cx_input = ex_input, cx_turn = (turn_state_new 1)\<lparr>tn_assistant_message := am\<rparr>,
     cx_estimator = core_estimator_new, cx_env = [], cx_events = [], cx_evicted = []\<rparr>"

definition ex_batch :: "llm_response list loop_context" where
  "ex_batch = ex_context (Some (ex_answer_with
     [ex_call (lit ''a'') (lit ''join_subagent''), ex_call (lit ''b'') (lit ''read''), ex_call (lit ''c'') (lit ''none'')]))"

lemma ex_services_sel [simp]:
  "sv_execute ex_services = (\<lambda>call e. (ex_execute call, e))"
  "sv_execute_all ex_services = (\<lambda>calls e. (map ex_execute calls, e))"
  "sv_compress ex_services = (\<lambda>ms b meta e. (passthrough_compress ms b meta, e))"
  "sv_snapshot ex_services = ex_snapshot"
  by (simp_all add: ex_services_def)

lemma ex_honest: "honest_executor ex_services"
proof -
  have "outcome_of call (ex_execute call)" for call
    by (simp add: outcome_of_def ex_execute_def result_call_id_def)
  then show ?thesis
    by (simp add: honest_executor_def list_all2_conv_all_nth)
qed

lemma ex_batch_runs:
  "map_prod (map_sum id (map (fc_call_id \<circ> stc_final_call))) (\<lambda>c. map result_call_id (turn_results c))
     (run_tools ex_services ex_batch) = (Inr [lit ''a''], [lit ''b'', lit ''c'', lit ''a''])"
  by code_simp

section \<open>Properties\<close>



end
