(* ===== verification/AgentLoop.thy ===== *)
theory AgentLoop
  imports ToolRun
begin

text \<open>
  The agent loop (\<open>run_agent_loop\<close> in \<open>crates/core/src/agent_loop.rs\<close>): the user message of a run
  with its skill expansion and hooks, the phases of a turn, the decision that ends it, the outcomes,
  and the loop over turns.
\<close>

section \<open>The user message\<close>

definition expand_skill :: "skill_spec \<Rightarrow> rstr \<Rightarrow> rstr" where
  "expand_skill spec args =
     (case sk_location spec of
        Some location \<Rightarrow> lit ''[Skill directory: '' @ location @ lit '']'' @ [10, 10] | None \<Rightarrow> []) @
     sk_full_prompt spec @
     (if args \<noteq> [] then [10, 10] @ lit ''User request: '' @ args else [])"

definition try_expand_skill_prefix :: "(rstr \<Rightarrow> skill_spec option) \<Rightarrow> rstr \<Rightarrow> rstr option" where
  "try_expand_skill_prefix get_skill user_message =
     (case trim user_message of
        [] \<Rightarrow> None
      | c # without_slash \<Rightarrow>
          if c \<noteq> 47 then None
          else
            let (skill_name, args) =
                  (case position is_whitespace without_slash of
                     Some pos \<Rightarrow> (take pos without_slash, trim (drop pos without_slash))
                   | None \<Rightarrow> (without_slash, [])) in
            if skill_name = [] then None
            else (case get_skill skill_name of
                    None \<Rightarrow> None
                  | Some spec \<Rightarrow> if sk_user_invocable spec then Some (expand_skill spec args) else None))"

definition set_user_message :: "rstr \<Rightarrow> ('e loop_context, 'x, unit) step" where
  "set_user_message t = smodify (\<lambda>c. c\<lparr>cx_input := (cx_input c)\<lparr>in_user_message := t\<rparr>\<rparr>)"

definition deny_command :: "'e services \<Rightarrow> rstr \<Rightarrow> rstr \<Rightarrow> ('e loop_context, 'x, loop_run_result) step" where
  "deny_command sv command reason =
     (let deny_text = lit ''Command '' @ quoted command @ lit '' denied by plugin: '' @ reason in
      sbind (env_call (sv_now sv)) (\<lambda>now.
      sbind (push_message sv (chat_text Assistant deny_text now)) (\<lambda>_.
      sbind (emit [AssistantMessage deny_text]) (\<lambda>_.
      sread (\<lambda>c. RunComplete (Complete deny_text (ls_messages (cx_state c)) 0 usage_default 0))))))"

text \<open>The command hook: the denial that ends the run, if there is one.\<close>

definition command_before :: "'e services \<Rightarrow> ('e loop_context, 'x, loop_run_result option) step" where
  "command_before sv =
     sbind (sread cx_input) (\<lambda>input.
     case in_command_context input of
       None \<Rightarrow> sreturn None
     | Some cmd \<Rightarrow>
         if \<not> in_runtime_view input then sreturn None
         else
           sbind (sread (\<lambda>c. ls_session_id (cx_state c))) (\<lambda>session_id.
           sbind (env_call (run_command_execute_before_hook sv session_id (in_agent_id input)
                    (cmd_command cmd) (cmd_arguments cmd) (in_user_message input))) (\<lambda>(body, deny).
           case deny of
             Some reason \<Rightarrow> sbind (deny_command sv (cmd_command cmd) reason) (\<lambda>r. sreturn (Some r))
           | None \<Rightarrow> sbind (set_user_message body) (\<lambda>_. sreturn None))))"

definition push_user_message :: "'e services \<Rightarrow> ('e loop_context, 'x, unit) step" where
  "push_user_message sv =
     sbind (env_call (sv_now sv)) (\<lambda>now.
     sbind (sread (\<lambda>c. in_user_message (cx_input c))) (\<lambda>t.
     sbind (apply_chat_message_hook sv (chat_text User t now)) (\<lambda>final_message.
     sbind (case text_content final_message of Some t \<Rightarrow> set_user_message t | None \<Rightarrow> sreturn ()) (\<lambda>_.
     push_message sv final_message))))"

definition begin_run :: "'e services \<Rightarrow> ('e loop_context, 'x, loop_run_result option) step" where
  "begin_run sv =
     sbind (sread cx_input) (\<lambda>input.
     if \<not> in_append_user_message input then sreturn None
     else
       sbind (update_state (\<lambda>s. s\<lparr>ls_token_usage := usage_default, ls_last_token_usage := usage_default\<rparr>)) (\<lambda>_.
       sbind (case try_expand_skill_prefix (sv_get_skill sv) (in_user_message input) of
                Some expanded \<Rightarrow> set_user_message expanded | None \<Rightarrow> sreturn ()) (\<lambda>_.
       sbind (command_before sv) (\<lambda>denied.
       case denied of
         Some r \<Rightarrow> sreturn (Some r)
       | None \<Rightarrow> sbind (push_user_message sv) (\<lambda>_. sreturn None)))))"

definition drain_pending_user_messages :: "'e services \<Rightarrow> ('e loop_context, 'x, unit) step" where
  "drain_pending_user_messages sv =
     sbind (sread cx_input) (\<lambda>input.
     if \<not> in_pending_user_messages input then sreturn ()
     else
       sbind (env_call (sv_drain sv)) (\<lambda>messages.
       siter (\<lambda>message.
         if trim message = [] then sreturn ()
         else
           sbind (env_call (sv_now sv)) (\<lambda>now.
           sbind (apply_chat_message_hook sv (chat_text User message now)) (\<lambda>final_message.
           push_message sv final_message))) messages))"

section \<open>The decision\<close>

definition plan_reminder :: "rstr list \<Rightarrow> rstr" where
  "plan_reminder open_items =
     lit ''You are about to stop, but your plan still has '' @ dec (length open_items) @
     lit '' open item(s):'' @ [10] @ join [10] open_items @ [10] @
     lit ''Finish them now, or call todo_write to mark them completed/cancelled if they no longer apply '' @
     [8212] @ lit '' then stop.''"

definition set_decision :: "loop_decision \<Rightarrow> ('e loop_context, 'x, unit) step" where
  "set_decision d = update_turn (\<lambda>t. t\<lparr>tn_decision := Some d\<rparr>)"

definition wants_tools :: "'e services \<Rightarrow> 'e loop_context \<Rightarrow> bool" where
  "wants_tools sv c \<longleftrightarrow>
     (case tn_assistant_message (cx_turn c) of
        None \<Rightarrow> False
      | Some msg \<Rightarrow> am_tool_calls msg \<noteq> [] \<and> ff_tool_execution (rs_feature_flags (sv_snapshot sv)) \<and>
          in_visible_tools (cx_input c) \<noteq> [] \<and> in_runtime_view (cx_input c))"

definition open_plan_items :: "'e services \<Rightarrow> 'e loop_context \<Rightarrow> rstr list" where
  "open_plan_items sv c = (if in_runtime_view (cx_input c) then sv_open_todos sv (cx_env c) else [])"

definition may_nudge :: "'e services \<Rightarrow> 'e loop_context \<Rightarrow> bool" where
  "may_nudge sv c \<longleftrightarrow>
     \<not> ls_plan_nudged (cx_state c) \<and> tn_turn_number (cx_turn c) < rs_max_turns (sv_snapshot sv)"

definition decide :: "'e services \<Rightarrow> ('e loop_context, 'x, unit) step" where
  "decide sv =
     sbind (env_call (sv_cancelled sv)) (\<lambda>cancelled.
     if cancelled then set_decision ReturnCancelled
     else
       sbind (sread id) (\<lambda>c.
       if tn_force_return_complete (cx_turn c) then set_decision ReturnComplete
       else if is_final_turn sv c then set_decision ReturnMaxTurns
       else if wants_tools sv c then set_decision Continue
       else if may_nudge sv c \<and> open_plan_items sv c \<noteq> [] then
         sbind (update_state (\<lambda>s. s\<lparr>ls_plan_nudged := True\<rparr>)) (\<lambda>_.
         sbind (push_message sv (chat_user (plan_reminder (open_plan_items sv c)))) (\<lambda>_.
         set_decision Continue))
       else set_decision ReturnComplete))"

section \<open>Outcomes\<close>

definition current_turn_estimated_input_tokens :: "'e loop_context \<Rightarrow> nat" where
  "current_turn_estimated_input_tokens c =
     (case tn_build_messages_output (cx_turn c) of Some r \<Rightarrow> pb_estimated_input_tokens r | None \<Rightarrow> 0)"

definition partial_reply :: "'e loop_context \<Rightarrow> rstr option" where
  "partial_reply c = Option.bind (tn_assistant_message (cx_turn c)) am_text"

definition build_outcome_max_turns :: "'e loop_context \<Rightarrow> agent_outcome" where
  "build_outcome_max_turns c = MaxTurnsReached (partial_reply c) (ls_messages (cx_state c))
     (ls_turn_count (cx_state c)) (ls_token_usage (cx_state c)) (current_turn_estimated_input_tokens c)"

definition build_outcome_budget :: "'e loop_context \<Rightarrow> agent_outcome" where
  "build_outcome_budget c = BudgetExhausted (partial_reply c) (ls_messages (cx_state c))
     (ls_turn_count (cx_state c)) (ls_token_usage (cx_state c)) (current_turn_estimated_input_tokens c)"

definition build_outcome_cancelled :: "'e loop_context \<Rightarrow> agent_outcome" where
  "build_outcome_cancelled c = Cancelled (partial_reply c) (ls_messages (cx_state c))
     (ls_turn_count (cx_state c)) (ls_token_usage (cx_state c)) (current_turn_estimated_input_tokens c)"

definition build_outcome_complete :: "'e loop_context \<Rightarrow> agent_outcome" where
  "build_outcome_complete c = Complete (case partial_reply c of Some t \<Rightarrow> t | None \<Rightarrow> [])
     (ls_messages (cx_state c)) (ls_turn_count (cx_state c)) (ls_token_usage (cx_state c))
     (current_turn_estimated_input_tokens c)"

definition emit_loop_end :: "rstr \<Rightarrow> ('e loop_context, 'x, unit) step" where
  "emit_loop_end stop_reason =
     sbind (sread cx_state) (\<lambda>s.
     emit [LoopEnd (ls_turn_count s) (total_tokens (ls_token_usage s)) stop_reason])"

definition count_turn :: "('e loop_context, 'x, unit) step" where
  "count_turn = update_state (\<lambda>s. s\<lparr>ls_turn_count := ls_turn_count s + 1\<rparr>)"

section \<open>The loop\<close>

text \<open>What the decision of a turn leads to: the next turn (\<open>None\<close>), or the result of the run.\<close>

definition conclude_turn :: "('e loop_context, loop_abort, loop_run_result option) step" where
  "conclude_turn =
     sbind (sread (\<lambda>c. tn_decision (cx_turn c))) (\<lambda>decision.
     case decision of
       Some Continue \<Rightarrow>
         sbind count_turn (\<lambda>_.
         sbind (update_turn (\<lambda>t. turn_state_new (tn_turn_number t + 1))) (\<lambda>_. sreturn None))
     | Some ReturnComplete \<Rightarrow>
         sbind count_turn (\<lambda>_.
         sbind (emit_loop_end (lit ''complete'')) (\<lambda>_.
         sread (\<lambda>c. Some (RunComplete (build_outcome_complete c)))))
     | Some ReturnMaxTurns \<Rightarrow>
         sbind count_turn (\<lambda>_.
         sbind (sread build_outcome_max_turns) (\<lambda>outcome.
         sbind (emit_loop_end (lit ''max_turns'')) (\<lambda>_. sreturn (Some (RunComplete outcome)))))
     | Some ReturnBudgetExhausted \<Rightarrow>
         sbind count_turn (\<lambda>_.
         sbind (sread build_outcome_budget) (\<lambda>outcome.
         sbind (emit_loop_end (lit ''budget_exhausted'')) (\<lambda>_. sreturn (Some (RunComplete outcome)))))
     | Some ReturnCancelled \<Rightarrow>
         sbind (sread build_outcome_cancelled) (\<lambda>outcome.
         sbind (emit_loop_end (lit ''cancelled'')) (\<lambda>_. sreturn (Some (RunComplete outcome))))
     | None \<Rightarrow> sthrow (AgentErr (LlmProvider (lit ''loop decision was not set''))))"

definition start_turn :: "'e services \<Rightarrow> ('e loop_context, 'x, unit) step" where
  "start_turn sv =
     sbind (update_turn (\<lambda>t. turn_state_new (tn_turn_number t))) (\<lambda>_.
     sbind (sread (\<lambda>c. tn_turn_number (cx_turn c))) (\<lambda>n.
     sbind (emit [TurnStart n]) (\<lambda>_.
     drain_pending_user_messages sv)))"

text \<open>The phases up to the tools; \<open>run_turn\<close> adds the end of the turn.\<close>

definition run_phases :: "'e services \<Rightarrow> ('e loop_context, loop_abort, suspended_tool_call list) step" where
  "run_phases sv =
     sbind (start_turn sv) (\<lambda>_.
     sbind (compress sv Automatic) (\<lambda>_.
     sbind (build_messages sv) (\<lambda>_.
     sbind (pre_check_token_budget sv) (\<lambda>_.
     sbind (llm_call_with_recovery sv) (\<lambda>_.
     run_tools sv)))))"

definition run_turn :: "'e services \<Rightarrow> ('e loop_context, loop_abort, loop_run_result option) step" where
  "run_turn sv =
     sbind (run_phases sv) (\<lambda>suspended_calls.
     if suspended_calls \<noteq> [] then
       sbind (emit_loop_end (lit ''suspended'')) (\<lambda>_. sreturn (Some (RunSuspended suspended_calls)))
     else sbind (decide sv) (\<lambda>_. conclude_turn))"

text \<open>The loop may run forever when the number of turns is not limited: then it has no value.\<close>

partial_function (option) run_turns ::
  "'e services \<Rightarrow> 'e loop_context \<Rightarrow> ((loop_abort + loop_run_result) \<times> 'e loop_context) option" where
  "run_turns sv c =
     (case run_turn sv c of
        (Inl x, c') \<Rightarrow> Some (Inl x, c')
      | (Inr (Some r), c') \<Rightarrow> Some (Inr r, c')
      | (Inr None, c') \<Rightarrow> run_turns sv c')"

definition initial_context :: "loop_state \<Rightarrow> agent_loop_input \<Rightarrow> 'e \<Rightarrow> 'e loop_context" where
  "initial_context state input e =
     \<lparr>cx_state = state, cx_input = input, cx_turn = turn_state_new 1, cx_estimator = core_estimator_new,
      cx_env = e, cx_events = [], cx_evicted = []\<rparr>"

definition run_agent_loop ::
  "'e services \<Rightarrow> loop_state \<Rightarrow> agent_loop_input \<Rightarrow> 'e \<Rightarrow>
   ((loop_abort + loop_run_result) \<times> 'e loop_context) option" where
  "run_agent_loop sv state input e =
     (case begin_run sv (initial_context state input e) of
        (Inl x, c) \<Rightarrow> Some (Inl x, c)
      | (Inr (Some r), c) \<Rightarrow> Some (Inr r, c)
      | (Inr None, c) \<Rightarrow> run_turns sv c)"

section \<open>Termination\<close>

lemma message_hook_results: "keeps turn_results (apply_chat_message_hook sv m)"
  by (auto simp: keeps_def apply_chat_message_hook_def env_call_def split: prod.split)

lemma drain_keeps [keeping]: "keeps turn_number (drain_pending_user_messages sv)"
  unfolding drain_pending_user_messages_def by (intro keeping; simp)

lemma start_turn_keeps [keeping]: "keeps turn_number (start_turn sv)"
  unfolding start_turn_def update_turn_def by (intro keeping; simp add: turn_state_new_def)

lemma run_phases_keeps [keeping]: "keeps turn_number (run_phases sv)"
  unfolding run_phases_def by (intro keeping)

lemma emit_loop_end_keeps [keeping]:
  "keeps turn_number (emit_loop_end r)" "keeps history (emit_loop_end r)" "keeps cx_turn (emit_loop_end r)"
  unfolding emit_loop_end_def by (intro keeping)+

lemma set_decision_spec:
  "triple (\<lambda>c. turn_number c = n) (set_decision d) (\<lambda>_ c. turn_number c = n \<and> tn_decision (cx_turn c) = Some d) E"
  by (simp add: triple_def set_decision_def update_turn_def smodify_def)

text \<open>A turn that goes on is not the last one that is allowed.\<close>

lemma decide_spec:
  "triple (\<lambda>c. turn_number c = n) (decide sv)
     (\<lambda>_ c. turn_number c = n \<and> tn_decision (cx_turn c) \<noteq> None \<and>
        (tn_decision (cx_turn c) = Some Continue \<longrightarrow>
           rs_max_turns (sv_snapshot sv) = 0 \<or> n < rs_max_turns (sv_snapshot sv))) E"
proof (rule tripleI)
  fix c :: "'a loop_context" and a c' assume c: "turn_number c = n" "decide sv c = (Inr a, c')"
  obtain b e where b: "sv_cancelled sv (cx_env c) = (b, e)" by (rule prod.exhaust)
  from c b show "turn_number c' = n \<and> tn_decision (cx_turn c') \<noteq> None \<and>
      (tn_decision (cx_turn c') = Some Continue \<longrightarrow>
         rs_max_turns (sv_snapshot sv) = 0 \<or> n < rs_max_turns (sv_snapshot sv))"
    by (auto simp: decide_def sbind_def env_call_def sread_def set_decision_def update_turn_def smodify_def
        is_final_turn_def update_state_def push_message_def push_raw_def split: if_splits)
next
  fix c :: "'a loop_context" and x :: 'b and c' assume "decide sv c = (Inl x, c')"
  moreover obtain b e where "sv_cancelled sv (cx_env c) = (b, e)" by (rule prod.exhaust)
  ultimately show "E x c'"
    by (auto simp: decide_def sbind_def env_call_def sread_def set_decision_def update_turn_def smodify_def
        update_state_def push_message_def push_raw_def split: if_splits)
qed

lemma conclude_spec:
  "triple (\<lambda>c. turn_number c = n \<and> tn_decision (cx_turn c) \<noteq> None \<and>
        (tn_decision (cx_turn c) = Some Continue \<longrightarrow> m = 0 \<or> n < m)) conclude_turn
     (\<lambda>r c. if r = None then turn_number c = n + 1 \<and> (m = 0 \<or> n < m) else turn_number c = n) (\<lambda>_ _. False)"
  by (auto simp: triple_def conclude_turn_def sbind_def sread_def sreturn_def sthrow_def count_turn_def update_state_def
      update_turn_def smodify_def emit_loop_end_def emit_def turn_state_new_def
      split: option.split loop_decision.split)

lemma run_turn_spec:
  "triple (\<lambda>c. turn_number c = n) (run_turn sv)
     (\<lambda>r c. if r = None
        then turn_number c = n + 1 \<and> (rs_max_turns (sv_snapshot sv) = 0 \<or> n < rs_max_turns (sv_snapshot sv))
        else turn_number c = n)
     (\<lambda>_ c. turn_number c = n)"
proof -
  let ?P = "\<lambda>c. turn_number c = n"
  have phases: "triple ?P (run_phases sv) (\<lambda>_. ?P) (\<lambda>_. ?P)"
    by (rule triple_keeps [OF run_phases_keeps]) simp
  have stop: "triple ?P (emit_loop_end r) (\<lambda>_. ?P) (\<lambda>_. ?P)" for r
    by (rule triple_keeps [OF emit_loop_end_keeps(1)]) simp
  have conclude: "triple (\<lambda>c. turn_number c = n \<and> tn_decision (cx_turn c) \<noteq> None \<and>
        (tn_decision (cx_turn c) = Some Continue \<longrightarrow> rs_max_turns (sv_snapshot sv) = 0 \<or> n < rs_max_turns (sv_snapshot sv)))
      conclude_turn
      (\<lambda>r c. if r = None
        then turn_number c = n + 1 \<and> (rs_max_turns (sv_snapshot sv) = 0 \<or> n < rs_max_turns (sv_snapshot sv))
        else turn_number c = n) (\<lambda>_ c. turn_number c = n)"
    by (rule triple_weaken [OF conclude_spec]) simp_all
  show ?thesis
    unfolding run_turn_def
    by (rule triple_bind [OF phases], rule triple_if, rule triple_bind [OF stop], rule triple_return, simp,
        rule triple_bind [OF decide_spec], rule conclude)
qed

lemma run_turns_end:
  assumes "0 < rs_max_turns (sv_snapshot sv)" "turn_number c \<le> rs_max_turns (sv_snapshot sv)"
  shows "\<exists>r c'. run_turns sv c = Some (r, c') \<and> turn_number c' \<le> rs_max_turns (sv_snapshot sv)"
  using assms(2)
proof (induction "rs_max_turns (sv_snapshot sv) - turn_number c" arbitrary: c rule: less_induct)
  case less
  obtain r c1 where r: "run_turn sv c = (r, c1)" by (rule prod.exhaust)
  note spec = tripleD [OF run_turn_spec [of "turn_number c" sv] refl]
  show ?case
  proof (cases r)
    case (Inl x)
    with r spec(2) [of x c1] less.prems show ?thesis by (subst run_turns.simps) simp
  next
    case (Inr out)
    show ?thesis
    proof (cases out)
      case None
      with r Inr spec(1) [of None c1] assms(1)
      have n: "turn_number c1 = turn_number c + 1" "turn_number c < rs_max_turns (sv_snapshot sv)" by auto
      then have "rs_max_turns (sv_snapshot sv) - turn_number c1 < rs_max_turns (sv_snapshot sv) - turn_number c"
        "turn_number c1 \<le> rs_max_turns (sv_snapshot sv)" by linarith+
      from less.hyps [OF this] obtain r' c' where "run_turns sv c1 = Some (r', c')"
        "turn_number c' \<le> rs_max_turns (sv_snapshot sv)" by blast
      with r Inr None show ?thesis by (subst run_turns.simps) simp
    next
      case (Some res)
      with r Inr spec(1) [of out c1] less.prems show ?thesis by (subst run_turns.simps) simp
    qed
  qed
qed

lemma begin_run_keeps: "keeps turn_number (begin_run sv)"
  unfolding begin_run_def command_before_def deny_command_def push_user_message_def set_user_message_def
    update_state_def
  by (intro keeping; simp)

section \<open>Soundness of the history\<close>

text \<open>Plugins that rewrite a user message do not put tool results into it.\<close>

definition polite_hooks :: "'e services \<Rightarrow> bool" where
  "polite_hooks sv \<longleftrightarrow> (\<forall>h inp e m e'. sv_invoke sv h inp e = (Inr (PrimaryMessage (MessageTransform m)), e') \<longrightarrow>
     tool_result_ids m = [])"

lemma polite_hooksD:
  "polite_hooks sv \<Longrightarrow> sv_invoke sv h inp e = (Inr (PrimaryMessage (MessageTransform m)), e') \<Longrightarrow>
   tool_result_ids m = []"
  by (rule polite_hooks_def [THEN iffD1, rule_format])

lemma message_hook_result:
  assumes "polite_hooks sv" "tool_result_ids m = []"
  shows "triple P (apply_chat_message_hook sv m) (\<lambda>m' _. tool_result_ids m' = []) E"
proof -
  have chain: "tool_result_ids (fst (run_chat_hook_chain sv bi apply_message_hook hs m e)) = []" for bi hs e
  proof (rule hook_chain_invariant [where I = "\<lambda>m. tool_result_ids m = []", OF assms(2)])
    fix h acc e out e' acc' b
    assume "tool_result_ids acc = []" "sv_invoke sv h (bi acc) e = (Inr out, e')"
      "apply_message_hook acc out = Inr (acc', b)"
    then show "tool_result_ids acc' = []"
      by (cases "(acc, out)" rule: apply_message_hook.cases) (auto dest: polite_hooksD [OF assms(1)])
  qed
  have "tool_result_ids (fst (run_chat_message_hook sv sid aid m e)) = []" for sid aid e
    unfolding run_chat_message_hook_def Let_def by (rule chain)
  then have run: "tool_result_ids m' = []" if "run_chat_message_hook sv sid aid m e = (m', e')" for sid aid e m' e'
    using that by (metis fst_conv)
  show ?thesis
  proof (rule tripleI)
    fix c :: "'a loop_context" and m' c' assume "apply_chat_message_hook sv m c = (Inr m', c')"
    then show "tool_result_ids m' = []"
      using assms(2) by (auto simp: apply_chat_message_hook_def env_call_def dest: run split: if_splits prod.splits)
  qed (auto simp: apply_chat_message_hook_def env_call_def split: if_splits prod.splits)
qed

lemma push_sound:
  "tool_result_ids m = [] \<Longrightarrow> triple (sound_ctx 0) (push_message sv m) (\<lambda>_. sound_ctx 0) E"
  by (simp add: triple_def push_message_def push_raw_def update_state_def smodify_def sound_upto_0
      sound_history_append wf_history_def cached_message)

lemma hooked_push_sound:
  assumes "polite_hooks sv" "tool_result_ids m = []"
  shows "triple (sound_ctx 0) (sbind (apply_chat_message_hook sv m) (push_message sv)) (\<lambda>_. sound_ctx 0) E"
proof -
  have "triple (sound_ctx 0) (apply_chat_message_hook sv m) (\<lambda>m' c. tool_result_ids m' = [] \<and> sound_ctx 0 c) E"
    by (rule triple_frame [where f = history and R = "sound_upto 0", OF hooks_keep(6) message_hook_result [OF assms],
          of "\<lambda>_. True", simplified])
  moreover have "triple (\<lambda>c. tool_result_ids m' = [] \<and> sound_ctx 0 c) (push_message sv m') (\<lambda>_. sound_ctx 0) E" for m'
    using push_sound [of m' sv E] by (auto simp: triple_def)
  ultimately show ?thesis by (rule triple_bind)
qed

lemma drain_sound:
  assumes "polite_hooks sv"
  shows "preserves (sound_ctx 0) (drain_pending_user_messages sv)"
proof -
  have msg: "preserves (sound_ctx 0) (sbind (env_call (sv_now sv)) (\<lambda>now.
      sbind (apply_chat_message_hook sv (chat_text User message now)) (push_message sv)))" for message
    unfolding preserves_def
    by (rule triple_bind [OF triple_env_call [where Q = "\<lambda>_. sound_ctx 0"] hooked_push_sound [OF assms]]) simp_all
  show ?thesis
    unfolding drain_pending_user_messages_def
    by (intro preserving preserves_history keeping msg) simp_all
qed

lemma drain_results: "keeps turn_results (drain_pending_user_messages sv)"
  unfolding drain_pending_user_messages_def
  by (intro keeping message_hook_results; simp)

abbreviation fresh_turn :: "'e loop_context \<Rightarrow> bool" where
  "fresh_turn c \<equiv> sound_ctx 0 c \<and> turn_results c = []"

lemma start_turn_sound:
  assumes "polite_hooks sv"
  shows "triple (sound_ctx 0) (start_turn sv) (\<lambda>_. fresh_turn) (\<lambda>_. sound_ctx 0)"
proof -
  have new: "triple (sound_ctx 0) (update_turn (\<lambda>t. turn_state_new (tn_turn_number t))) (\<lambda>_. fresh_turn) E" for E
    by (simp add: triple_def update_turn_def smodify_def turn_state_new_def)
  have "preserves fresh_turn (drain_pending_user_messages sv)"
    by (intro preserves_conj drain_sound assms preserves_keeps [OF drain_results])
  moreover have "preserves fresh_turn (emit evs)" for evs
    by (intro preserves_conj preserves_history preserves_keeps [where f = turn_results] keeping)
  ultimately have rest: "preserves fresh_turn (sbind (sread turn_number) (\<lambda>n.
      sbind (emit [TurnStart n]) (\<lambda>_. drain_pending_user_messages sv)))"
    by (intro preserving)
  show ?thesis
    unfolding start_turn_def
    by (rule triple_bind [OF new triple_weaken [OF rest [unfolded preserves_def]]]) simp_all
qed

lemma run_phases_sound:
  assumes "sound_compressor sv" "honest_executor sv" "polite_hooks sv"
  shows "triple (sound_ctx 0) (run_phases sv) (\<lambda>_. sound_ctx 0) (\<lambda>x c. x = Panic \<or> sound_ctx 0 c)"
proof -
  let ?E = "\<lambda>x c. x = Panic \<or> sound_ctx 0 c"
  have weak: "triple fresh_turn m (\<lambda>_. fresh_turn) ?E" if "preserves fresh_turn m" for m :: "('a loop_context, loop_abort, unit) step"
    using that unfolding preserves_def by (rule triple_weaken) simp_all
  have "triple (sound_ctx 0) (start_turn sv) (\<lambda>_. fresh_turn) ?E"
    by (rule triple_weaken [OF start_turn_sound [OF assms(3)]]) simp_all
  moreover have "preserves fresh_turn (compress sv t)" for t
    by (intro preserves_conj compress_sound assms preserves_keeps [where f = turn_results] keeping) simp
  moreover have "preserves fresh_turn (build_messages sv)"
    by (intro preserves_conj preserves_history preserves_keeps [where f = turn_results] keeping)
  moreover have "preserves fresh_turn (pre_check_token_budget sv)"
    by (intro preserves_conj pre_check_sound assms preserves_keeps [where f = turn_results] keeping) simp
  moreover have "preserves fresh_turn (llm_call_with_recovery sv)"
    by (intro preserves_conj recovery_sound assms preserves_keeps [where f = turn_results] keeping) simp
  ultimately show ?thesis
    unfolding run_phases_def
    by (intro triple_bind [where R = "\<lambda>_. fresh_turn"] weak run_tools_sound assms(1,2))
qed

lemma decide_sound: "triple (sound_ctx 0) (decide sv) (\<lambda>_. sound_ctx 0) E"
proof (rule tripleI)
  fix c :: "'a loop_context" and a c' assume c: "sound_ctx 0 c" "decide sv c = (Inr a, c')"
  obtain b e where b: "sv_cancelled sv (cx_env c) = (b, e)" by (rule prod.exhaust)
  from c b show "sound_ctx 0 c'"
    by (auto simp: decide_def sbind_def env_call_def sread_def set_decision_def update_turn_def smodify_def
        update_state_def push_message_def push_raw_def sound_upto_0 sound_history_append wf_history_def
        cached_message user_message split: if_splits)
next
  fix c :: "'a loop_context" and x :: 'b and c' assume "decide sv c = (Inl x, c')"
  moreover obtain b e where "sv_cancelled sv (cx_env c) = (b, e)" by (rule prod.exhaust)
  ultimately show "E x c'"
    by (auto simp: decide_def sbind_def env_call_def sread_def set_decision_def update_turn_def smodify_def
        update_state_def push_message_def push_raw_def split: if_splits)
qed

lemma conclude_keeps: "keeps history conclude_turn"
  unfolding conclude_turn_def count_turn_def update_state_def update_turn_def
  by (auto intro!: keeping split: option.split loop_decision.split)

lemma run_turn_sound:
  assumes "sound_compressor sv" "honest_executor sv" "polite_hooks sv"
  shows "triple (sound_ctx 0) (run_turn sv) (\<lambda>_. sound_ctx 0) (\<lambda>x c. x = Panic \<or> sound_ctx 0 c)"
proof -
  let ?E = "\<lambda>x c. x = Panic \<or> sound_ctx 0 c"
  have weak: "triple (sound_ctx 0) m (\<lambda>_. sound_ctx 0) ?E" if "keeps history m" for m :: "('a loop_context, loop_abort, 'z) step"
    by (rule triple_weaken [OF triple_keeps [OF that, of "sound_ctx 0"]]) simp_all
  show ?thesis
    unfolding run_turn_def
    by (intro triple_bind [OF run_phases_sound [OF assms]] triple_if triple_bind [OF weak [OF emit_loop_end_keeps(2)]]
        triple_return triple_bind [OF decide_sound] weak conclude_keeps)
qed

text \<open>An invariant of the turns holds of the run, as far as it returns.\<close>

lemma run_turns_invariant:
  assumes "triple I (run_turn sv) (\<lambda>_. I) (\<lambda>x c. x = Panic \<or> I c)"
    and "run_turns sv c = Some (r, c')" "I c"
  shows "r = Inl Panic \<or> I c'"
proof -
  have "sv' = sv \<longrightarrow> I c \<longrightarrow> fst y = Inl Panic \<or> I (snd y)" if "run_turns sv' c = Some y" for sv' c y
    using that
  proof (rule run_turns.raw_induct [where P = "\<lambda>sv' c y. sv' = sv \<longrightarrow> I c \<longrightarrow> fst y = Inl Panic \<or> I (snd y)", rotated])
    fix run sv' c y
    assume ih: "\<And>sv' c y. run sv' c = Some y \<Longrightarrow> sv' = sv \<longrightarrow> I c \<longrightarrow> fst y = Inl Panic \<or> I (snd y)"
      and y: "(case run_turn sv' c of (Inl x, c') \<Rightarrow> Some (Inl x, c')
        | (Inr None, c') \<Rightarrow> run sv' c' | (Inr (Some r), c') \<Rightarrow> Some (Inr r, c')) = Some y"
    show "sv' = sv \<longrightarrow> I c \<longrightarrow> fst y = Inl Panic \<or> I (snd y)"
    proof (intro impI)
      assume c: "sv' = sv" "I c"
      obtain t c1 where t: "run_turn sv c = (t, c1)" by (rule prod.exhaust)
      note spec = tripleD [OF assms(1) c(2)]
      show "fst y = Inl Panic \<or> I (snd y)"
      proof (cases t)
        case (Inl x)
        with t y c spec(2) [of x c1] show ?thesis by auto
      next
        case (Inr out)
        with t y c spec(1) [of out c1] ih [of sv c1 y] show ?thesis by (cases out) auto
      qed
    qed
  qed
  from this [OF assms(2)] assms(3) show ?thesis by simp
qed

lemma begin_run_sound:
  assumes "polite_hooks sv"
  shows "triple (sound_ctx 0) (begin_run sv) (\<lambda>_. sound_ctx 0) (\<lambda>x c. x = Panic \<or> sound_ctx 0 c)"
proof -
  let ?E = "\<lambda>x c. x = Panic \<or> sound_ctx 0 c" and ?S = "\<lambda>_. sound_ctx 0"
  have weak: "triple (sound_ctx 0) m ?S ?E" if "keeps history m" for m :: "('a loop_context, loop_abort, 'z) step"
    by (rule triple_weaken [OF triple_keeps [OF that, of "sound_ctx 0"]]) simp_all
  have set: "keeps history (set_user_message t)" for t
    unfolding set_user_message_def by (intro keeping; simp)
  have env: "triple (sound_ctx 0) (env_call f) ?S ?E" for f :: "'a \<Rightarrow> 'z \<times> 'a"
    by (rule triple_env_call) simp
  have user: "triple (sound_ctx 0) (push_user_message sv) ?S ?E"
  proof -
    have hook: "triple (sound_ctx 0) (apply_chat_message_hook sv (chat_text User t now))
        (\<lambda>m c. tool_result_ids m = [] \<and> sound_ctx 0 c) ?E" for t now
      by (rule triple_frame [where f = history and R = "sound_upto 0", OF hooks_keep(6) message_hook_result [OF assms],
          of _ "\<lambda>_. True", simplified]) simp
    have sync: "triple (\<lambda>c. tool_result_ids m = [] \<and> sound_ctx 0 c)
        (case text_content m of Some t \<Rightarrow> set_user_message t | None \<Rightarrow> sreturn ())
        (\<lambda>_ c. tool_result_ids m = [] \<and> sound_ctx 0 c) ?E" for m
      by (simp add: triple_def set_user_message_def smodify_def sreturn_def split: option.split)
    have push: "triple (\<lambda>c. tool_result_ids m = [] \<and> sound_ctx 0 c) (push_message sv m) ?S ?E" for m
      using push_sound [of m sv ?E] by (auto simp: triple_def)
    show ?thesis
      unfolding push_user_message_def
      by (rule triple_bind [OF env], rule triple_bind [OF triple_read [where Q = ?S]], simp, rule triple_bind [OF hook],
          rule triple_bind [OF sync], rule push)
  qed
  have deny: "triple (sound_ctx 0) (deny_command sv cmd reason) ?S ?E" for cmd reason
    unfolding deny_command_def Let_def
    by (intro triple_bind [OF env] triple_bind [OF push_sound] triple_bind [OF weak [OF emit_keeps(1)]] triple_read)
      simp_all
  have before: "triple (sound_ctx 0) (command_before sv) ?S ?E"
    unfolding command_before_def
    by (intro triple_bind [OF triple_read [where Q = ?S]] triple_option triple_if triple_return triple_bind [OF env]
        triple_prod triple_bind [OF deny] triple_bind [OF weak [OF set]]) simp_all
  have reset: "triple (sound_ctx 0) (update_state (\<lambda>s. s\<lparr>ls_token_usage := usage_default,
      ls_last_token_usage := usage_default\<rparr>)) ?S ?E"
    by (simp add: triple_def update_state_def smodify_def)
  show ?thesis
    unfolding begin_run_def
    by (intro triple_bind [OF triple_read [where Q = ?S]] triple_if triple_return triple_bind [OF reset]
        triple_bind [OF triple_option [OF _ weak [OF set]]] triple_bind [OF before] triple_option triple_bind [OF user])
      simp_all
qed

lemma run_agent_loop_sound:
  assumes "sound_compressor sv" "honest_executor sv" "polite_hooks sv"
    and "run_agent_loop sv st inp e = Some (r, c')" "sound_history (ls_messages st)"
  shows "r = Inl Panic \<or> sound_history (history c')"
proof -
  let ?c = "initial_context st inp e"
  obtain b :: "loop_abort + loop_run_result option" and c1 where b: "begin_run sv ?c = (b, c1)"
    by (rule prod.exhaust)
  have "sound_ctx 0 ?c" using assms(5) by (simp add: initial_context_def sound_upto_0)
  note start = tripleD [OF begin_run_sound [OF assms(3)] this]
  have "r = Inl Panic \<or> sound_ctx 0 c'"
  proof (cases b)
    case (Inl x)
    with b assms(4) start(2) [of x c1] show ?thesis by (auto simp: run_agent_loop_def)
  next
    case (Inr out)
    with b assms(4) start(1) [of out c1] run_turns_invariant [OF run_turn_sound [OF assms(1-3)], of c1 r c']
    show ?thesis by (cases out) (auto simp: run_agent_loop_def)
  qed
  then show ?thesis by (simp add: sound_upto_0)
qed

section \<open>The history between compressions\<close>

abbreviation comp_out :: "'e loop_context \<Rightarrow> compressed_view option" where
  "comp_out c \<equiv> tn_compression_output (cx_turn c)"

lemma comp_out_turn: "keeps cx_turn m \<Longrightarrow> keeps comp_out m"
  by (simp add: keeps_def)

lemma comp_out_keeps [keeping]:
  "keeps comp_out (emit evs)" "keeps comp_out (run_chat_system_transform_sequence sv r)"
  "keeps comp_out (apply_chat_message_hook sv m)" "keeps comp_out (push_message sv m)" "keeps comp_out (push_raw m)"
  "keeps comp_out pop_message" "keeps comp_out (append_assistant_to_history sv)" "keeps comp_out (run_estimate sv)"
  "keeps comp_out (emit_tool_event sv cid name inp pv err)" "keeps comp_out (emit_tool_result_event sv tr)"
proof -
  have "keeps cx_turn (apply_chat_message_hook sv m)"
    by (auto simp: keeps_def apply_chat_message_hook_def env_call_def split: prod.split)
  then show "keeps comp_out (apply_chat_message_hook sv m)" by (rule comp_out_turn)
qed (rule comp_out_turn, rule keeping)+

lemma comp_out_phases [keeping]:
  "keeps comp_out (build_messages sv)" "keeps comp_out (llm_call sv)" "keeps comp_out normalize_calls"
  "keeps comp_out (record_tool_results sv rs)"
proof -
  show "keeps comp_out (build_messages sv)"
    unfolding build_messages_def update_turn_def by (intro keeping; simp)
  show "keeps comp_out (llm_call sv)"
    unfolding llm_call_def llm_call_request_def finish_llm_call_def cancelled_stream_def update_kv_cache_def
      update_turn_def update_state_def
    by (intro keeping; simp)
  show "keeps comp_out normalize_calls"
    unfolding normalize_calls_def update_turn_def by (intro keeping; simp)
  have one: "keeps comp_out (record_tool_result sv r acc)" for r acc
    unfolding record_tool_result_def tool_result_message_def update_state_def update_turn_def Let_def
    by (intro keeping; simp)
  have "keeps comp_out (record_results sv rs acc)" for acc
    by (induction rs arbitrary: acc) (auto intro: keeping one)
  then show "keeps comp_out (record_tool_results sv rs)"
    unfolding record_tool_results_def update_turn_def by (intro keeping; simp)
qed

text \<open>A property of the history that holds as long as the turn has not compressed it.\<close>

definition unless_compressed :: "(chat_message list \<Rightarrow> bool) \<Rightarrow> 'e loop_context \<Rightarrow> bool" where
  "unless_compressed Q c \<longleftrightarrow> comp_out c \<noteq> None \<or> Q (history c)"

lemma unless_keeps:
  assumes "keeps history m" "keeps comp_out m"
  shows "preserves (unless_compressed Q) m"
proof -
  have "keeps (\<lambda>c. (comp_out c, history c)) m" using assms by (simp add: keeps_def)
  from preserves_keeps [OF this, of "\<lambda>(o', h). o' \<noteq> None \<or> Q h"]
  show ?thesis by (simp add: unless_compressed_def [abs_def])
qed

lemma unless_step:
  assumes "\<And>ms. Q ms \<Longrightarrow> Q' (f ms)"
  shows "triple (unless_compressed Q) (update_state (\<lambda>s. s\<lparr>ls_messages := f (ls_messages s)\<rparr>)) (\<lambda>_. unless_compressed Q') E"
  using assms by (auto simp: triple_def update_state_def smodify_def unless_compressed_def)

lemma unless_compress [preserving]: "preserves (unless_compressed Q) (compress sv trigger)"
proof -
  have view: "preserves (unless_compressed Q) (install_view sv v)" for v
    by (simp add: preserves_def triple_def install_view_def sbind_def update_state_def update_turn_def smodify_def
        unless_compressed_def)
  show ?thesis
    unfolding compress_def by (intro preserving view unless_keeps keeping; simp)
qed

lemma unless_phases [preserving]:
  "preserves (unless_compressed Q) (build_messages sv)" "preserves (unless_compressed Q) (pre_check_token_budget sv)"
  "preserves (unless_compressed Q) (llm_call_with_recovery sv)" "preserves (unless_compressed Q) normalize_calls"
proof -
  show b: "preserves (unless_compressed Q) (build_messages sv)" by (intro unless_keeps keeping)
  show "preserves (unless_compressed Q) (pre_check_token_budget sv)"
    unfolding pre_check_token_budget_def by (intro preserving b unless_keeps keeping)
  show "preserves (unless_compressed Q) (llm_call_with_recovery sv)"
    unfolding llm_call_with_recovery_def by (intro preserving b unless_keeps keeping)
  show "preserves (unless_compressed Q) normalize_calls" by (intro unless_keeps keeping)
qed

lemma unless_push [preserving]:
  "preserves (unless_compressed (prefix H)) (push_message sv m)"
  unfolding preserves_def push_message_def push_raw_def by (rule unless_step) simp

lemma unless_retry: "preserves (unless_compressed (prefix H)) (retry_invalid_call sv call)"
proof -
  let ?P = "unless_compressed (prefix H)" and ?Q = "unless_compressed (\<lambda>ms. prefix H (butlast ms))"
  let ?body = "sbind (smap_err retry_error (build_messages sv)) (\<lambda>_. llm_call_with_recovery sv)"
  have push: "triple ?P (push_raw m) (\<lambda>_. ?Q) (\<lambda>_. ?P)" for m
    unfolding push_raw_def by (rule unless_step) simp
  have pop: "triple ?Q pop_message (\<lambda>_. ?P) (\<lambda>_. ?P)"
    unfolding pop_message_def by (rule unless_step)
  have "preserves ?Q ?body" by (intro preserving)
  then have again: "triple ?Q (stry ?body) (\<lambda>_. ?Q) (\<lambda>_. ?P)"
    unfolding preserves_def by (rule triple_try)
  have now: "triple ?P (env_call (sv_now sv)) (\<lambda>_. ?P) (\<lambda>_. ?P)"
    by (rule triple_env_call) (simp add: unless_compressed_def)
  have norm: "triple ?P normalize_calls (\<lambda>_. ?P) (\<lambda>_. ?P)"
    using unless_phases(4) unfolding preserves_def .
  show ?thesis
    unfolding preserves_def retry_invalid_call_def
    by (rule triple_bind [OF now], rule triple_bind [OF push], rule triple_bind [OF again], rule triple_bind [OF pop],
        rule triple_bind [OF triple_result [where Q = "\<lambda>_. ?P"]], simp, simp, rule norm)
qed

lemma unless_process: "preserves (unless_compressed (prefix H)) (process_llm_tool_calls sv)"
proof -
  have upd: "preserves (unless_compressed (prefix H)) (update_turn (\<lambda>t. t\<lparr>tn_assistant_message := g t\<rparr>))" for g
    by (simp add: preserves_def triple_def update_turn_def smodify_def unless_compressed_def)
  have app: "preserves (unless_compressed (prefix H)) (append_assistant_to_history sv)"
    unfolding append_assistant_to_history_def by (intro preserving unless_keeps keeping; simp)
  show ?thesis
    unfolding process_llm_tool_calls_def Let_def
    by (intro preserving unless_retry upd app unless_keeps keeping)
qed

lemma unless_record: "preserves (unless_compressed (prefix H)) (record_tool_results sv rs)"
proof -
  let ?P = "unless_compressed (prefix H)"
  have upd: "preserves ?P (update_turn (\<lambda>t. t\<lparr>tn_tool_results := g t\<rparr>))"
    "preserves ?P (update_turn (\<lambda>t. t\<lparr>tn_force_return_complete := b\<rparr>))"
    "preserves ?P (update_state (\<lambda>s. s\<lparr>ls_tool_executed := True\<rparr>))" for g b
    by (simp_all add: preserves_def triple_def update_turn_def update_state_def smodify_def unless_compressed_def)
  have streak: "preserves ?P (sbind (sread (\<lambda>c. update_tool_streak h js (cx_state c) r)) (\<lambda>(n, s').
      sbind (update_state (\<lambda>_. s')) (k n)))" if "\<And>n a. preserves ?P (k n a)" for h js r and k :: "rstr option \<Rightarrow> unit \<Rightarrow> ('a loop_context, loop_abort, recorded) step"
  proof -
    have install: "triple (\<lambda>c. ?P c \<and> ls_messages s' = history c) (update_state (\<lambda>_. s')) (\<lambda>_. ?P) (\<lambda>_. ?P)" for s'
      by (simp add: triple_def update_state_def smodify_def unless_compressed_def)
    have "triple (case p of (n, s') \<Rightarrow> \<lambda>c. ?P c \<and> ls_messages s' = history c)
        (case p of (n, s') \<Rightarrow> sbind (update_state (\<lambda>_. s')) (k n)) (\<lambda>_. ?P) (\<lambda>_. ?P)" for p
      by (cases p) (simp only: prod.case, rule triple_bind [OF install that [unfolded preserves_def]])
    then show ?thesis
      unfolding preserves_def
      by (rule triple_bind [where R = "\<lambda>p. case p of (n, s') \<Rightarrow> \<lambda>c. ?P c \<and> ls_messages s' = history c", rotated])
        (rule triple_read, simp add: split_beta)
  qed
  have msg: "preserves ?P (tool_result_message sv r)" for r
    unfolding tool_result_message_def Let_def by (intro preserving unless_keeps keeping; simp)
  have one: "preserves ?P (record_tool_result sv r acc)" for r acc
    unfolding record_tool_result_def Let_def
    by (intro preserving upd streak msg unless_keeps keeping)
  have "preserves ?P (record_results sv rs acc)" for acc
    by (induction rs arbitrary: acc) (auto intro: preserving one)
  then show ?thesis
    unfolding record_tool_results_def by (intro preserving upd)
qed

lemma unless_tools: "preserves (unless_compressed (prefix H)) (run_tools sv)"
proof -
  have app: "preserves (unless_compressed (prefix H)) (append_assistant_to_history sv)"
    unfolding append_assistant_to_history_def by (intro preserving unless_keeps keeping; simp)
  show ?thesis
    unfolding run_tools_def run_batch_def
    by (intro preserving app unless_process unless_record unless_keeps keeping; simp)
qed

lemma unless_start:
  "triple (\<lambda>c. history c = H) (start_turn sv) (\<lambda>_. unless_compressed (prefix H)) (\<lambda>_ _. True)"
proof -
  let ?P = "unless_compressed (prefix H)"
  have new: "triple (\<lambda>c. history c = H) (update_turn f) (\<lambda>_. ?P) (\<lambda>_ _. True)" for f
    by (simp add: triple_def update_turn_def smodify_def unless_compressed_def)
  have drain: "preserves ?P (drain_pending_user_messages sv)"
    unfolding drain_pending_user_messages_def by (intro preserving unless_keeps keeping; simp)
  have "preserves ?P (sbind (sread turn_number) (\<lambda>n.
      sbind (emit [TurnStart n]) (\<lambda>_. drain_pending_user_messages sv)))"
    by (intro preserves_bind preserves_basic unless_keeps [OF emit_keeps(1) comp_out_keeps(1)] drain)
  then show ?thesis
    unfolding start_turn_def preserves_def
    by (intro triple_bind [OF new]) (erule triple_weaken; simp)
qed

definition ex_response :: "tool_use_block list \<Rightarrow> llm_response" where
  "ex_response calls = \<lparr>rp_message = ex_answer_with calls, rp_kv_cache_chunk_hashes = []\<rparr>"

text \<open>Running the turns with a bound on their number, to evaluate a run.\<close>

primrec turns_within :: "nat \<Rightarrow> 'e services \<Rightarrow> 'e loop_context \<Rightarrow>
    ((loop_abort + loop_run_result) \<times> 'e loop_context) option" where
  "turns_within 0 sv c = None"
| "turns_within (Suc n) sv c =
     (case run_turn sv c of
        (Inl x, c') \<Rightarrow> Some (Inl x, c')
      | (Inr (Some r), c') \<Rightarrow> Some (Inr r, c')
      | (Inr None, c') \<Rightarrow> turns_within n sv c')"

lemma turns_within_run: "turns_within n sv c = Some y \<Longrightarrow> run_turns sv c = Some y"
  by (induction n arbitrary: c)
    (subst run_turns.simps, auto split: prod.splits sum.splits option.splits)+

definition run_within :: "nat \<Rightarrow> 'e services \<Rightarrow> loop_state \<Rightarrow> agent_loop_input \<Rightarrow> 'e \<Rightarrow>
    ((loop_abort + loop_run_result) \<times> 'e loop_context) option" where
  "run_within n sv state input e =
     (case begin_run sv (initial_context state input e) of
        (Inl x, c) \<Rightarrow> Some (Inl x, c)
      | (Inr (Some r), c) \<Rightarrow> Some (Inr r, c)
      | (Inr None, c) \<Rightarrow> turns_within n sv c)"

lemma run_within_run: "run_within n sv state input e = Some y \<Longrightarrow> run_agent_loop sv state input e = Some y"
  unfolding run_within_def run_agent_loop_def
  by (auto split: prod.splits sum.splits option.splits intro: turns_within_run)

definition ex_tool_turn :: "llm_response list loop_context" where
  "ex_tool_turn = (ex_context None)\<lparr>cx_env := [ex_response [ex_call (lit ''a'') (lit ''read'')]]\<rparr>"

lemma ex_tool_turn_runs:
  "map_prod is_ok (\<lambda>c. (tn_compression_output (cx_turn c) = None, map role (history c)))
     (run_phases ex_services ex_tool_turn) = (True, True, [User, Assistant, Tool])"
  by code_simp

section \<open>Properties\<close>

text \<open>
  C4: a run with a limit on its turns ends. Whatever the provider, the tools and the plugins answer,
  the loop returns a result or an error after at most \<open>max_turns\<close> turns, because the decision of
  the last allowed turn never continues.
\<close>

theorem run_terminates:
  assumes "0 < rs_max_turns (sv_snapshot sv)"
  shows "\<exists>r c'. run_agent_loop sv st inp e = Some (r, c') \<and> turn_number c' \<le> rs_max_turns (sv_snapshot sv)"
proof -
  let ?c = "initial_context st inp e"
  obtain b :: "loop_abort + loop_run_result option" and c1 where b: "begin_run sv ?c = (b, c1)"
    by (rule prod.exhaust)
  have "turn_number c1 = 1"
    using begin_run_keeps [of sv] b unfolding keeps_def
    by (metis initial_context_def loop_context.select_convs(3) snd_conv turn_state.select_convs(1) turn_state_new_def)
  with b assms run_turns_end [OF assms, of c1] show ?thesis
    by (auto simp: run_agent_loop_def split: sum.split option.split)
qed

theorem run_terminates_witness:
  "\<exists>r c'. run_agent_loop ex_services (loop_state_new (lit ''s'')) ex_input
       [ex_response [ex_call (lit ''a'') (lit ''read'')], ex_response []] = Some (r, c') \<and> turn_number c' \<le> 3"
  using run_terminates [of ex_services "loop_state_new (lit ''s'')" ex_input
      "[ex_response [ex_call (lit ''a'') (lit ''read'')], ex_response []]"]
  by (simp add: ex_snapshot_def)

text \<open>
  C17: between compressions the history only grows. A turn whose phases end without having compressed
  the history leaves everything that was there as the beginning of the new history, so the requests
  keep a common prefix; this includes the retry of an invalid tool call, whose error result is
  removed again.
\<close>

theorem history_append_only:
  assumes "run_phases sv c = (Inr susp, c')" "tn_compression_output (cx_turn c') = None"
  shows "prefix (history c) (history c')"
proof -
  let ?P = "unless_compressed (prefix (history c))"
  have weak: "triple ?P m (\<lambda>_. ?P) (\<lambda>_ _. True)" if "preserves ?P m" for m :: "('a loop_context, loop_abort, 'z) step"
    using that unfolding preserves_def by (rule triple_weaken) simp_all
  have "triple (\<lambda>c'. history c' = history c) (run_phases sv) (\<lambda>_. ?P) (\<lambda>_ _. True)"
    unfolding run_phases_def
    by (intro triple_bind [OF unless_start] triple_bind [OF weak] weak preserving unless_tools)
  from tripleD(1) [OF this refl assms(1)] assms(2) show ?thesis
    by (simp add: unless_compressed_def)
qed

theorem history_append_only_witness:
  "\<exists>susp c'. run_phases ex_services ex_tool_turn = (Inr susp, c') \<and> tn_compression_output (cx_turn c') = None \<and>
     prefix [chat_user (lit ''go'')] (history c') \<and> length (history c') = 3"
proof -
  obtain r c' where r: "run_phases ex_services ex_tool_turn = (r, c')" by (rule prod.exhaust)
  with ex_tool_turn_runs obtain susp where s: "r = Inr susp" "tn_compression_output (cx_turn c') = None"
    "map role (history c') = [User, Assistant, Tool]"
    by (auto simp: is_ok_def split: sum.splits)
  moreover have "length (history c') = 3" using arg_cong [OF s(3), of length] by simp
  moreover have "history ex_tool_turn = [chat_user (lit ''go'')]" by (simp add: ex_tool_turn_def ex_context_def)
  ultimately show ?thesis
    using history_append_only [of ex_services ex_tool_turn susp c'] r by auto
qed

end
