(* ===== verification/Subagent.thy ===== *)
theory Subagent
  imports Messages "HOL-Library.List_Lexorder"
begin

text \<open>
  The coordinator of subagents (\<open>crates/subagent/src\<close>): which agents of a session run, who waits for
  whom, and the host actions that carry out a decision. A \<open>BTreeMap\<close> with string keys is an
  association list kept in the order of its keys. The id a join gets from \<open>Ulid::new\<close> is an argument,
  as is the pretty printer of \<open>serde_json\<close>. The lemmas show that each join is suspended once and
  woken once, exactly when its target ends, and that the limit on running subagents holds.
\<close>

section \<open>Ordered maps\<close>

type_synonym 'v btree = "(rstr \<times> 'v) list"

fun bt_insert :: "rstr \<Rightarrow> 'v \<Rightarrow> 'v btree \<Rightarrow> 'v btree" where
  "bt_insert k v [] = [(k, v)]"
| "bt_insert k v ((k', v') # xs) =
     (if k = k' then (k, v) # xs
      else if k < k' then (k, v) # (k', v') # xs
      else (k', v') # bt_insert k v xs)"

definition bt_update :: "rstr \<Rightarrow> ('v \<Rightarrow> 'v) \<Rightarrow> 'v btree \<Rightarrow> 'v btree" where
  "bt_update k f xs = map (\<lambda>(k', v). (k', if k' = k then f v else v)) xs"

definition bt_ok :: "'v btree \<Rightarrow> bool" where
  "bt_ok xs \<longleftrightarrow> sorted_wrt (<) (map fst xs)"

lemma bt_insert_keys: "fst ` set (bt_insert k v xs) = insert k (fst ` set xs)"
  by (induction k v xs rule: bt_insert.induct) (simp_all add: insert_commute)

lemma bt_insert_ok [intro]: "bt_ok xs \<Longrightarrow> bt_ok (bt_insert k v xs)"
proof (induction k v xs rule: bt_insert.induct)
  case (2 k v k' v' xs)
  have keys: "\<forall>y \<in> fst ` set (bt_insert k v xs). k' < y" if "k' < k" "\<forall>y \<in> fst ` set xs. k' < y"
    using that unfolding bt_insert_keys by simp
  from 2 show ?case
    by (cases k k' rule: linorder_cases) (auto simp: bt_ok_def dest: keys)
qed (simp add: bt_ok_def)

lemma bt_insert_get: "bt_ok xs \<Longrightarrow> map_of (bt_insert k v xs) = (map_of xs)(k \<mapsto> v)"
proof (induction xs)
  case (Cons x xs)
  then show ?case by (cases x) (auto simp: bt_ok_def fun_eq_iff)
qed simp

lemma bt_update_get [simp]: "map_of (bt_update k f xs) = (map_of xs)(k := map_option f (map_of xs k))"
  by (induction xs) (auto simp: bt_update_def fun_eq_iff)

lemma bt_update_ok [simp]: "bt_ok (bt_update k f xs) \<longleftrightarrow> bt_ok xs"
  by (simp add: bt_ok_def bt_update_def comp_def case_prod_unfold)

lemma bt_distinct: "bt_ok xs \<Longrightarrow> distinct (map fst xs)"
  unfolding bt_ok_def using strict_sorted_iff by blast

section \<open>State\<close>

datatype subagent_status =
  SaRunning | SaCompleted | SaFailed | SaCancelled | SaMaxTurnsReached | SaBudgetExhausted

fun is_terminal :: "subagent_status \<Rightarrow> bool" where
  "is_terminal SaRunning = False"
| "is_terminal _ = True"

datatype terminal_kind = TkCompleted | TkFailed | TkCancelled | TkMaxTurnsReached | TkBudgetExhausted

record terminal_snapshot =
  tm_status :: terminal_kind
  tm_reply :: "rstr option"
  tm_error :: "rstr option"
  tm_completed_at_ms :: nat

record subagent_record =
  sa_agent_id :: rstr
  sa_parent_agent_id :: "rstr option"
  sa_description :: rstr
  sa_prompt :: rstr
  sa_output_schema :: "json option"
  sa_status :: subagent_status
  sa_created_at_ms :: nat
  sa_updated_at_ms :: nat
  sa_last_terminal :: "terminal_snapshot option"

datatype join_status = JoinPending | JoinSatisfied

record join_record =
  jn_join_id :: rstr
  jn_waiter_agent_id :: rstr
  jn_target_agent_id :: rstr
  jn_status :: join_status
  jn_created_at_ms :: nat
  jn_resolved_at_ms :: "nat option"

record mailbox_item =
  mb_agent_id :: rstr
  mb_parent_agent_id :: "rstr option"
  mb_status :: terminal_kind
  mb_summary :: rstr
  mb_completed_at_ms :: nat

record subagent_state =
  ss_agents :: "subagent_record btree"
  ss_joins :: "join_record btree"
  ss_mailbox :: "mailbox_item list"

definition subagent_state_default :: subagent_state where
  "subagent_state_default = \<lparr>ss_agents = [], ss_joins = [], ss_mailbox = []\<rparr>"

text \<open>
  The host actions the coordinator makes. The two actions that carry an interaction are never made
  and their handler only logs them, so they are left out.
\<close>

datatype host_action =
    SpawnWorker rstr rstr rstr rstr "json option" "nat option"
  | SuspendWaiter rstr rstr rstr
  | WakeWaiter rstr rstr terminal_snapshot
  | EnqueueMailboxItem mailbox_item

datatype control_error =
    AgentNotFound rstr
  | SessionMismatch rstr rstr
  | SelfJoin rstr
  | MissingTerminalSnapshot rstr
  | InvalidState rstr
  | Unavailable rstr

record spawn_request =
  sp_session_id :: rstr
  sp_parent_agent_id :: rstr
  sp_description :: rstr
  sp_task_goal :: rstr
  sp_task_context :: rstr
  sp_output_schema :: "json option"
  sp_subagent_role_id :: "rstr option"
  sp_predefined_prompt :: "rstr option"
  sp_max_turns :: "nat option"

record join_request =
  jr_session_id :: rstr
  jr_waiter_agent_id :: rstr
  jr_target_agent_id :: rstr

datatype join_result = JoinReady terminal_snapshot | JoinWaiting rstr

datatype join_decision =
    DecideImmediate join_result "host_action list"
  | DecidePending join_result "host_action list"

section \<open>Prompts\<close>

definition subagent_prompt_template :: rstr where
  "subagent_prompt_template =
     lit ''You are a subagent summoned by a parent agent.'' @ [10] @
     [10] @
     lit ''For general conversations and non-sensitive tasks, respond normally without enabling security verification. When tasks involve secrets, credentials, or sensitive files, enable the security verification mechanism.'' @ [10] @
     [10] @
     lit ''Your primary goal is:'' @ [10] @
     lit ''{{task_goal}}'' @ [10] @
     [10] @
     lit ''Task Context:'' @ [10] @
     lit ''{{task_context}}'' @ [10] @
     [10] @
     lit ''You are a disposable exploration worker: your reads, greps, and command output are discarded when you finish '' @ [8212] @ lit '' only your final reply returns to the parent. Therefore your final reply MUST be a DISTILLED summary, not a transcript: report the exact file:line locations and the few snippets that actually answer the goal, plus a short conclusion. Do NOT paste whole files, full search output, or evidence the parent does not need to act. Be exact where the goal asks for a count, comparison, or location; never approximate or truncate the answer itself.'' @ [10] @
     [10] @
     lit ''{{output_schema_section}}'' @ [10]"

definition build_prompt :: "(json \<Rightarrow> rstr option) \<Rightarrow> rstr \<Rightarrow> rstr \<Rightarrow> json option \<Rightarrow> rstr" where
  "build_prompt to_string_pretty task_goal task_context output_schema =
     (let schema_section = (case output_schema of
            Some schema \<Rightarrow>
              lit ''You MUST conclude your task by producing a final result that strictly adheres to the following JSON schema. Do not include any other explanatory text in your final finish/terminal reply, ONLY the JSON matching this schema:'' @ [10] @
              (case to_string_pretty schema of Some text \<Rightarrow> text | None \<Rightarrow> lit ''{}'')
          | None \<Rightarrow> lit ''Conclude your task by providing a clear, concise summary of your findings.'');
          template = rev (dropWhile (\<lambda>c. c = 13 \<or> c = 10) (rev subagent_prompt_template))
      in str_replace (str_replace (str_replace template
           (lit ''{{task_goal}}'') task_goal)
           (lit ''{{task_context}}'') task_context)
           (lit ''{{output_schema_section}}'') schema_section)"

definition build_with_predefined_prompt :: "rstr \<Rightarrow> rstr \<Rightarrow> rstr" where
  "build_with_predefined_prompt predefined_prompt task_context =
     predefined_prompt @
     (if task_context = [] then []
      else [10, 10] @ lit ''Additional Task Context:'' @ [10] @ task_context)"

section \<open>Coordinator\<close>

definition max_subagents_per_session :: nat where
  "max_subagents_per_session = 10"

definition running_count :: "subagent_state \<Rightarrow> nat" where
  "running_count s = length (filter (\<lambda>r. sa_status r = SaRunning) (map snd (ss_agents s)))"

definition coordinator_spawn ::
  "(json \<Rightarrow> rstr option) \<Rightarrow> nat \<Rightarrow> subagent_state \<Rightarrow> spawn_request \<Rightarrow> rstr \<Rightarrow> nat \<Rightarrow>
   control_error + (rstr \<times> host_action list) \<times> subagent_state" where
  "coordinator_spawn to_string_pretty max_subagents s request child created_at_ms =
     (if map_of (ss_agents s) (sp_parent_agent_id request) \<noteq> None then
        Inl (InvalidState (lit ''nested subagents are not allowed: caller '' @ sp_parent_agent_id request @
          lit '' is already a subagent''))
      else if max_subagents \<le> running_count s then
        Inl (InvalidState (lit ''maximum number of concurrent subagents ('' @ dec max_subagents @
          lit '') reached for this session''))
      else if map_of (ss_agents s) child \<noteq> None then
        Inl (InvalidState (lit ''duplicate subagent id: '' @ child))
      else
        let built_prompt = (case sp_predefined_prompt request of
              Some predefined \<Rightarrow> build_with_predefined_prompt predefined (sp_task_context request)
            | None \<Rightarrow> build_prompt to_string_pretty (sp_task_goal request) (sp_task_context request)
                (sp_output_schema request));
            record = \<lparr>sa_agent_id = child, sa_parent_agent_id = Some (sp_parent_agent_id request),
              sa_description = sp_description request, sa_prompt = built_prompt,
              sa_output_schema = sp_output_schema request, sa_status = SaRunning,
              sa_created_at_ms = created_at_ms, sa_updated_at_ms = created_at_ms,
              sa_last_terminal = None\<rparr>
        in Inr ((child,
             [SpawnWorker child (sp_parent_agent_id request) (sp_description request) built_prompt
                (sp_output_schema request) (sp_max_turns request)]),
             s\<lparr>ss_agents := bt_insert child record (ss_agents s)\<rparr>))"

definition new_join :: "join_request \<Rightarrow> rstr \<Rightarrow> nat \<Rightarrow> join_record" where
  "new_join request join_id created_at_ms =
     \<lparr>jn_join_id = join_id, jn_waiter_agent_id = jr_waiter_agent_id request,
      jn_target_agent_id = jr_target_agent_id request, jn_status = JoinPending,
      jn_created_at_ms = created_at_ms, jn_resolved_at_ms = None\<rparr>"

definition coordinator_join ::
  "subagent_state \<Rightarrow> join_request \<Rightarrow> rstr \<Rightarrow> nat \<Rightarrow> control_error + join_decision \<times> subagent_state" where
  "coordinator_join s request join_id created_at_ms =
     (if jr_waiter_agent_id request = jr_target_agent_id request then
        Inl (SelfJoin (jr_waiter_agent_id request))
      else case map_of (ss_agents s) (jr_target_agent_id request) of
        None \<Rightarrow> Inl (AgentNotFound (jr_target_agent_id request))
      | Some target \<Rightarrow>
          if is_terminal (sa_status target) then
            (case sa_last_terminal target of
               None \<Rightarrow> Inl (MissingTerminalSnapshot (jr_target_agent_id request))
             | Some terminal \<Rightarrow> Inr (DecideImmediate (JoinReady terminal) [], s))
          else
            Inr (DecidePending (JoinWaiting join_id)
                   [SuspendWaiter join_id (jr_waiter_agent_id request) (jr_target_agent_id request)],
                 s\<lparr>ss_joins := bt_insert join_id (new_join request join_id created_at_ms) (ss_joins s)\<rparr>))"

fun terminal_kind_to_status :: "terminal_kind \<Rightarrow> subagent_status" where
  "terminal_kind_to_status TkCompleted = SaCompleted"
| "terminal_kind_to_status TkFailed = SaFailed"
| "terminal_kind_to_status TkCancelled = SaCancelled"
| "terminal_kind_to_status TkMaxTurnsReached = SaMaxTurnsReached"
| "terminal_kind_to_status TkBudgetExhausted = SaBudgetExhausted"

definition waits_for :: "rstr \<Rightarrow> join_record \<Rightarrow> bool" where
  "waits_for agent_id jr \<longleftrightarrow> jn_target_agent_id jr = agent_id \<and> jn_status jr = JoinPending"

definition satisfy_join :: "nat \<Rightarrow> join_record \<Rightarrow> join_record" where
  "satisfy_join completed_at_ms jr =
     jr\<lparr>jn_status := JoinSatisfied, jn_resolved_at_ms := Some completed_at_ms\<rparr>"

definition terminal_summary :: "rstr \<Rightarrow> terminal_snapshot \<Rightarrow> rstr" where
  "terminal_summary agent_id terminal =
     (case tm_reply terminal of
        Some reply \<Rightarrow> reply
      | None \<Rightarrow> (case tm_error terminal of
          Some error \<Rightarrow> error
        | None \<Rightarrow> lit ''subagent '' @ agent_id @ lit '' finished''))"

definition on_terminal ::
  "subagent_state \<Rightarrow> rstr \<Rightarrow> terminal_snapshot \<Rightarrow> control_error + host_action list \<times> subagent_state" where
  "on_terminal s agent_id terminal =
     (case map_of (ss_agents s) agent_id of
        None \<Rightarrow> Inl (AgentNotFound agent_id)
      | Some record \<Rightarrow>
          let item = EnqueueMailboxItem \<lparr>mb_agent_id = agent_id,
                mb_parent_agent_id = sa_parent_agent_id record, mb_status = tm_status terminal,
                mb_summary = terminal_summary agent_id terminal,
                mb_completed_at_ms = tm_completed_at_ms terminal\<rparr>;
              woken = filter (waits_for agent_id) (map snd (ss_joins s))
          in Inr (item # map (\<lambda>jr. WakeWaiter (jn_join_id jr) (jn_waiter_agent_id jr) terminal) woken,
               s\<lparr>ss_agents := bt_update agent_id (\<lambda>r. r\<lparr>
                     sa_status := terminal_kind_to_status (tm_status terminal),
                     sa_updated_at_ms := tm_completed_at_ms terminal,
                     sa_last_terminal := Some terminal\<rparr>) (ss_agents s),
                 ss_joins := map (\<lambda>(k, jr).
                     (k, if waits_for agent_id jr then satisfy_join (tm_completed_at_ms terminal) jr
                         else jr)) (ss_joins s)\<rparr>))"

section \<open>Runs of the coordinator\<close>

text \<open>
  The operations of a session run one after the other under its lock. A failing operation changes
  nothing. The state comes with the host actions made so far. A join id is new: \<open>Ulid::new\<close> does not
  repeat. The host puts mailbox items into the mailbox.
\<close>

fun decision_actions :: "join_decision \<Rightarrow> host_action list" where
  "decision_actions (DecideImmediate r acts) = acts"
| "decision_actions (DecidePending r acts) = acts"

inductive sub_step ::
  "(json \<Rightarrow> rstr option) \<Rightarrow> nat \<Rightarrow> subagent_state \<times> host_action list \<Rightarrow>
   subagent_state \<times> host_action list \<Rightarrow> bool" for pp mx where
  spawned: "coordinator_spawn pp mx s request child now = Inr ((child', acts), s') \<Longrightarrow>
     sub_step pp mx (s, lg) (s', lg @ acts)"
| joined: "map_of (ss_joins s) join_id = None \<Longrightarrow> coordinator_join s request join_id now = Inr (d, s') \<Longrightarrow>
     sub_step pp mx (s, lg) (s', lg @ decision_actions d)"
| ended: "on_terminal s agent_id terminal = Inr (acts, s') \<Longrightarrow> sub_step pp mx (s, lg) (s', lg @ acts)"
| mailed: "sub_step pp mx (s, lg) (s\<lparr>ss_mailbox := ss_mailbox s @ [item]\<rparr>, lg)"

inductive_cases sub_stepE: "sub_step pp mx (s, lg) y"

fun suspends :: "rstr \<Rightarrow> host_action \<Rightarrow> bool" where
  "suspends j (SuspendWaiter j' w t) = (j' = j)"
| "suspends j _ = False"

fun wakes :: "rstr \<Rightarrow> host_action \<Rightarrow> bool" where
  "wakes j (WakeWaiter j' w t) = (j' = j)"
| "wakes j _ = False"

definition occurs :: "('a \<Rightarrow> bool) \<Rightarrow> 'a list \<Rightarrow> nat" where
  "occurs P xs = length (filter P xs)"

lemma occurs_simps [simp]:
  "occurs P [] = 0" "occurs P (x # xs) = (if P x then Suc (occurs P xs) else occurs P xs)"
  "occurs P (xs @ ys) = occurs P xs + occurs P ys" "occurs P (map f xs) = occurs (\<lambda>x. P (f x)) xs"
  by (simp_all add: occurs_def filter_map comp_def)

lemma occurs_0 [simp]: "(\<And>x. x \<in> set xs \<Longrightarrow> \<not> P x) \<Longrightarrow> occurs P xs = 0"
  by (simp add: occurs_def filter_empty_conv)

lemma occurs_key:
  "distinct (map fst xs) \<Longrightarrow>
   occurs (\<lambda>x. fst x = j \<and> P (snd x)) xs = (case map_of xs j of Some v \<Rightarrow> if P v then 1 else 0 | None \<Rightarrow> 0)"
proof (induction xs)
  case (Cons x xs)
  have "occurs (\<lambda>x. fst x = j \<and> P (snd x)) xs = 0" if "j \<notin> fst ` set xs"
    using that by (intro occurs_0) auto
  with Cons show ?case by (cases x) (auto split: option.split dest: map_of_SomeD intro: rev_image_eqI)
qed simp

section \<open>Invariants\<close>

definition agents_ok :: "subagent_state \<Rightarrow> bool" where
  "agents_ok s \<longleftrightarrow> bt_ok (ss_agents s) \<and>
     (\<forall>k a. map_of (ss_agents s) k = Some a \<longrightarrow>
        (case sa_last_terminal a of
           None \<Rightarrow> sa_status a = SaRunning
         | Some t \<Rightarrow> sa_status a = terminal_kind_to_status (tm_status t)))"

definition joins_ok :: "subagent_state \<Rightarrow> bool" where
  "joins_ok s \<longleftrightarrow> bt_ok (ss_joins s) \<and>
     (\<forall>k r. map_of (ss_joins s) k = Some r \<longrightarrow> jn_join_id r = k \<and>
        (\<exists>a. map_of (ss_agents s) (jn_target_agent_id r) = Some a \<and>
           (jn_status r = JoinPending \<longleftrightarrow> sa_status a = SaRunning)))"

definition log_ok :: "subagent_state \<Rightarrow> host_action list \<Rightarrow> bool" where
  "log_ok s lg \<longleftrightarrow>
     (\<forall>j. occurs (suspends j) lg = (if map_of (ss_joins s) j = None then 0 else 1) \<and>
        occurs (wakes j) lg =
          (case map_of (ss_joins s) j of Some r \<Rightarrow> if jn_status r = JoinSatisfied then 1 else 0 | None \<Rightarrow> 0)) \<and>
     (\<forall>j w t. WakeWaiter j w t \<in> set lg \<longrightarrow>
        (\<exists>r. map_of (ss_joins s) j = Some r \<and> jn_waiter_agent_id r = w))"

lemma log_okI:
  assumes "\<And>j. occurs (suspends j) lg = (if map_of (ss_joins s) j = None then 0 else 1)"
    and "\<And>j. occurs (wakes j) lg =
      (case map_of (ss_joins s) j of Some r \<Rightarrow> if jn_status r = JoinSatisfied then 1 else 0 | None \<Rightarrow> 0)"
    and "\<And>j w t. WakeWaiter j w t \<in> set lg \<Longrightarrow> \<exists>r. map_of (ss_joins s) j = Some r \<and> jn_waiter_agent_id r = w"
  shows "log_ok s lg"
  using assms unfolding log_ok_def by blast

lemma log_okD:
  assumes "log_ok s lg"
  shows "occurs (suspends j) lg = (if map_of (ss_joins s) j = None then 0 else 1)"
    "occurs (wakes j) lg =
      (case map_of (ss_joins s) j of Some r \<Rightarrow> if jn_status r = JoinSatisfied then 1 else 0 | None \<Rightarrow> 0)"
    "WakeWaiter j w t \<in> set lg \<Longrightarrow> \<exists>r. map_of (ss_joins s) j = Some r \<and> jn_waiter_agent_id r = w"
  using assms unfolding log_ok_def by blast+

lemma kind_terminal [simp]: "is_terminal (terminal_kind_to_status k)"
  "terminal_kind_to_status k \<noteq> SaRunning" "SaRunning \<noteq> terminal_kind_to_status k"
  by (cases k; simp)+

lemma terminal_iff: "is_terminal st \<longleftrightarrow> st \<noteq> SaRunning"
  by (cases st) auto

lemma spawn_cases:
  assumes "coordinator_spawn pp mx s request child now = Inr ((child', acts), s')"
  obtains r where "child' = child" "s' = s\<lparr>ss_agents := bt_insert child r (ss_agents s)\<rparr>" "sa_status r = SaRunning"
    "sa_last_terminal r = None" "map_of (ss_agents s) child = None" "running_count s < mx"
    "\<forall>j. occurs (suspends j) acts = 0 \<and> occurs (wakes j) acts = 0" "\<forall>j w t. WakeWaiter j w t \<notin> set acts"
  using assms by (auto simp: coordinator_spawn_def Let_def split: if_splits)

lemma join_cases:
  assumes "coordinator_join s request join_id now = Inr (d, s')"
  obtains (ready) "s' = s" "decision_actions d = []"
  | (wait) a where "s' = s\<lparr>ss_joins := bt_insert join_id (new_join request join_id now) (ss_joins s)\<rparr>"
      "map_of (ss_agents s) (jr_target_agent_id request) = Some a" "sa_status a = SaRunning"
      "decision_actions d = [SuspendWaiter join_id (jr_waiter_agent_id request) (jr_target_agent_id request)]"
  using assms by (auto simp: coordinator_join_def terminal_iff split: if_splits option.splits)

lemma satisfy_get:
  "map_of (map (\<lambda>(k, v). (k, f v)) xs) k = map_option f (map_of xs k)"
  by (induction xs) auto

lemma satisfy_ok: "bt_ok (map (\<lambda>(k, v). (k, f v)) xs) \<longleftrightarrow> bt_ok xs"
  by (simp add: bt_ok_def comp_def case_prod_unfold)

lemma terminal_cases:
  assumes "on_terminal s agent_id terminal = Inr (acts, s')"
  obtains a where "map_of (ss_agents s) agent_id = Some a"
    "map_of (ss_agents s') = (map_of (ss_agents s))(agent_id \<mapsto> a\<lparr>
        sa_status := terminal_kind_to_status (tm_status terminal),
        sa_updated_at_ms := tm_completed_at_ms terminal, sa_last_terminal := Some terminal\<rparr>)"
    "bt_ok (ss_agents s') \<longleftrightarrow> bt_ok (ss_agents s)" "bt_ok (ss_joins s') \<longleftrightarrow> bt_ok (ss_joins s)"
    "\<And>k. map_of (ss_joins s') k = map_option (\<lambda>r. if waits_for agent_id r
        then satisfy_join (tm_completed_at_ms terminal) r else r) (map_of (ss_joins s) k)"
    "running_count s' \<le> running_count s"
proof -
  from assms obtain a where a: "map_of (ss_agents s) agent_id = Some a"
    by (auto simp: on_terminal_def split: option.splits)
  have s': "s' = s\<lparr>ss_agents := ss_agents s', ss_joins := ss_joins s'\<rparr>"
      "ss_agents s' = bt_update agent_id (\<lambda>r. r\<lparr>sa_status := terminal_kind_to_status (tm_status terminal),
        sa_updated_at_ms := tm_completed_at_ms terminal, sa_last_terminal := Some terminal\<rparr>) (ss_agents s)"
      "ss_joins s' = map (\<lambda>(k, r). (k, if waits_for agent_id r
        then satisfy_join (tm_completed_at_ms terminal) r else r)) (ss_joins s)"
    using assms a by (auto simp: on_terminal_def Let_def)
  have "length (filter (\<lambda>r. sa_status r = SaRunning) (map snd (bt_update agent_id f xs)))
      \<le> length (filter (\<lambda>r. sa_status r = SaRunning) (map snd xs))"
    if "\<And>r. sa_status (f r) \<noteq> SaRunning" for f and xs :: "subagent_record btree"
    using that by (induction xs) (auto simp: bt_update_def split: if_splits)
  then have "running_count s' \<le> running_count s" by (simp add: running_count_def s'(2))
  moreover have "map_of (ss_joins s') k = map_option (\<lambda>r. if waits_for agent_id r
        then satisfy_join (tm_completed_at_ms terminal) r else r) (map_of (ss_joins s) k)" for k
    unfolding s'(3) by (rule satisfy_get)
  moreover have "bt_ok (ss_joins s') \<longleftrightarrow> bt_ok (ss_joins s)" unfolding s'(3) by (rule satisfy_ok)
  ultimately show ?thesis using a by (intro that) (simp_all add: s'(2))
qed

lemma terminal_actions:
  assumes "on_terminal s agent_id terminal = Inr (acts, s')" "joins_ok s"
  shows "occurs (suspends j) acts = 0"
    "occurs (wakes j) acts = (case map_of (ss_joins s) j of Some r \<Rightarrow> if waits_for agent_id r then 1 else 0 | None \<Rightarrow> 0)"
    "WakeWaiter j w t \<in> set acts \<Longrightarrow> \<exists>r. map_of (ss_joins s) j = Some r \<and> jn_waiter_agent_id r = w"
proof -
  from assms obtain item where acts: "acts = EnqueueMailboxItem item #
      map (\<lambda>r. WakeWaiter (jn_join_id r) (jn_waiter_agent_id r) terminal)
        (filter (waits_for agent_id) (map snd (ss_joins s)))"
    by (auto simp: on_terminal_def Let_def split: option.splits)
  have ok: "bt_ok (ss_joins s)" using assms(2) by (simp add: joins_ok_def)
  note get = map_of_eq_Some_iff [OF bt_distinct [OF ok]]
  have ids: "jn_join_id (snd x) = fst x" if "x \<in> set (ss_joins s)" for x
    using assms(2) that get [of "fst x" "snd x"] by (auto simp: joins_ok_def)
  show "occurs (suspends j) acts = 0" by (auto simp: acts intro!: occurs_0)
  have "occurs (wakes j) acts = occurs (\<lambda>x. jn_join_id (snd x) = j \<and> waits_for agent_id (snd x)) (ss_joins s)"
    by (simp add: acts occurs_def filter_map comp_def conj_commute)
  also have "\<dots> = occurs (\<lambda>x. fst x = j \<and> waits_for agent_id (snd x)) (ss_joins s)"
    unfolding occurs_def by (intro arg_cong [where f = length] filter_cong) (auto simp: ids)
  finally show "occurs (wakes j) acts =
      (case map_of (ss_joins s) j of Some r \<Rightarrow> if waits_for agent_id r then 1 else 0 | None \<Rightarrow> 0)"
    by (simp only: occurs_key [OF bt_distinct [OF ok]])
  assume "WakeWaiter j w t \<in> set acts"
  then obtain x where "x \<in> set (ss_joins s)" "jn_join_id (snd x) = j" "jn_waiter_agent_id (snd x) = w"
    by (auto simp: acts)
  then show "\<exists>r. map_of (ss_joins s) j = Some r \<and> jn_waiter_agent_id r = w"
    using ids [of x] by (intro exI [of _ "snd x"]) (auto simp: get)
qed

definition run_ok :: "nat \<Rightarrow> subagent_state \<times> host_action list \<Rightarrow> bool" where
  "run_ok mx x \<longleftrightarrow> agents_ok (fst x) \<and> joins_ok (fst x) \<and> log_ok (fst x) (snd x) \<and> running_count (fst x) \<le> mx"

lemma new_join_sel [simp]:
  "jn_join_id (new_join q j n) = j" "jn_waiter_agent_id (new_join q j n) = jr_waiter_agent_id q"
  "jn_target_agent_id (new_join q j n) = jr_target_agent_id q" "jn_status (new_join q j n) = JoinPending"
  by (simp_all add: new_join_def)

lemma insert_count:
  "length (filter P (map snd (bt_insert k v xs))) \<le> Suc (length (filter P (map snd xs)))"
  by (induction k v xs rule: bt_insert.induct) auto

lemma spawn_ok:
  assumes "coordinator_spawn pp mx s request child now = Inr ((child', acts), s')" "run_ok mx (s, lg)"
  shows "run_ok mx (s', lg @ acts)"
  using assms(1)
proof (cases rule: spawn_cases)
  case (1 r)
  have ok: "bt_ok (ss_agents s)" using assms(2) by (simp add: run_ok_def agents_ok_def)
  have get: "map_of (ss_agents s') = (map_of (ss_agents s))(child \<mapsto> r)" by (simp add: 1(2) bt_insert_get [OF ok])
  have "agents_ok s'"
    using assms(2) 1(3,4) bt_insert_ok [OF ok] get unfolding run_ok_def agents_ok_def by (auto simp: 1(2))
  moreover have "joins_ok s'"
    using assms(2) 1(5) get unfolding run_ok_def joins_ok_def by (force simp: 1(2))
  moreover have "log_ok s' (lg @ acts)"
    using assms(2) 1(7,8) unfolding run_ok_def log_ok_def by (simp add: 1(2))
  moreover have "running_count s' \<le> mx"
    using 1(6) insert_count [of "\<lambda>r. sa_status r = SaRunning" child r "ss_agents s"]
    by (simp add: running_count_def 1(2))
  ultimately show ?thesis by (simp add: run_ok_def)
qed

lemma join_ok:
  assumes "map_of (ss_joins s) join_id = None" "coordinator_join s request join_id now = Inr (d, s')"
    and "run_ok mx (s, lg)"
  shows "run_ok mx (s', lg @ decision_actions d)"
  using assms(2)
proof (cases rule: join_cases)
  case ready
  then show ?thesis using assms(3) by simp
next
  case (wait a)
  have ok: "bt_ok (ss_joins s)" using assms(3) by (simp add: run_ok_def joins_ok_def)
  have get: "map_of (ss_joins s') = (map_of (ss_joins s))(join_id \<mapsto> new_join request join_id now)"
    by (simp add: wait(1) bt_insert_get [OF ok])
  have "joins_ok s'"
    using assms(3) wait(2,3) bt_insert_ok [OF ok] get unfolding run_ok_def joins_ok_def by (auto simp: wait(1))
  moreover have "log_ok s' (lg @ decision_actions d)"
  proof -
    have lgs: "log_ok s lg" using assms(3) by (simp add: run_ok_def)
    show ?thesis
      by (rule log_okI) (use assms(1) in \<open>auto simp: wait(4) get log_okD(1,2) [OF lgs] dest: log_okD(3) [OF lgs]\<close>)
  qed
  moreover have "agents_ok s'" "running_count s' \<le> mx"
    using assms(3) by (simp_all add: wait(1) run_ok_def agents_ok_def running_count_def)
  ultimately show ?thesis by (simp add: run_ok_def)
qed

lemma terminal_joins_ok:
  assumes "on_terminal s agent_id terminal = Inr (acts, s')" "joins_ok s"
  shows "joins_ok s'"
  using assms(1)
proof (cases rule: terminal_cases)
  case (1 a)
  have "jn_join_id r = k \<and> (\<exists>b. map_of (ss_agents s') (jn_target_agent_id r) = Some b \<and>
      (jn_status r = JoinPending \<longleftrightarrow> sa_status b = SaRunning))" if "map_of (ss_joins s') k = Some r" for k r
  proof -
    from that obtain r0 where r0: "map_of (ss_joins s) k = Some r0"
      "r = (if waits_for agent_id r0 then satisfy_join (tm_completed_at_ms terminal) r0 else r0)"
      unfolding 1(5) by auto
    from assms(2) r0(1) obtain b where b: "jn_join_id r0 = k" "map_of (ss_agents s) (jn_target_agent_id r0) = Some b"
      "jn_status r0 = JoinPending \<longleftrightarrow> sa_status b = SaRunning"
      unfolding joins_ok_def by blast
    show ?thesis
      using b by (cases "jn_target_agent_id r0 = agent_id"; cases "jn_status r0")
        (simp_all add: r0(2) 1(2) waits_for_def satisfy_join_def)
  qed
  then show ?thesis using assms(2) 1(4) by (simp add: joins_ok_def)
qed

lemma terminal_agents_ok:
  assumes "on_terminal s agent_id terminal = Inr (acts, s')" "agents_ok s"
  shows "agents_ok s'"
  using assms(1)
proof (cases rule: terminal_cases)
  case (1 a)
  have "case sa_last_terminal b of None \<Rightarrow> sa_status b = SaRunning
      | Some t \<Rightarrow> sa_status b = terminal_kind_to_status (tm_status t)" if "map_of (ss_agents s') k = Some b" for k b
  proof (cases "k = agent_id")
    case True
    with that show ?thesis unfolding 1(2) by auto
  next
    case False
    with that have "map_of (ss_agents s) k = Some b" unfolding 1(2) by simp
    with assms(2) show ?thesis unfolding agents_ok_def by blast
  qed
  then show ?thesis using assms(2) 1(3) by (simp add: agents_ok_def)
qed

lemma terminal_ok:
  assumes "on_terminal s agent_id terminal = Inr (acts, s')" "run_ok mx (s, lg)"
  shows "run_ok mx (s', lg @ acts)"
  using assms(1)
proof (cases rule: terminal_cases)
  case (1 a)
  have js: "joins_ok s" and ags: "agents_ok s" and lgs: "log_ok s lg" using assms(2) by (simp_all add: run_ok_def)
  have "agents_ok s'" by (rule terminal_agents_ok [OF assms(1) ags])
  moreover have "joins_ok s'" by (rule terminal_joins_ok [OF assms(1) js])
  moreover have "log_ok s' (lg @ acts)"
  proof (rule log_okI)
    fix j w t
    show "occurs (suspends j) (lg @ acts) = (if map_of (ss_joins s') j = None then 0 else 1)"
      by (simp add: 1(5) log_okD(1) [OF lgs] terminal_actions(1) [OF assms(1) js])
    show "occurs (wakes j) (lg @ acts) =
        (case map_of (ss_joins s') j of Some r \<Rightarrow> if jn_status r = JoinSatisfied then 1 else 0 | None \<Rightarrow> 0)"
      by (auto simp: 1(5) log_okD(2) [OF lgs] terminal_actions(2) [OF assms(1) js] waits_for_def satisfy_join_def
          split: option.split)
    assume "WakeWaiter j w t \<in> set (lg @ acts)"
    then obtain r where "map_of (ss_joins s) j = Some r" "jn_waiter_agent_id r = w"
      using log_okD(3) [OF lgs, of j w t] terminal_actions(3) [OF assms(1) js, of j w t]
      unfolding set_append Un_iff by blast
    then show "\<exists>r. map_of (ss_joins s') j = Some r \<and> jn_waiter_agent_id r = w"
      by (cases "waits_for agent_id r") (simp_all add: 1(5) satisfy_join_def)
  qed
  ultimately show ?thesis using 1(6) assms(2) by (simp add: run_ok_def)
qed

lemma sub_step_ok:
  assumes "sub_step pp mx x y" "run_ok mx x"
  shows "run_ok mx y"
  using assms
proof (induction rule: sub_step.induct)
  case (mailed s lg item)
  then show ?case by (simp add: run_ok_def agents_ok_def joins_ok_def log_ok_def running_count_def)
qed (blast intro: spawn_ok join_ok terminal_ok)+

lemma run_ok_start: "run_ok mx (subagent_state_default, [])"
  by (simp add: run_ok_def agents_ok_def joins_ok_def log_ok_def running_count_def subagent_state_default_def bt_ok_def)

lemma sub_run_ok: "(sub_step pp mx)\<^sup>*\<^sup>* (subagent_state_default, []) x \<Longrightarrow> run_ok mx x"
  by (induction rule: rtranclp_induct) (rule run_ok_start, rule sub_step_ok)

section \<open>Properties\<close>

definition ex_spawn :: spawn_request where
  "ex_spawn = \<lparr>sp_session_id = lit ''s'', sp_parent_agent_id = lit ''main'', sp_description = [],
     sp_task_goal = [], sp_task_context = [], sp_output_schema = None, sp_subagent_role_id = None,
     sp_predefined_prompt = Some (lit ''look''), sp_max_turns = None\<rparr>"

definition ex_join :: join_request where
  "ex_join = \<lparr>jr_session_id = lit ''s'', jr_waiter_agent_id = lit ''main'', jr_target_agent_id = lit ''a''\<rparr>"

definition ex_terminal :: terminal_snapshot where
  "ex_terminal = \<lparr>tm_status = TkCompleted, tm_reply = Some (lit ''ok''), tm_error = None, tm_completed_at_ms = 9\<rparr>"

definition ex_after_spawn :: subagent_state where
  "ex_after_spawn = snd (projr (coordinator_spawn (\<lambda>_. None) 1 subagent_state_default ex_spawn (lit ''a'') 1))"

definition ex_after_join :: subagent_state where
  "ex_after_join = snd (projr (coordinator_join ex_after_spawn ex_join (lit ''j'') 2))"

definition ex_after_end :: subagent_state where
  "ex_after_end = snd (projr (on_terminal ex_after_join (lit ''a'') ex_terminal))"

lemma ex_coordinator_steps:
  "is_ok (coordinator_spawn (\<lambda>_. None) 1 subagent_state_default ex_spawn (lit ''a'') 1)"
  "map_of (ss_joins ex_after_spawn) (lit ''j'') = None"
  "is_ok (coordinator_join ex_after_spawn ex_join (lit ''j'') 2)"
  "is_ok (on_terminal ex_after_join (lit ''a'') ex_terminal)"
  by code_simp+

lemma ex_joined: "\<exists>lg. (sub_step (\<lambda>_. None) 1)\<^sup>*\<^sup>* (subagent_state_default, []) (ex_after_join, lg)"
proof -
  obtain c acts where 1: "coordinator_spawn (\<lambda>_. None) 1 subagent_state_default ex_spawn (lit ''a'') 1 =
      Inr ((c, acts), ex_after_spawn)"
    using ex_coordinator_steps(1) by (auto simp: is_ok_iff ex_after_spawn_def)
  obtain d where 2: "coordinator_join ex_after_spawn ex_join (lit ''j'') 2 = Inr (d, ex_after_join)"
    using ex_coordinator_steps(3) by (auto simp: is_ok_iff ex_after_join_def)
  show ?thesis
    using sub_step.spawned [OF 1, of "[]"] sub_step.joined [OF ex_coordinator_steps(2) 2, of _ _ "[] @ acts"]
    by (meson rtranclp.rtrancl_into_rtrancl rtranclp.rtrancl_refl)
qed

lemma ex_ended: "\<exists>lg. (sub_step (\<lambda>_. None) 1)\<^sup>*\<^sup>* (subagent_state_default, []) (ex_after_end, lg)"
proof -
  obtain acts where "on_terminal ex_after_join (lit ''a'') ex_terminal = Inr (acts, ex_after_end)"
    using ex_coordinator_steps(4) by (auto simp: is_ok_iff ex_after_end_def)
  with ex_joined show ?thesis
    by (meson rtranclp.rtrancl_into_rtrancl sub_step.ended)
qed

text \<open>
  C9: no wake-up of a waiting agent is lost or doubled by the coordinator. In every run of spawns,
  joins and ends in any order, the waiter of a join is suspended exactly once; it is woken exactly
  once when the join is satisfied and not at all before; a join waits exactly as long as its target
  runs; and a wake-up goes to the agent that waits.
\<close>

theorem joins_woken_once:
  assumes "(sub_step pp mx)\<^sup>*\<^sup>* (subagent_state_default, []) (s, lg)"
    and "map_of (ss_joins s) j = Some r"
  shows "occurs (suspends j) lg = 1 \<and>
     occurs (wakes j) lg = (if jn_status r = JoinSatisfied then 1 else 0) \<and>
     (\<exists>a. map_of (ss_agents s) (jn_target_agent_id r) = Some a \<and>
        (jn_status r = JoinPending \<longleftrightarrow> \<not> is_terminal (sa_status a))) \<and>
     (\<forall>w t. WakeWaiter j w t \<in> set lg \<longrightarrow> w = jn_waiter_agent_id r)"
proof -
  have ok: "joins_ok s" "log_ok s lg" using sub_run_ok [OF assms(1)] by (simp_all add: run_ok_def)
  have "\<exists>a. map_of (ss_agents s) (jn_target_agent_id r) = Some a \<and>
      (jn_status r = JoinPending \<longleftrightarrow> \<not> is_terminal (sa_status a))"
    using ok(1) assms(2) unfolding joins_ok_def terminal_iff by blast
  then show ?thesis
    using log_okD(1,2) [OF ok(2), of j] log_okD(3) [OF ok(2), of j] assms(2) by auto
qed

theorem joins_woken_once_witness:
  "\<exists>lg. (sub_step (\<lambda>_. None) 1)\<^sup>*\<^sup>* (subagent_state_default, []) (ex_after_end, lg) \<and>
     occurs (wakes (lit ''j'')) lg = 1"
proof -
  have "map_option jn_status (map_of (ss_joins ex_after_end) (lit ''j'')) = Some JoinSatisfied" by code_simp
  then obtain r where "map_of (ss_joins ex_after_end) (lit ''j'') = Some r" "jn_status r = JoinSatisfied" by auto
  with ex_ended show ?thesis using joins_woken_once by metis
qed

text \<open>
  C22: in every run of the coordinator at most the configured number of subagents runs, an agent that
  has ended keeps the snapshot of its end, and so a join only fails for an agent that joins itself or
  an agent that is not known.
\<close>

theorem subagents_bounded:
  assumes "(sub_step pp mx)\<^sup>*\<^sup>* (subagent_state_default, []) (s, lg)"
  shows "running_count s \<le> mx \<and>
     (coordinator_join s request join_id now = Inl e \<longrightarrow>
        e = SelfJoin (jr_waiter_agent_id request) \<and> jr_waiter_agent_id request = jr_target_agent_id request \<or>
        e = AgentNotFound (jr_target_agent_id request) \<and> map_of (ss_agents s) (jr_target_agent_id request) = None)"
proof -
  have ok: "agents_ok s" "running_count s \<le> mx" using sub_run_ok [OF assms] by (simp_all add: run_ok_def)
  have kept: False if "map_of (ss_agents s) k = Some a" "is_terminal (sa_status a)" "sa_last_terminal a = None" for k a
    using ok(1) [unfolded agents_ok_def, THEN conjunct2, rule_format, OF that(1)] that(2,3)
    by (simp add: terminal_iff)
  then show ?thesis
    using ok(2) by (auto simp: coordinator_join_def split: if_splits option.splits dest: kept)
qed

theorem subagents_bounded_witness:
  "running_count ex_after_join \<le> 1 \<and> running_count ex_after_join = 1"
proof -
  obtain lg where "(sub_step (\<lambda>_. None) 1)\<^sup>*\<^sup>* (subagent_state_default, []) (ex_after_join, lg)"
    using ex_joined by blast
  moreover have "running_count ex_after_join = 1" by code_simp
  ultimately show ?thesis using subagents_bounded by blast
qed

end
