(* ===== verification/Supervisor.thy ===== *)
theory Supervisor
  imports Subagent
begin

text \<open>
  How a session's supervisor carries out the coordinator's decisions
  (\<open>apps/shared/src/gateway/session_supervisor.rs\<close>): spawning and joining subagents, marking their end,
  and the table of waiting joins. The coordinator works under the session's lock, but the host actions
  it returns are applied after the lock is released, each under a lock of its own. The step relation
  interleaves these critical sections. The lemmas show which waiters are woken.
\<close>

section \<open>State\<close>

record subagent_role =
  rl_role_id :: rstr
  rl_description :: rstr
  rl_prompt :: "rstr option"
  rl_max_turns :: "nat option"
  rl_tools :: "bool btree"

text \<open>A lane's record; what a run leaves there (loop state, memory, tools) is not used here.\<close>

record lane_record =
  ln_agent_id :: rstr
  ln_parent_agent_id :: "rstr option"
  ln_subagent_role_id :: "rstr option"
  ln_reasoning_effort :: "reasoning_effort option"
  ln_last_error :: "rstr option"
  ln_created_at_ms :: nat
  ln_updated_at_ms :: nat

text \<open>A waiting join: whether its one-shot sender and its receiver are still in the table.\<close>

record pending_join_waiter =
  pw_sender :: bool
  pw_receiver :: bool

text \<open>
  The supervisor. \<open>su_default_effort\<close> is the effort of the session's model, \<open>su_root_effort\<close> that of the
  root turn, if one is live. \<open>su_sent\<close> is what was sent on the channel of a join, \<open>su_dropped\<close> the
  joins whose receiver is gone, and \<open>su_started\<close> the lanes that were started. The stores, the tokens
  and the interactions of the supervisor are left out.
\<close>

record supervisor =
  su_session_id :: rstr
  su_root_agent_id :: rstr
  su_roles :: "rstr \<rightharpoonup> subagent_role"
  su_default_effort :: reasoning_effort
  su_root_effort :: "reasoning_effort option"
  su_lanes :: "rstr \<rightharpoonup> lane_record"
  su_sub :: subagent_state
  su_updated_at_ms :: nat
  su_pending :: "rstr \<rightharpoonup> pending_join_waiter"
  su_sent :: "rstr \<rightharpoonup> terminal_snapshot"
  su_dropped :: "rstr set"
  su_started :: "rstr list"

section \<open>The table of waiting joins\<close>

definition register_pending_join :: "rstr \<Rightarrow> supervisor \<Rightarrow> control_error + supervisor" where
  "register_pending_join join_id s =
     (if su_pending s join_id \<noteq> None then
        Inl (InvalidState (lit ''duplicate pending join registration: '' @ join_id))
      else Inr (s\<lparr>su_pending := (su_pending s)(join_id \<mapsto> \<lparr>pw_sender = True, pw_receiver = True\<rparr>)\<rparr>))"

text \<open>The error of \<open>take_join_receiver\<close> is the message of a \<open>CoreRun\<close> error of the service.\<close>

definition take_join_receiver :: "rstr \<Rightarrow> supervisor \<Rightarrow> rstr + supervisor" where
  "take_join_receiver join_id s =
     (case su_pending s join_id of
        None \<Rightarrow> Inl (lit ''missing pending join registration: '' @ join_id)
      | Some w \<Rightarrow>
          if pw_receiver w then Inr (s\<lparr>su_pending := (su_pending s)(join_id \<mapsto> w\<lparr>pw_receiver := False\<rparr>)\<rparr>)
          else Inl (lit ''pending join receiver already taken: '' @ join_id))"

definition wake_waiter :: "rstr \<Rightarrow> terminal_snapshot \<Rightarrow> supervisor \<Rightarrow> control_error + supervisor" where
  "wake_waiter join_id terminal s =
     (case su_pending s join_id of
        None \<Rightarrow> Inr s
      | Some w \<Rightarrow>
          if pw_sender w then
            Inr (s\<lparr>su_pending := (su_pending s)(join_id \<mapsto> w\<lparr>pw_sender := False\<rparr>),
                  su_sent := (if join_id \<in> su_dropped s then su_sent s else (su_sent s)(join_id \<mapsto> terminal))\<rparr>)
          else Inl (InvalidState (lit ''pending join sender already consumed: '' @ join_id)))"

text \<open>Removing the entry drops a receiver that is still in it.\<close>

definition remove_pending_join :: "rstr \<Rightarrow> supervisor \<Rightarrow> supervisor" where
  "remove_pending_join join_id s =
     s\<lparr>su_pending := (su_pending s)(join_id := None),
       su_dropped := (case su_pending s join_id of
          Some w \<Rightarrow> if pw_receiver w then insert join_id (su_dropped s) else su_dropped s
        | None \<Rightarrow> su_dropped s)\<rparr>"

section \<open>Host actions\<close>

fun apply_host_action :: "nat \<Rightarrow> host_action \<Rightarrow> supervisor \<Rightarrow> control_error + supervisor" where
  "apply_host_action now (SpawnWorker agent_id _ _ _ _ _) s = Inr (s\<lparr>su_started := su_started s @ [agent_id]\<rparr>)"
| "apply_host_action now (SuspendWaiter join_id _ _) s = register_pending_join join_id s"
| "apply_host_action now (WakeWaiter join_id _ terminal) s = wake_waiter join_id terminal s"
| "apply_host_action now (EnqueueMailboxItem item) s =
     Inr (s\<lparr>su_sub := (su_sub s)\<lparr>ss_mailbox := ss_mailbox (su_sub s) @ [item]\<rparr>, su_updated_at_ms := now\<rparr>)"

definition ensure_session_match :: "rstr \<Rightarrow> supervisor \<Rightarrow> control_error + unit" where
  "ensure_session_match session_id s =
     (if su_session_id s = session_id then Inr () else Inl (SessionMismatch (su_session_id s) session_id))"

section \<open>Operations\<close>

definition apply_role :: "supervisor \<Rightarrow> spawn_request \<Rightarrow> spawn_request" where
  "apply_role s request =
     (case Option.bind (sp_subagent_role_id request) (su_roles s) of
        None \<Rightarrow> request
      | Some rl \<Rightarrow> request\<lparr>sp_predefined_prompt := rl_prompt rl, sp_max_turns := rl_max_turns rl,
          sp_description := (if sp_description request = [] then rl_description rl else sp_description request)\<rparr>)"

definition lane_reasoning_effort :: "supervisor \<Rightarrow> rstr \<Rightarrow> reasoning_effort" where
  "lane_reasoning_effort s parent =
     (let inherited = (if parent = su_root_agent_id s then su_root_effort s
                       else Option.bind (su_lanes s parent) ln_reasoning_effort)
      in case inherited of Some e \<Rightarrow> e | None \<Rightarrow> su_default_effort s)"

text \<open>
  \<open>spawn_subagent\<close>, \<open>join_subagent\<close> and \<open>mark_subagent_terminal\<close> up to the release of the session's
  lock: the reply, the actions that are still to be applied, and the new state.
\<close>

definition spawn_subagent ::
  "(json \<Rightarrow> rstr option) \<Rightarrow> nat \<Rightarrow> spawn_request \<Rightarrow> rstr \<Rightarrow> nat \<Rightarrow> supervisor \<Rightarrow>
   control_error + (rstr \<times> host_action list) \<times> supervisor" where
  "spawn_subagent pp mx request child now s =
     rbind (ensure_session_match (sp_session_id request) s) (\<lambda>_.
     let request = apply_role s request in
     rbind (coordinator_spawn pp mx (su_sub s) request child now) (\<lambda>(decision, sub).
     Inr (decision, s\<lparr>su_sub := sub, su_updated_at_ms := now,
       su_lanes := (su_lanes s)(child \<mapsto> \<lparr>ln_agent_id = child,
         ln_parent_agent_id = Some (sp_parent_agent_id request),
         ln_subagent_role_id = sp_subagent_role_id request,
         ln_reasoning_effort = Some (lane_reasoning_effort s (sp_parent_agent_id request)),
         ln_last_error = None, ln_created_at_ms = now, ln_updated_at_ms = now\<rparr>)\<rparr>)))"

definition join_subagent ::
  "join_request \<Rightarrow> rstr \<Rightarrow> nat \<Rightarrow> supervisor \<Rightarrow> control_error + join_decision \<times> supervisor" where
  "join_subagent request join_id now s =
     rbind (ensure_session_match (jr_session_id request) s) (\<lambda>_.
     rbind (coordinator_join (su_sub s) request join_id now) (\<lambda>(decision, sub).
     Inr (decision, s\<lparr>su_sub := sub, su_updated_at_ms := now\<rparr>)))"

definition mark_subagent_terminal ::
  "rstr \<Rightarrow> terminal_snapshot \<Rightarrow> rstr option \<Rightarrow> supervisor \<Rightarrow> (control_error + host_action list) \<times> supervisor" where
  "mark_subagent_terminal agent_id terminal last_error s =
     (case su_lanes s agent_id of
        None \<Rightarrow> (Inl (AgentNotFound agent_id), s)
      | Some lane \<Rightarrow>
          let s = s\<lparr>su_lanes := (su_lanes s)(agent_id \<mapsto>
                lane\<lparr>ln_last_error := last_error, ln_updated_at_ms := tm_completed_at_ms terminal\<rparr>)\<rparr>
          in case on_terminal (su_sub s) agent_id terminal of
               Inl e \<Rightarrow> (Inl e, s)
             | Inr (actions, sub) \<Rightarrow>
                 (Inr actions, s\<lparr>su_sub := sub, su_updated_at_ms := tm_completed_at_ms terminal\<rparr>))"

section \<open>Interleaving\<close>

text \<open>
  A configuration: the supervisor, the batches of actions whose callers are still applying them, and the
  actions applied so far. A batch ends at its first error. A join id is new.
\<close>

type_synonym config = "supervisor \<times> host_action list list \<times> host_action list"

inductive sup_step :: "(json \<Rightarrow> rstr option) \<Rightarrow> nat \<Rightarrow> config \<Rightarrow> config \<Rightarrow> bool" for pp mx where
  spawn: "spawn_subagent pp mx request child now s = Inr ((reply, acts), s') \<Longrightarrow>
     sup_step pp mx (s, bs, ds) (s', bs @ [acts], ds)"
| join: "map_of (ss_joins (su_sub s)) join_id = None \<Longrightarrow> join_subagent request join_id now s = Inr (d, s') \<Longrightarrow>
     sup_step pp mx (s, bs, ds) (s', bs @ [decision_actions d], ds)"
| mark: "mark_subagent_terminal agent_id terminal err s = (Inr acts, s') \<Longrightarrow>
     sup_step pp mx (s, bs, ds) (s', bs @ [acts], ds)"
| mark_failed: "mark_subagent_terminal agent_id terminal err s = (Inl e, s') \<Longrightarrow>
     sup_step pp mx (s, bs, ds) (s', bs, ds)"
| act: "apply_host_action now a s = Inr s' \<Longrightarrow>
     sup_step pp mx (s, us @ (a # rest) # vs, ds) (s', us @ rest # vs, ds @ [a])"
| act_failed: "apply_host_action now a s = Inl e \<Longrightarrow>
     sup_step pp mx (s, us @ (a # rest) # vs, ds) (s, us @ vs, ds)"
| take: "take_join_receiver j s = Inr s' \<Longrightarrow> sup_step pp mx (s, bs, ds) (s', bs, ds)"
| give_up: "sup_step pp mx (s, bs, ds) (remove_pending_join j s, bs, ds)"

definition fresh_supervisor :: "supervisor \<Rightarrow> bool" where
  "fresh_supervisor s \<longleftrightarrow> su_sub s = subagent_state_default \<and> su_pending s = Map.empty \<and> su_sent s = Map.empty"

text \<open>Whether a join was woken after its waiter was registered.\<close>

definition woken_after :: "rstr \<Rightarrow> host_action list \<Rightarrow> bool" where
  "woken_after j ds \<longleftrightarrow> 0 < occurs (wakes j) (dropWhile (\<lambda>a. \<not> suspends j a) ds)"

section \<open>Lemmas\<close>

lemma occurs_mset: "occurs P xs = size (filter_mset P (mset xs))"
  by (simp add: occurs_def flip: mset_filter)

lemma occurs_perm: "mset xs = mset ys \<Longrightarrow> occurs P xs = occurs P ys"
  by (simp add: occurs_mset)

lemma occurs_pos: "0 < occurs P xs \<longleftrightarrow> (\<exists>x \<in> set xs. P x)"
  by (simp add: occurs_def filter_empty_conv)

lemma run_ok_perm:
  assumes "run_ok mx (s, lg)" "mset lg = mset lg'"
  shows "run_ok mx (s, lg')"
proof -
  have "set lg = set lg'" using assms(2) by (metis set_mset_mset)
  with assms show ?thesis by (simp add: run_ok_def log_ok_def occurs_perm [OF assms(2)])
qed

lemma run_ok_once: "run_ok mx (s, lg) \<Longrightarrow> occurs (suspends j) lg \<le> 1 \<and> occurs (wakes j) lg \<le> 1"
  by (auto simp: run_ok_def log_okD(1,2) split: option.split)

lemma woken_after_snoc:
  "woken_after j (ds @ [a]) \<longleftrightarrow> woken_after j ds \<or> wakes j a \<and> 0 < occurs (suspends j) ds"
proof (cases "\<exists>x \<in> set ds. suspends j x")
  case True
  then have "dropWhile (\<lambda>a. \<not> suspends j a) (ds @ [a]) = dropWhile (\<lambda>a. \<not> suspends j a) ds @ [a]"
    by (auto simp: dropWhile_append)
  with True show ?thesis by (auto simp: woken_after_def occurs_pos)
next
  case False
  then have none: "dropWhile (\<lambda>a. \<not> suspends j a) ds = []" by simp
  have "\<not> (wakes j a \<and> suspends j a)" by (cases a) auto
  then show ?thesis using False unfolding woken_after_def dropWhile_append none by (auto simp: occurs_pos)
qed

lemma woken_after_occurs: "woken_after j ds \<Longrightarrow> 0 < occurs (suspends j) ds \<and> 0 < occurs (wakes j) ds"
proof (induction ds rule: rev_induct)
  case Nil
  then show ?case by (simp add: woken_after_def)
next
  case (snoc a ds)
  then show ?case by (auto simp: woken_after_snoc)
qed

definition table_ok :: "supervisor \<Rightarrow> host_action list \<Rightarrow> bool" where
  "table_ok s ds \<longleftrightarrow> (\<forall>j.
     (occurs (suspends j) ds = 0 \<longrightarrow> su_pending s j = None) \<and>
     (\<forall>w. su_pending s j = Some w \<longrightarrow> (pw_sender w \<longleftrightarrow> \<not> woken_after j ds)) \<and>
     (su_sent s j \<noteq> None \<longrightarrow> woken_after j ds))"

definition sup_inv :: "nat \<Rightarrow> config \<Rightarrow> bool" where
  "sup_inv mx x = (case x of (s, bs, ds) \<Rightarrow> run_ok mx (su_sub s, ds @ concat bs) \<and> table_ok s ds)"

lemma table_okD:
  assumes "table_ok s ds"
  shows "occurs (suspends j) ds = 0 \<Longrightarrow> su_pending s j = None"
    "su_pending s j = Some w \<Longrightarrow> pw_sender w \<longleftrightarrow> \<not> woken_after j ds"
    "su_sent s j \<noteq> None \<Longrightarrow> woken_after j ds"
  using assms unfolding table_ok_def by blast+

lemma table_ok_frame:
  "table_ok s ds \<Longrightarrow> su_pending s' = su_pending s \<Longrightarrow> su_sent s' = su_sent s \<Longrightarrow> table_ok s' ds"
  by (simp add: table_ok_def)

lemma table_ok_snoc:
  assumes "table_ok s ds" "\<And>j. \<not> wakes j a"
  shows "table_ok s (ds @ [a])"
  using assms unfolding table_ok_def by (simp add: woken_after_snoc)

lemma table_register:
  assumes "table_ok s ds" "occurs (suspends i) ds = 0" "register_pending_join i s = Inr s'"
  shows "table_ok s' (ds @ [SuspendWaiter i w t])"
proof -
  have "\<not> woken_after i ds" using woken_after_occurs [of i ds] assms(2) by auto
  moreover have s': "s' = s\<lparr>su_pending := (su_pending s)(i \<mapsto> \<lparr>pw_sender = True, pw_receiver = True\<rparr>)\<rparr>"
    using assms(3) by (simp add: register_pending_join_def split: if_splits)
  ultimately show ?thesis
    using assms(1) unfolding table_ok_def by (simp add: s' woken_after_snoc)
qed

lemma table_wake:
  assumes "table_ok s ds" "wake_waiter i t s = Inr s'"
  shows "table_ok s' (ds @ [WakeWaiter i w t])"
proof (cases "su_pending s i")
  case None
  then have "s' = s" using assms(2) by (simp add: wake_waiter_def)
  with None assms(1) show ?thesis unfolding table_ok_def by (auto simp: woken_after_snoc)
next
  case (Some e)
  then have "0 < occurs (suspends i) ds" using table_okD(1) [OF assms(1), of i] by auto
  moreover have "su_pending s' = (su_pending s)(i \<mapsto> e\<lparr>pw_sender := False\<rparr>)"
    "su_sent s' = su_sent s \<or> su_sent s' = (su_sent s)(i \<mapsto> t)"
    using assms(2) Some by (auto simp: wake_waiter_def split: if_splits)
  ultimately show ?thesis
    using assms(1) unfolding table_ok_def by (auto simp: woken_after_snoc)
qed

lemma act_once:
  assumes "run_ok mx (sub, ds @ concat (us @ (a # rest) # vs))"
  shows "suspends j a \<Longrightarrow> occurs (suspends j) ds = 0" "wakes j a \<Longrightarrow> occurs (wakes j) ds = 0"
  using run_ok_once [OF assms, of j] by auto

lemma act_never_fails:
  assumes "sup_inv mx (s, us @ (a # rest) # vs, ds)" "apply_host_action now a s = Inl e"
  shows False
proof -
  note inv = assms(1) [unfolded sup_inv_def prod.case]
  note once = act_once [OF inv [THEN conjunct1]] and tab = inv [THEN conjunct2]
  show False
  proof (cases a)
    case (SuspendWaiter i w t)
    then have "su_pending s i = None" using once(1) [of i] table_okD(1) [OF tab] by simp
    with SuspendWaiter assms(2) show False by (simp add: register_pending_join_def)
  next
    case (WakeWaiter i w t)
    then have "\<not> woken_after i ds" using once(2) [of i] woken_after_occurs [of i ds] by auto
    with WakeWaiter assms(2) table_okD(2) [OF tab, of i] show False
      by (auto simp: wake_waiter_def split: option.splits if_splits)
  qed (use assms(2) in simp_all)
qed

lemma act_inv:
  assumes "sup_inv mx (s, us @ (a # rest) # vs, ds)" "apply_host_action now a s = Inr s'"
  shows "sup_inv mx (s', us @ rest # vs, ds @ [a])"
proof -
  note inv = assms(1) [unfolded sup_inv_def prod.case]
  note tab = inv [THEN conjunct2]
  have run: "run_ok mx (su_sub s, (ds @ [a]) @ concat (us @ rest # vs))"
    by (rule run_ok_perm [OF inv [THEN conjunct1]]) simp
  have "run_ok mx (su_sub s', (ds @ [a]) @ concat (us @ rest # vs)) \<and> table_ok s' (ds @ [a])"
  proof (cases a)
    case (SpawnWorker b c d e f g)
    with assms(2) have "s' = s\<lparr>su_started := su_started s @ [b]\<rparr>" by simp
    with run table_ok_frame [OF table_ok_snoc [OF tab, of a], of s'] SpawnWorker show ?thesis by simp
  next
    case (SuspendWaiter i w t)
    with assms(2) have r: "register_pending_join i s = Inr s'" by simp
    then have "su_sub s' = su_sub s" by (auto simp: register_pending_join_def split: if_splits)
    moreover have "occurs (suspends i) ds = 0" using act_once(1) [OF inv [THEN conjunct1], of i] SuspendWaiter by simp
    ultimately show ?thesis using run table_register [OF tab _ r] SuspendWaiter by simp
  next
    case (WakeWaiter i w t)
    with assms(2) have r: "wake_waiter i t s = Inr s'" by simp
    then have "su_sub s' = su_sub s" by (auto simp: wake_waiter_def split: if_splits option.splits)
    then show ?thesis using run table_wake [OF tab r] WakeWaiter by simp
  next
    case (EnqueueMailboxItem i)
    with assms(2) have s': "s' = s\<lparr>su_sub := (su_sub s)\<lparr>ss_mailbox := ss_mailbox (su_sub s) @ [i]\<rparr>, su_updated_at_ms := now\<rparr>"
      by simp
    have "table_ok s' (ds @ [a])"
      by (rule table_ok_frame [OF table_ok_snoc [OF tab]]) (simp_all add: EnqueueMailboxItem s')
    moreover have "run_ok mx (su_sub s', (ds @ [a]) @ concat (us @ rest # vs))"
      using sub_step_ok [OF sub_step.mailed [of _ _ "su_sub s" _ i] run] by (simp add: s')
    ultimately show ?thesis by blast
  qed
  then show ?thesis by (simp add: sup_inv_def)
qed

lemma batch_inv:
  assumes "sup_inv mx (s, bs, ds)" "\<And>lg. run_ok mx (su_sub s, lg) \<Longrightarrow> run_ok mx (su_sub s', lg @ acts)"
    and "su_pending s' = su_pending s" "su_sent s' = su_sent s"
  shows "sup_inv mx (s', bs @ [acts], ds)"
  using assms(1) assms(2) [of "ds @ concat bs"] table_ok_frame [OF _ assms(3,4)] by (simp add: sup_inv_def)

lemma mark_cases:
  assumes "mark_subagent_terminal agent_id terminal err s = (res, s')"
  obtains (failed) e where "res = Inl e" "su_sub s' = su_sub s" "su_pending s' = su_pending s" "su_sent s' = su_sent s"
  | (marked) acts where "res = Inr acts" "on_terminal (su_sub s) agent_id terminal = Inr (acts, su_sub s')"
      "su_pending s' = su_pending s" "su_sent s' = su_sent s"
  using assms by (auto simp: mark_subagent_terminal_def Let_def split: option.splits sum.splits)

lemma sup_step_inv:
  assumes "sup_step pp mx x y" "sup_inv mx x"
  shows "sup_inv mx y"
  using assms
proof (induction rule: sup_step.induct)
  case (spawn request child now s reply acts s' bs ds)
  from spawn(1) have c: "coordinator_spawn pp mx (su_sub s) (apply_role s request) child now =
      Inr ((reply, acts), su_sub s')" "su_pending s' = su_pending s" "su_sent s' = su_sent s"
    by (auto simp: spawn_subagent_def Let_def rbind_eq_Inr)
  show ?case by (rule batch_inv [OF spawn(2) spawn_ok [OF c(1)] c(2,3)])
next
  case (join s join_id request now d s' bs ds)
  from join(2) have c: "coordinator_join (su_sub s) request join_id now = Inr (d, su_sub s')"
    "su_pending s' = su_pending s" "su_sent s' = su_sent s"
    by (auto simp: join_subagent_def rbind_eq_Inr)
  show ?case by (rule batch_inv [OF join(3) join_ok [OF join(1) c(1)] c(2,3)])
next
  case (mark agent_id terminal err s acts s' bs ds)
  from mark(1) show ?case
    by (cases rule: mark_cases) (simp, metis batch_inv [OF mark(2)] terminal_ok sum.inject(2))
next
  case (mark_failed agent_id terminal err s e s' bs ds)
  from mark_failed(1) show ?case
  proof (cases rule: mark_cases)
    case failed
    then show ?thesis using mark_failed(2) table_ok_frame [of s ds s'] by (simp add: sup_inv_def)
  qed simp
next
  case (take j s s' bs ds)
  then show ?case
    by (auto simp: sup_inv_def table_ok_def take_join_receiver_def split: option.splits if_splits)
next
  case (give_up s bs ds j)
  then show ?case by (auto simp: sup_inv_def table_ok_def remove_pending_join_def)
qed (blast intro: act_inv dest: act_never_fails)+

lemma sup_start_inv: "fresh_supervisor s \<Longrightarrow> sup_inv mx (s, [], [])"
  using run_ok_start [of mx] by (simp add: sup_inv_def fresh_supervisor_def table_ok_def)

lemma sup_run_inv: "(sup_step pp mx)\<^sup>*\<^sup>* x y \<Longrightarrow> sup_inv mx x \<Longrightarrow> sup_inv mx y"
  by (induction rule: rtranclp_induct) (auto intro: sup_step_inv)

section \<open>Properties\<close>


definition ex_supervisor :: supervisor where
  "ex_supervisor = \<lparr>su_session_id = lit ''s'', su_root_agent_id = lit ''main'', su_roles = Map.empty,
     su_default_effort = EDefault, su_root_effort = None, su_lanes = Map.empty, su_sub = subagent_state_default,
     su_updated_at_ms = 0, su_pending = Map.empty, su_sent = Map.empty, su_dropped = {}, su_started = []\<rparr>"

definition ex_spawn_action :: host_action where
  "ex_spawn_action = SpawnWorker (lit ''a'') (lit ''main'') [] (lit ''look'') None None"

definition ex_sup1 :: supervisor where
  "ex_sup1 = snd (projr (spawn_subagent (\<lambda>_. None) 1 ex_spawn (lit ''a'') 1 ex_supervisor))"

definition ex_sup2 :: supervisor where
  "ex_sup2 = projr (apply_host_action 1 ex_spawn_action ex_sup1)"

definition ex_sup3 :: supervisor where
  "ex_sup3 = snd (projr (join_subagent ex_join (lit ''j'') 2 ex_sup2))"

definition ex_suspend :: host_action where
  "ex_suspend = SuspendWaiter (lit ''j'') (lit ''main'') (lit ''a'')"

definition ex_mail :: host_action where
  "ex_mail = EnqueueMailboxItem \<lparr>mb_agent_id = lit ''a'', mb_parent_agent_id = Some (lit ''main''),
     mb_status = TkCompleted, mb_summary = lit ''ok'', mb_completed_at_ms = 9\<rparr>"

definition ex_wake :: host_action where
  "ex_wake = WakeWaiter (lit ''j'') (lit ''main'') ex_terminal"

text \<open>The target ends between the join and the registration of its waiter.\<close>

definition ex_sup4 :: supervisor where
  "ex_sup4 = snd (mark_subagent_terminal (lit ''a'') ex_terminal None ex_sup3)"

definition ex_sup5 :: supervisor where
  "ex_sup5 = projr (apply_host_action 10 ex_mail ex_sup4)"

definition ex_sup6 :: supervisor where
  "ex_sup6 = projr (apply_host_action 10 ex_suspend ex_sup5)"

lemma projr_pair: "map_sum id fst x = Inr y \<Longrightarrow> x = Inr (y, snd (projr x))"
  by (cases x) auto

lemma is_ok_projr: "is_ok x \<Longrightarrow> x = Inr (projr x)"
  by (cases x) (simp_all add: is_ok_def)

lemma ex_ops:
  "spawn_subagent (\<lambda>_. None) 1 ex_spawn (lit ''a'') 1 ex_supervisor = Inr ((lit ''a'', [ex_spawn_action]), ex_sup1)"
  "apply_host_action 1 ex_spawn_action ex_sup1 = Inr ex_sup2"
  "join_subagent ex_join (lit ''j'') 2 ex_sup2 = Inr (DecidePending (JoinWaiting (lit ''j'')) [ex_suspend], ex_sup3)"
  "mark_subagent_terminal (lit ''a'') ex_terminal None ex_sup3 = (Inr [ex_mail, ex_wake], ex_sup4)"
  "apply_host_action 10 ex_mail ex_sup4 = Inr ex_sup5"
  "apply_host_action 10 ex_wake ex_sup5 = Inr ex_sup5"
  "apply_host_action 10 ex_suspend ex_sup5 = Inr ex_sup6"
proof -
  show "spawn_subagent (\<lambda>_. None) 1 ex_spawn (lit ''a'') 1 ex_supervisor = Inr ((lit ''a'', [ex_spawn_action]), ex_sup1)"
    unfolding ex_sup1_def by (rule projr_pair) code_simp
  show "apply_host_action 1 ex_spawn_action ex_sup1 = Inr ex_sup2"
    unfolding ex_sup2_def by (rule is_ok_projr) code_simp
  show "join_subagent ex_join (lit ''j'') 2 ex_sup2 = Inr (DecidePending (JoinWaiting (lit ''j'')) [ex_suspend], ex_sup3)"
    unfolding ex_sup3_def by (rule projr_pair) code_simp
  have "fst (mark_subagent_terminal (lit ''a'') ex_terminal None ex_sup3) = Inr [ex_mail, ex_wake]" by code_simp
  then show "mark_subagent_terminal (lit ''a'') ex_terminal None ex_sup3 = (Inr [ex_mail, ex_wake], ex_sup4)"
    unfolding ex_sup4_def by (metis prod.collapse)
  show "apply_host_action 10 ex_mail ex_sup4 = Inr ex_sup5"
    unfolding ex_sup5_def by (rule is_ok_projr) code_simp
  have "su_pending ex_sup5 (lit ''j'') = None" by code_simp
  then show "apply_host_action 10 ex_wake ex_sup5 = Inr ex_sup5" by (simp add: ex_wake_def wake_waiter_def)
  show "apply_host_action 10 ex_suspend ex_sup5 = Inr ex_sup6"
    unfolding ex_sup6_def by (rule is_ok_projr) code_simp
qed

lemma ex_lost_run:
  "(sup_step (\<lambda>_. None) 1)\<^sup>*\<^sup>* (ex_supervisor, [], [])
     (ex_sup6, [[], [], []], [ex_spawn_action, ex_mail, ex_wake, ex_suspend])"
proof -
  let ?R = "sup_step (\<lambda>_. None) 1"
  have "map_of (ss_joins (su_sub ex_sup2)) (lit ''j'') = None" by code_simp
  note join = sup_step.join [OF this ex_ops(3), simplified]
  have "?R\<^sup>*\<^sup>* (ex_supervisor, [], []) (ex_sup1, [[ex_spawn_action]], [])"
    using sup_step.spawn [OF ex_ops(1), of "[]" "[]"] by (simp add: r_into_rtranclp)
  also have "?R\<^sup>*\<^sup>* (ex_sup1, [[ex_spawn_action]], []) (ex_sup2, [[]], [ex_spawn_action])"
    using sup_step.act [OF ex_ops(2), of _ _ "[]" "[]" "[]" "[]"] by (simp add: r_into_rtranclp)
  also have "?R\<^sup>*\<^sup>* (ex_sup2, [[]], [ex_spawn_action]) (ex_sup3, [[], [ex_suspend]], [ex_spawn_action])"
    using join [of _ _ "[[]]"] by (simp add: r_into_rtranclp)
  also have "?R\<^sup>*\<^sup>* (ex_sup3, [[], [ex_suspend]], [ex_spawn_action])
      (ex_sup4, [[], [ex_suspend], [ex_mail, ex_wake]], [ex_spawn_action])"
    using sup_step.mark [OF ex_ops(4), of _ _ "[[], [ex_suspend]]"] by (simp add: r_into_rtranclp)
  also have "?R\<^sup>*\<^sup>* (ex_sup4, [[], [ex_suspend], [ex_mail, ex_wake]], [ex_spawn_action])
      (ex_sup5, [[], [ex_suspend], [ex_wake]], [ex_spawn_action, ex_mail])"
    using sup_step.act [OF ex_ops(5), of _ _ "[[], [ex_suspend]]" "[ex_wake]" "[]" "[ex_spawn_action]"] by (simp add: r_into_rtranclp)
  also have "?R\<^sup>*\<^sup>* (ex_sup5, [[], [ex_suspend], [ex_wake]], [ex_spawn_action, ex_mail])
      (ex_sup5, [[], [ex_suspend], []], [ex_spawn_action, ex_mail, ex_wake])"
    using sup_step.act [OF ex_ops(6), of _ _ "[[], [ex_suspend]]" "[]" "[]" "[ex_spawn_action, ex_mail]"] by (simp add: r_into_rtranclp)
  also have "?R\<^sup>*\<^sup>* (ex_sup5, [[], [ex_suspend], []], [ex_spawn_action, ex_mail, ex_wake])
      (ex_sup6, [[], [], []], [ex_spawn_action, ex_mail, ex_wake, ex_suspend])"
    using sup_step.act [OF ex_ops(7), of _ _ "[[]]" "[]" "[[]]" "[ex_spawn_action, ex_mail, ex_wake]"] by (simp add: r_into_rtranclp)
  finally show ?thesis .
qed

lemma sup_step_done: "sup_step pp mx (s, bs, ds) (s', bs', ds') \<Longrightarrow> prefix ds ds'"
  by (cases rule: sup_step.cases) auto

lemma sup_steps_done: "(sup_step pp mx)\<^sup>*\<^sup>* x y \<Longrightarrow> prefix (snd (snd x)) (snd (snd y))"
proof (induction rule: rtranclp_induct)
  case (step y z)
  then show ?case using sup_step_done [of pp mx "fst y" "fst (snd y)" "snd (snd y)" "fst z" "fst (snd z)" "snd (snd z)"]
    by (auto intro: prefix_order.trans)
qed simp

lemma woken_after_append:
  "occurs (wakes j) es = 0 \<Longrightarrow> woken_after j (ds @ es) \<longleftrightarrow> woken_after j ds"
proof (induction es rule: rev_induct)
  case (snoc a es)
  then show ?case using woken_after_snoc [of j "ds @ es" a] by (simp split: if_splits)
qed simp

text \<open>
  C10: a waiter whose wake-up was applied before its registration is never woken: once it is in the
  table, no continuation of the run sends it the end of the subagent it waits for. The witness is a
  run in which this happens: the subagent ends after the join was decided and before the waiter is
  registered.
\<close>

theorem early_wakeup_is_lost:
  assumes "(sup_step pp mx)\<^sup>*\<^sup>* (s0, [], []) (s, bs, ds)" "fresh_supervisor s0"
    and "su_pending s j = Some w" "pw_sender w" "0 < occurs (wakes j) ds"
    and "(sup_step pp mx)\<^sup>*\<^sup>* (s, bs, ds) (s', bs', ds')"
  shows "su_sent s' j = None \<and> (\<forall>w'. su_pending s' j = Some w' \<longrightarrow> pw_sender w')"
proof -
  have inv: "sup_inv mx (s, bs, ds)" by (rule sup_run_inv [OF assms(1) sup_start_inv [OF assms(2)]])
  then have "\<not> woken_after j ds" using table_okD(2) [of s ds j w] assms(3,4) by (simp add: sup_inv_def)
  have inv': "sup_inv mx (s', bs', ds')" by (rule sup_run_inv [OF assms(6) inv])
  obtain es where es: "ds' = ds @ es" using sup_steps_done [OF assms(6)] by (auto simp: prefix_def)
  have "occurs (wakes j) (ds' @ concat bs') \<le> 1"
    using run_ok_once [of mx "su_sub s'" "ds' @ concat bs'" j] inv' by (simp add: sup_inv_def)
  then have "occurs (wakes j) es = 0" using assms(5) by (simp add: es)
  then have "\<not> woken_after j ds'" using woken_after_append [of j es ds] \<open>\<not> woken_after j ds\<close> es by simp
  moreover have "table_ok s' ds'" using inv' by (simp add: sup_inv_def)
  ultimately show ?thesis using table_okD(2,3) [of s' ds' j] by blast
qed

lemma ex_sup6_state:
  "map_option pw_sender (su_pending ex_sup6 (lit ''j'')) = Some True"
  "map_option jn_status (map_of (ss_joins (su_sub ex_sup6)) (lit ''j'')) = Some JoinSatisfied"
  by code_simp+

theorem early_wakeup_is_lost_witness:
  "\<exists>s bs ds. (sup_step (\<lambda>_. None) 1)\<^sup>*\<^sup>* (ex_supervisor, [], []) (s, bs, ds) \<and> concat bs = [] \<and>
     map_option pw_sender (su_pending s (lit ''j'')) = Some True \<and>
     map_option jn_status (map_of (ss_joins (su_sub s)) (lit ''j'')) = Some JoinSatisfied \<and>
     (\<forall>s' bs' ds'. (sup_step (\<lambda>_. None) 1)\<^sup>*\<^sup>* (s, bs, ds) (s', bs', ds') \<longrightarrow> su_sent s' (lit ''j'') = None)"
proof -
  obtain w where w: "su_pending ex_sup6 (lit ''j'') = Some w" "pw_sender w" using ex_sup6_state(1) by auto
  have "fresh_supervisor ex_supervisor" by (simp add: fresh_supervisor_def ex_supervisor_def)
  moreover have "0 < occurs (wakes (lit ''j'')) [ex_spawn_action, ex_mail, ex_wake, ex_suspend]" by code_simp
  ultimately have "su_sent s' (lit ''j'') = None"
    if "(sup_step (\<lambda>_. None) 1)\<^sup>*\<^sup>* (ex_sup6, [[], [], []], [ex_spawn_action, ex_mail, ex_wake, ex_suspend]) (s', bs', ds')"
    for s' bs' ds'
    using early_wakeup_is_lost [OF ex_lost_run _ w(1,2) _ that] by blast
  with ex_lost_run ex_sup6_state show ?thesis by (intro exI conjI) auto
qed


end
