(* ===== verification/Resume.thy ===== *)
theory Resume
  imports AgentLoop Supervisor
begin

text \<open>
  The resumption of a suspended run (\<open>run_lane_until_terminal\<close> in
  \<open>apps/shared/src/gateway/session_supervisor.rs\<close>): the lane waits for the subagents its calls joined,
  or until it is cancelled, puts one result per suspended call behind the history and removes the tool
  uses that have no result. The order in which the subagents end is arbitrary. The JSON text of an end is
  a parameter. The lemmas show that the resumed history is sound and has no open call.
\<close>

section \<open>Definitions\<close>

datatype join_wait_result = WaitTerminal terminal_snapshot | WaitDropped | WaitCancelled

text \<open>Errors are the messages of \<open>CoreRun\<close> errors.\<close>

datatype resume_error = CoreRun rstr | ResumePanic

record resume_env =
  re_to_string :: "terminal_snapshot \<Rightarrow> rstr + rstr"
  re_saved :: "nat \<Rightarrow> rstr option"
  re_now :: "nat \<Rightarrow> nat"

fun suspended_join_id :: "suspended_tool_call \<Rightarrow> resume_error + rstr" where
  "suspended_join_id call =
     (case stc_reason call of SuspendToolCall tool_name suspend_token \<Rightarrow>
        if tool_name = lit ''join_subagent'' then Inr suspend_token
        else Inl (CoreRun (lit ''unexpected suspended tool while waiting on lane: '' @ tool_name)))"

fun collect_ok :: "('a \<Rightarrow> 'e + 'b) \<Rightarrow> 'a list \<Rightarrow> 'e + 'b list" where
  "collect_ok f [] = Inr []"
| "collect_ok f (x # xs) = rbind (f x) (\<lambda>y. rbind (collect_ok f xs) (\<lambda>ys. Inr (y # ys)))"

text \<open>
  The results in the order of the calls: what arrived, and a cancellation for every other call when the
  wait was cut short.
\<close>

definition complete_waits :: "nat \<Rightarrow> bool \<Rightarrow> (nat \<times> join_wait_result) list \<Rightarrow> (nat \<times> join_wait_result) list" where
  "complete_waits total_count wait_cancelled completed_results =
     sort_key fst
       (if wait_cancelled then
          completed_results @
          map (\<lambda>idx. (idx, WaitCancelled)) (filter (\<lambda>idx. idx \<notin> fst ` set completed_results) [0..<total_count])
        else completed_results)"

definition failed_join :: "suspended_tool_call \<Rightarrow> rstr \<Rightarrow> tool_execution_result" where
  "failed_join call message = Failed (stc_final_call call) [] [] (ExecutionFailed message)"

definition join_tool_result ::
  "resume_env \<Rightarrow> suspended_tool_call \<Rightarrow> rstr \<Rightarrow> join_wait_result \<Rightarrow> resume_error + tool_execution_result" where
  "join_tool_result env call join_id wait_result =
     (case wait_result of
        WaitTerminal terminal \<Rightarrow>
          (case re_to_string env terminal of
             Inl error \<Rightarrow> Inl (CoreRun (lit ''failed to serialize join_subagent output: '' @ error))
           | Inr output \<Rightarrow> Inr (Completed (stc_final_call call) (Success output) [] []))
      | WaitDropped \<Rightarrow>
          Inr (failed_join call (lit ''pending join receiver dropped before wake: '' @ join_id))
      | WaitCancelled \<Rightarrow>
          Inr (failed_join call (lit ''join cancelled: turn was cancelled while waiting for the subagent ('' @
            join_id @ lit '')'')))"

definition join_result_message ::
  "resume_env \<Rightarrow> suspended_tool_call list \<Rightarrow> rstr list \<Rightarrow> nat \<times> join_wait_result \<Rightarrow> resume_error + chat_message" where
  "join_result_message env calls join_ids item =
     (case item of (idx, wait_result) \<Rightarrow>
        rbind (join_tool_result env (calls ! idx) (join_ids ! idx) wait_result) (\<lambda>result.
        case build_tool_result_message (re_saved env idx) (re_now env idx) result of
          Some m \<Rightarrow> Inr m
        | None \<Rightarrow> Inl ResumePanic))"

definition result_ids :: "chat_message list \<Rightarrow> rstr set" where
  "result_ids ms = (\<Union>m \<in> set ms. set (tool_result_ids m))"

definition use_ids :: "chat_message list \<Rightarrow> rstr set" where
  "use_ids ms = (\<Union>m \<in> set ms. set (tool_use_ids m))"

definition keep_answered :: "rstr set \<Rightarrow> chat_message \<Rightarrow> chat_message" where
  "keep_answered answered m =
     (if role m = Assistant
      then m\<lparr>blocks := filter (\<lambda>b. case use_id b of Some i \<Rightarrow> i \<in> answered | None \<Rightarrow> True) (blocks m)\<rparr>
      else m)"

definition drop_unanswered_tool_uses :: "chat_message list \<Rightarrow> chat_message list" where
  "drop_unanswered_tool_uses messages = map (keep_answered (result_ids messages)) messages"

definition resume_lane ::
  "resume_env \<Rightarrow> suspended_tool_call list \<Rightarrow> bool \<Rightarrow> (nat \<times> join_wait_result) list \<Rightarrow> chat_message list \<Rightarrow>
   resume_error + chat_message list" where
  "resume_lane env calls wait_cancelled arrived messages =
     rbind (collect_ok suspended_join_id calls) (\<lambda>join_ids.
     rbind (collect_ok (join_result_message env calls join_ids)
              (complete_waits (length calls) wait_cancelled arrived)) (\<lambda>results.
     Inr (drop_unanswered_tool_uses (messages @ results))))"

text \<open>What a wait can give: each call at most once, and all of them unless it was cancelled.\<close>

definition possible_arrival :: "nat \<Rightarrow> bool \<Rightarrow> (nat \<times> join_wait_result) list \<Rightarrow> bool" where
  "possible_arrival n cancelled arrived \<longleftrightarrow>
     distinct (map fst arrived) \<and> list_all (\<lambda>i. i < n) (map fst arrived) \<and> (\<not> cancelled \<longrightarrow> length arrived = n)"

section \<open>Lemmas\<close>

lemma use_id_block: "use_id b = Some i \<longleftrightarrow> (\<exists>n inp. b = ToolUse i n inp)"
  by (cases b) auto

lemma keep_answered_sel [simp]:
  "role (keep_answered A m) = role m" "tool_result_ids (keep_answered A m) = tool_result_ids m"
  "tool_use_ids (keep_answered A m) =
     (if role m = Assistant then filter (\<lambda>i. i \<in> A) (tool_use_ids m) else tool_use_ids m)"
proof -
  have "List.map_filter result_id (filter (\<lambda>b. case use_id b of Some i \<Rightarrow> i \<in> A | None \<Rightarrow> True) bs) =
      List.map_filter result_id bs" for bs
  proof (induction bs)
    case (Cons b bs)
    then show ?case by (cases b) (simp_all add: List.map_filter_simps)
  qed simp
  then show "tool_result_ids (keep_answered A m) = tool_result_ids m"
    by (simp add: keep_answered_def tool_result_ids_def)
  have "List.map_filter use_id (filter (\<lambda>b. case use_id b of Some i \<Rightarrow> i \<in> A | None \<Rightarrow> True) bs) =
      filter (\<lambda>i. i \<in> A) (List.map_filter use_id bs)" for bs
  proof (induction bs)
    case (Cons b bs)
    then show ?case by (cases b) (simp_all add: List.map_filter_simps)
  qed (simp add: List.map_filter_simps)
  then show "tool_use_ids (keep_answered A m) =
     (if role m = Assistant then filter (\<lambda>i. i \<in> A) (tool_use_ids m) else tool_use_ids m)"
    by (simp add: keep_answered_def tool_use_ids_def)
qed (simp add: keep_answered_def)

lemma paired_keep_answered:
  "paired_from S ms \<Longrightarrow> result_ids ms \<subseteq> A \<Longrightarrow> paired_from (S \<inter> A) (map (keep_answered A) ms)"
proof (induction ms arbitrary: S)
  case (Cons m ms)
  have "paired_from ((S \<union> set (tool_use_ids m)) \<inter> A) (map (keep_answered A) ms)"
    using Cons by (simp add: result_ids_def)
  moreover have "(S \<union> set (tool_use_ids m)) \<inter> A \<subseteq> S \<inter> A \<union> set (tool_use_ids (keep_answered A m))" by auto
  ultimately show ?case
    using Cons.prems by (auto simp: result_ids_def intro: paired_from_mono)
qed simp

lemma dropped_history:
  assumes "sound_history ms"
  shows "sound_history (drop_unanswered_tool_uses ms)"
    "result_ids (drop_unanswered_tool_uses ms) = result_ids ms"
    "m \<in> set (drop_unanswered_tool_uses ms) \<Longrightarrow> role m = Assistant \<Longrightarrow> set (tool_use_ids m) \<subseteq> result_ids ms"
proof -
  show "sound_history (drop_unanswered_tool_uses ms)"
    using assms paired_keep_answered [of "{}" ms "result_ids ms"]
    by (simp add: sound_history_def wf_history_def drop_unanswered_tool_uses_def list_all_iff)
  show "result_ids (drop_unanswered_tool_uses ms) = result_ids ms"
    by (simp add: result_ids_def drop_unanswered_tool_uses_def)
qed (auto simp: drop_unanswered_tool_uses_def)

lemma complete_waits_indexes:
  assumes "possible_arrival n cancelled arrived"
  shows "map fst (complete_waits n cancelled arrived) = [0..<n]"
proof -
  let ?xs = "if cancelled then arrived @ map (\<lambda>i. (i, WaitCancelled)) (filter (\<lambda>i. i \<notin> fst ` set arrived) [0..<n])
             else arrived"
  have d: "distinct (map fst arrived)" and s: "fst ` set arrived \<subseteq> {..<n}"
    using assms by (auto simp: possible_arrival_def list_all_iff)
  have "distinct (map fst ?xs)" using d by (auto simp: comp_def)
  moreover have "fst ` set ?xs = {..<n}"
  proof (cases cancelled)
    case True
    then show ?thesis using s by (auto simp: image_Un image_image)
  next
    case False
    then have "card (fst ` set arrived) = n" using assms d by (metis distinct_card length_map possible_arrival_def set_map)
    with s False show ?thesis by (simp add: card_subset_eq)
  qed
  ultimately have "set (map fst (complete_waits n cancelled arrived)) = set [0..<n]"
    "distinct (map fst (complete_waits n cancelled arrived))"
    unfolding complete_waits_def by (auto simp: distinct_map)
  moreover have "sorted (map fst (complete_waits n cancelled arrived))" by (simp add: complete_waits_def)
  ultimately show ?thesis by (intro sorted_distinct_set_unique) auto
qed

lemma join_message_ids:
  assumes "join_result_message env calls ids (i, w) = Inr m"
  shows "role m = Tool" "tool_use_ids m = []" "tool_result_ids m = [fc_call_id (stc_final_call (calls ! i))]"
proof -
  obtain r where r: "join_tool_result env (calls ! i) (ids ! i) w = Inr r"
    "build_tool_result_message (re_saved env i) (re_now env i) r = Some m"
    using assms by (auto simp: join_result_message_def rbind_eq_Inr split: option.splits)
  then have "result_call_id r = fc_call_id (stc_final_call (calls ! i))"
    by (auto simp: join_tool_result_def failed_join_def result_call_id_def split: join_wait_result.splits sum.splits)
  then show "role m = Tool" "tool_use_ids m = []" "tool_result_ids m = [fc_call_id (stc_final_call (calls ! i))]"
    using built_message [OF r(2)] by simp_all
qed

lemma collect_ok_all2: "collect_ok f xs = Inr ys \<Longrightarrow> list_all2 (\<lambda>x y. f x = Inr y) xs ys"
  by (induction xs arbitrary: ys) (auto simp: rbind_eq_Inr)

lemma resumed_results:
  assumes "collect_ok (join_result_message env calls ids) (complete_waits (length calls) cancelled arrived) = Inr results"
    and "possible_arrival (length calls) cancelled arrived"
  shows "map tool_result_ids results = map (\<lambda>call. [fc_call_id (stc_final_call call)]) calls"
    "\<forall>m \<in> set results. role m = Tool \<and> tool_use_ids m = []"
proof -
  let ?xs = "complete_waits (length calls) cancelled arrived"
  have all: "list_all2 (\<lambda>x m. join_result_message env calls ids x = Inr m) ?xs results"
    by (rule collect_ok_all2 [OF assms(1)])
  have "list_all2 (\<lambda>x m. tool_result_ids m = [fc_call_id (stc_final_call (calls ! fst x))] \<and> role m = Tool \<and> tool_use_ids m = []) ?xs results"
    using all by (rule list_all2_mono) (metis join_message_ids prod.collapse)
  note facts = this
  then have "map tool_result_ids results = map (\<lambda>x. [fc_call_id (stc_final_call (calls ! fst x))]) ?xs"
    by (auto simp: list_all2_conv_all_nth intro: nth_equalityI)
  also have "\<dots> = map (\<lambda>i. [fc_call_id (stc_final_call (calls ! i))]) (map fst ?xs)" by simp
  also have "\<dots> = map (\<lambda>call. [fc_call_id (stc_final_call call)]) calls"
    unfolding complete_waits_indexes [OF assms(2)] by (rule nth_equalityI) simp_all
  finally show "map tool_result_ids results = map (\<lambda>call. [fc_call_id (stc_final_call call)]) calls" .
  from facts show "\<forall>m \<in> set results. role m = Tool \<and> tool_use_ids m = []"
    by (auto simp: list_all2_conv_all_nth in_set_conv_nth)
qed

section \<open>Suspended calls are calls of the history\<close>

definition calls_in_history :: "suspended_tool_call list \<Rightarrow> chat_message list \<Rightarrow> bool" where
  "calls_in_history calls ms \<longleftrightarrow> (\<forall>call \<in> set calls. fc_call_id (stc_final_call call) \<in> use_ids ms)"

lemma batch_done_calls: "batch_done B rs susp ms \<Longrightarrow> calls_in_history susp ms"
proof -
  assume "batch_done B rs susp ms"
  then obtain pre am as ns where ms: "ms = (pre @ [am]) @ as @ ns" "tool_use_ids am = map result_call_id rs"
    "susp = List.map_filter suspended_from_tool_result rs"
    by (auto simp: batch_done_def batch_recorded_def calls_appended_def)
  have "fc_call_id (stc_final_call call) \<in> set (tool_use_ids am)" if "call \<in> set susp" for call
  proof -
    have "fc_call_id (stc_final_call call) \<in> set (map (fc_call_id \<circ> stc_final_call) susp)" using that by auto
    then show ?thesis unfolding ms(2,3) suspension_ids by auto
  qed
  then show ?thesis by (auto simp: calls_in_history_def use_ids_def ms(1))
qed

lemma run_tools_calls:
  assumes "honest_executor sv"
  shows "triple (\<lambda>c. turn_results c = []) (run_tools sv) (\<lambda>susp c. calls_in_history susp (history c)) (\<lambda>_ _. True)"
  unfolding triple_def
proof (intro allI impI)
  fix c :: "'a loop_context" assume c: "turn_results c = []"
  show "case run_tools sv c of (Inr susp, c') \<Rightarrow> calls_in_history susp (history c') | (Inl x, c') \<Rightarrow> True"
  proof (cases "executes_calls sv c")
    case True
    then have "has_answer c" by (auto simp: executes_calls_def has_answer_def)
    with c run_batch_spec [of False sv "cx_input c"] assms show ?thesis
      unfolding run_tools_executes [OF True] triple_def
      by (fastforce dest: batch_done_calls split: prod.splits sum.splits)
  next
    case False
    then show ?thesis
      by (auto simp: run_tools_def executes_calls_def sbind_def sread_def sreturn_def append_assistant_to_history_def
          env_call_def push_message_def push_raw_def update_state_def smodify_def calls_in_history_def
          split: option.split prod.split)
  qed
qed

lemma run_phases_calls:
  assumes "honest_executor sv"
  shows "triple (\<lambda>_. True) (run_phases sv) (\<lambda>susp c. calls_in_history susp (history c)) (\<lambda>_ _. True)"
proof -
  let ?P = "\<lambda>c. turn_results c = []"
  have weak: "triple ?P m (\<lambda>_. ?P) (\<lambda>_ _. True)" if "keeps turn_results m" for m :: "('a loop_context, loop_abort, unit) step"
    by (rule triple_weaken [OF triple_keeps [OF that, of ?P]]) simp_all
  have new: "triple (\<lambda>_. True) (update_turn (\<lambda>t. turn_state_new (tn_turn_number t))) (\<lambda>_. ?P) (\<lambda>(_ :: loop_abort) _. True)"
    by (simp add: triple_def update_turn_def smodify_def turn_state_new_def)
  have start: "triple (\<lambda>_. True) (start_turn sv) (\<lambda>_. ?P) (\<lambda>(_ :: loop_abort) _. True)"
    unfolding start_turn_def by (rule triple_bind [OF new], rule weak) (intro keeping drain_results)
  show ?thesis
    unfolding run_phases_def
    by (intro triple_bind [OF start] triple_bind [OF weak] run_tools_calls assms keeping)
qed

definition suspension_ok :: "loop_run_result \<Rightarrow> 'e loop_context \<Rightarrow> bool" where
  "suspension_ok r c \<longleftrightarrow> (\<forall>susp. r = RunSuspended susp \<longrightarrow> calls_in_history susp (history c))"

lemma run_turn_calls:
  assumes "honest_executor sv" "run_turn sv c = (Inr (Some r), c')"
  shows "suspension_ok r c'"
proof -
  obtain p c1 where p: "run_phases sv c = (p, c1)" by (rule prod.exhaust)
  show ?thesis
  proof (cases p)
    case (Inr susp)
    have calls: "calls_in_history susp (history c1)"
      using tripleD(1) [OF run_phases_calls [OF assms(1)] TrueI, of c susp c1] p Inr by simp
    show ?thesis
    proof (cases "susp = []")
      case False
      then have "r = RunSuspended susp" "history c' = history c1"
        using assms(2) p Inr
        by (auto simp: run_turn_def sbind_def emit_loop_end_def sread_def emit_def smodify_def sreturn_def split: if_splits)
      then show ?thesis using calls by (simp add: suspension_ok_def)
    next
      case True
      then show ?thesis
        using assms(2) p Inr
        by (auto simp: run_turn_def sbind_def suspension_ok_def conclude_turn_def count_turn_def sread_def update_state_def
            smodify_def emit_loop_end_def emit_def sreturn_def sthrow_def update_turn_def
            split: prod.splits sum.splits option.splits loop_decision.splits)
    qed
  qed (use assms(2) p in \<open>auto simp: run_turn_def sbind_def\<close>)
qed

lemma run_turns_calls:
  assumes "honest_executor sv" "run_turns sv c = Some (Inr r, c')"
  shows "suspension_ok r c'"
proof -
  have "sv' = sv \<longrightarrow> (case fst y of Inr r \<Rightarrow> suspension_ok r (snd y) | Inl _ \<Rightarrow> True)" if "run_turns sv' c = Some y" for sv' c y
    using that
  proof (rule run_turns.raw_induct [where P = "\<lambda>sv' c y. sv' = sv \<longrightarrow>
      (case fst y of Inr r \<Rightarrow> suspension_ok r (snd y) | Inl _ \<Rightarrow> True)", rotated])
    fix run sv' c y
    assume ih: "\<And>sv' c y. run sv' c = Some y \<Longrightarrow> sv' = sv \<longrightarrow> (case fst y of Inr r \<Rightarrow> suspension_ok r (snd y) | Inl _ \<Rightarrow> True)"
      and y: "(case run_turn sv' c of (Inl x, c') \<Rightarrow> Some (Inl x, c')
        | (Inr None, c') \<Rightarrow> run sv' c' | (Inr (Some r), c') \<Rightarrow> Some (Inr r, c')) = Some y"
    obtain t c1 where t: "run_turn sv' c = (t, c1)" by (rule prod.exhaust)
    with y ih [of sv' c1 y] run_turn_calls [OF assms(1), of c _ c1]
    show "sv' = sv \<longrightarrow> (case fst y of Inr r \<Rightarrow> suspension_ok r (snd y) | Inl _ \<Rightarrow> True)"
      by (auto split: sum.splits option.splits)
  qed
  from this [OF assms(2)] show ?thesis by simp
qed

lemma triple_any: "triple P m (\<lambda>_ _. True) (\<lambda>_ _. True)"
  by (simp add: triple_def split: prod.split sum.split)

lemma begin_run_calls:
  assumes "begin_run sv c = (Inr (Some r), c')"
  shows "suspension_ok r c'"
proof -
  let ?T = "\<lambda>_. True" and ?E = "\<lambda>_ _. True" and ?Q = "\<lambda>r _. \<forall>x. r = Some x \<longrightarrow> (\<exists>out. x = RunComplete out)"
  have deny: "triple ?T (deny_command sv cmd reason) (\<lambda>r _. \<exists>out. r = RunComplete out) ?E" for cmd reason
    unfolding deny_command_def Let_def
    by (rule triple_bind [OF triple_any], rule triple_bind [OF triple_any], rule triple_bind [OF triple_any],
        rule triple_read) simp
  have some: "triple (\<lambda>_. \<exists>out. r = RunComplete out) (sreturn (Some r)) ?Q ?E" for r
    by (rule triple_return) simp
  have none: "triple P (sreturn None) ?Q ?E" for P
    by (rule triple_return) simp
  have before: "triple ?T (command_before sv) ?Q ?E"
    unfolding command_before_def
    by (intro triple_bind [OF triple_any] triple_option triple_if triple_prod triple_bind [OF deny] some none)
  have tail: "triple (?Q denied) (case denied of Some r \<Rightarrow> sreturn (Some r)
      | None \<Rightarrow> sbind (push_user_message sv) (\<lambda>_. sreturn None)) ?Q ?E" for denied
    by (cases denied) (auto intro!: triple_bind [OF triple_any] none triple_return)
  have "triple ?T (begin_run sv) ?Q ?E"
    unfolding begin_run_def
    by (intro triple_bind [OF triple_any] triple_if none triple_bind [OF before] tail)
  from tripleD(1) [OF this TrueI assms] show ?thesis by (auto simp: suspension_ok_def)
qed

lemma run_agent_loop_calls:
  assumes "honest_executor sv" "run_agent_loop sv st inp e = Some (Inr r, c')"
  shows "suspension_ok r c'"
proof -
  obtain b :: "loop_abort + loop_run_result option" and c1 where b: "begin_run sv (initial_context st inp e) = (b, c1)"
    by (rule prod.exhaust)
  show ?thesis
    using assms(2) b begin_run_calls [of sv "initial_context st inp e" r c1] run_turns_calls [OF assms(1), of c1 r c']
    by (auto simp: run_agent_loop_def split: sum.splits option.splits)
qed

text \<open>A history with its calls answered: the results of the suspended calls close it.\<close>

lemma resume_sound:
  assumes "sound_history ms" "calls_in_history calls ms" "possible_arrival (length calls) cancelled arrived"
    and "resume_lane env calls cancelled arrived ms = Inr ms'"
  shows "sound_history ms'" "\<forall>m \<in> set ms'. role m = Assistant \<longrightarrow> set (tool_use_ids m) \<subseteq> result_ids ms'"
    "\<exists>kept results. ms' = kept @ results \<and> length kept = length ms \<and>
       map tool_result_ids results = map (\<lambda>call. [fc_call_id (stc_final_call call)]) calls"
proof -
  from assms(4) obtain ids results where r:
    "collect_ok (join_result_message env calls ids) (complete_waits (length calls) cancelled arrived) = Inr results"
    "ms' = drop_unanswered_tool_uses (ms @ results)"
    by (auto simp: resume_lane_def rbind_eq_Inr)
  note res = resumed_results [OF r(1) assms(3)]
  have "set (tool_result_ids m) \<subseteq> use_ids ms" if "m \<in> set results" for m
  proof -
    from that have "tool_result_ids m \<in> set (map tool_result_ids results)" by simp
    then show ?thesis using assms(2) unfolding res(1) by (auto simp: calls_in_history_def)
  qed
  then have "paired_from (use_ids ms) results"
    using res(2) by (induction results) auto
  then have sound: "sound_history (ms @ results)"
    using assms(1) res(2) by (auto simp: sound_history_def wf_history_def paired_from_append use_ids_def list_all_iff)
  show "sound_history ms'" unfolding r(2) by (rule dropped_history(1) [OF sound])
  show "\<forall>m \<in> set ms'. role m = Assistant \<longrightarrow> set (tool_use_ids m) \<subseteq> result_ids ms'"
    unfolding r(2) dropped_history(2) [OF sound] using dropped_history(3) [OF sound] by blast
  show "\<exists>kept results. ms' = kept @ results \<and> length kept = length ms \<and>
       map tool_result_ids results = map (\<lambda>call. [fc_call_id (stc_final_call call)]) calls"
    by (rule exI [of _ "map (keep_answered (result_ids (ms @ results))) ms"],
        rule exI [of _ "map (keep_answered (result_ids (ms @ results))) results"])
      (simp add: r(2) drop_unanswered_tool_uses_def comp_def res(1))
qed

end
