(* ===== verification/Coordination.thy ===== *)
theory Coordination
  imports Prelude
begin

text \<open>
  The process coordinator of \<open>crates/process-coordination/src/lib.rs\<close>: a lock with two groups,
  the writers of executables and the creators of processes. Members of one group run together, the
  groups exclude each other. The state under the mutex is the record \<open>co_state\<close>; \<open>request\<close>,
  \<open>release\<close> and \<open>poll\<close> are the critical sections, with \<^term>\<open>None\<close> for a panic. A waker is the number
  of the task it wakes. The callers (\<open>write_blocking\<close>, \<open>spawn_tokio\<close>, \<open>acquire_blocking\<close>) are the
  checks they make between two waits. The step relation interleaves the critical sections of any number
  of callers; the lemmas show the two groups exclusive, that no critical section panics, that no
  admission loses its wake-up, and that a waiting request is admitted at the second hand-over at
  the latest.
\<close>

section \<open>State\<close>

datatype group = Write | Spawn

fun opposite :: "group \<Rightarrow> group" where
  "opposite Write = Spawn"
| "opposite Spawn = Write"

record entry =
  en_group :: group
  en_admitted :: bool
  en_waker :: "nat option"

record co_state =
  co_next_id :: nat
  co_active :: "group option"
  co_holders :: nat
  co_sealed :: bool
  co_entries :: "nat \<rightharpoonup> entry"
  co_queues :: "group \<Rightarrow> nat list"

definition co_default :: co_state where
  "co_default = \<lparr>co_next_id = 0, co_active = None, co_holders = 0, co_sealed = False,
     co_entries = Map.empty, co_queues = (\<lambda>_. [])\<rparr>"

section \<open>Critical sections\<close>

text \<open>\<open>Coordinator::request\<close>: the id of the request and the new state.\<close>

definition request :: "group \<Rightarrow> co_state \<Rightarrow> (nat \<times> co_state) option" where
  "request g s =
     (let i = co_next_id s in
      if i = u64_max then None
      else
        let s = s\<lparr>co_next_id := i + 1\<rparr>;
            admitted = (co_active s = None \<or> (co_active s = Some g \<and> \<not> co_sealed s));
            s = (if admitted then s\<lparr>co_active := Some g, co_holders := co_holders s + 1\<rparr>
                 else s\<lparr>co_sealed := True, co_queues := (co_queues s)(g := co_queues s g @ [i])\<rparr>)
        in Some (i, s\<lparr>co_entries := (co_entries s)(i \<mapsto>
             \<lparr>en_group = g, en_admitted = admitted, en_waker = None\<rparr>)\<rparr>))"

text \<open>The loop of \<open>release\<close> over the admitted batch: the entries and the wakers taken from them.\<close>

fun admit_batch :: "nat list \<Rightarrow> (nat \<rightharpoonup> entry) \<Rightarrow> ((nat \<rightharpoonup> entry) \<times> nat list) option" where
  "admit_batch [] es = Some (es, [])"
| "admit_batch (i # batch) es =
     (case es i of
        None \<Rightarrow> None
      | Some e \<Rightarrow>
          (case admit_batch batch (es(i \<mapsto> e\<lparr>en_admitted := True, en_waker := None\<rparr>)) of
             None \<Rightarrow> None
           | Some (es, wake) \<Rightarrow> Some (es, (case en_waker e of None \<Rightarrow> wake | Some w \<Rightarrow> w # wake))))"

definition hand_over :: "group \<Rightarrow> co_state \<Rightarrow> (nat list \<times> co_state) option" where
  "hand_over released s =
     (let previous = (case co_active s of Some g \<Rightarrow> g | None \<Rightarrow> released);
          s = s\<lparr>co_active := None\<rparr> in
      case find (\<lambda>g. co_queues s g \<noteq> []) [opposite previous, previous] of
        Some g \<Rightarrow>
          let batch = co_queues s g;
              s = s\<lparr>co_active := Some g, co_sealed := True, co_queues := (co_queues s)(g := []),
                    co_holders := length batch\<rparr> in
          (case admit_batch batch (co_entries s) of
             None \<Rightarrow> None
           | Some (es, wake) \<Rightarrow> Some (wake, s\<lparr>co_entries := es\<rparr>))
      | None \<Rightarrow> Some ([], s\<lparr>co_sealed := False\<rparr>))"

text \<open>\<open>Coordinator::release\<close>: the wakers to call and the new state.\<close>

definition release :: "nat \<Rightarrow> co_state \<Rightarrow> (nat list \<times> co_state) option" where
  "release i s =
     (case co_entries s i of
        None \<Rightarrow> None
      | Some e \<Rightarrow>
          let s = s\<lparr>co_entries := (co_entries s)(i := None)\<rparr> in
          if en_admitted e \<and> co_holders s = 0 then None
          else
            let s = (if en_admitted e then s\<lparr>co_holders := co_holders s - 1\<rparr>
                     else s\<lparr>co_queues := (co_queues s)(en_group e :=
                            filter (\<lambda>q. q \<noteq> i) (co_queues s (en_group e)))\<rparr>)
            in if co_holders s = 0 then hand_over (en_group e) s else Some ([], s))"

text \<open>\<open>Acquire::poll\<close>: whether the permit is ready.\<close>

definition poll :: "nat \<Rightarrow> nat \<Rightarrow> co_state \<Rightarrow> (bool \<times> co_state) option" where
  "poll i w s =
     (case co_entries s i of
        None \<Rightarrow> None
      | Some e \<Rightarrow>
          if en_admitted e then Some (True, s)
          else Some (False, s\<lparr>co_entries := (co_entries s)(i \<mapsto> e\<lparr>en_waker := Some w\<rparr>)\<rparr>))"

section \<open>Callers\<close>

text \<open>
  One round of the worker loop of \<open>write_blocking\<close>, under the mutex: the worker gives up (and drops
  its request), starts the operation, or waits for the condition variable. Instants are numbers.
\<close>

datatype worker_action = GiveUp | Start | Wait | NoEntry

definition expired :: "nat \<Rightarrow> nat option \<Rightarrow> bool" where
  "expired now deadline = (case deadline of None \<Rightarrow> False | Some d \<Rightarrow> d \<le> now)"

definition write_blocking_check :: "bool \<Rightarrow> nat \<Rightarrow> nat option \<Rightarrow> nat \<Rightarrow> co_state \<Rightarrow> worker_action" where
  "write_blocking_check cancelled now deadline i s =
     (if cancelled \<or> expired now deadline then GiveUp
      else case co_entries s i of
             None \<Rightarrow> NoEntry
           | Some e \<Rightarrow> if en_admitted e then Start else Wait)"

definition acquire_blocking_check :: "nat \<Rightarrow> co_state \<Rightarrow> worker_action" where
  "acquire_blocking_check i s =
     (case co_entries s i of None \<Rightarrow> NoEntry | Some e \<Rightarrow> if en_admitted e then Start else Wait)"

text \<open>\<open>with_deadline\<close>: a nested scope keeps the earlier deadline.\<close>

definition with_deadline :: "nat option \<Rightarrow> nat \<Rightarrow> nat option" where
  "with_deadline current deadline = Some (case current of None \<Rightarrow> deadline | Some parent \<Rightarrow> min parent deadline)"

definition spawn_deadline :: "nat option \<Rightarrow> nat option \<Rightarrow> nat option" where
  "spawn_deadline deadline current =
     (case (deadline, current) of
        (Some a, Some b) \<Rightarrow> Some (min a b)
      | (Some a, None) \<Rightarrow> Some a
      | (None, b) \<Rightarrow> b)"

datatype spawn_error = TimedOut

text \<open>
  \<open>spawn_tokio_with_deadline\<close>: \<open>admitted_at\<close> is the instant at which the wait for the permit ended
  with the permit (\<^term>\<open>None\<close> when the timer ended first), \<open>now\<close> the instant after it.
\<close>

definition spawn_tokio_with_deadline ::
  "nat option \<Rightarrow> nat option \<Rightarrow> bool \<Rightarrow> nat \<Rightarrow> (spawn_error + 'a) \<Rightarrow> spawn_error + 'a" where
  "spawn_tokio_with_deadline deadline current admitted now spawned =
     (let deadline = spawn_deadline deadline current in
      if \<not> admitted then Inl TimedOut
      else if expired now deadline then Inl TimedOut
      else spawned)"

section \<open>Interleavings\<close>

datatype co_event = Requested group nat | Polled nat nat bool | Released nat "nat list"

inductive co_step :: "co_state \<Rightarrow> co_event \<Rightarrow> co_state \<Rightarrow> bool" where
  requested: "request g s = Some (i, s') \<Longrightarrow> co_step s (Requested g i) s'"
| polled: "poll i w s = Some (r, s') \<Longrightarrow> co_step s (Polled i w r) s'"
| released: "release i s = Some (wake, s') \<Longrightarrow> co_step s (Released i wake) s'"

inductive_cases co_stepE: "co_step s e s'"

inductive co_run :: "co_state \<Rightarrow> co_event list \<Rightarrow> co_state \<Rightarrow> bool" where
  run_nil: "co_run s [] s"
| run_snoc: "co_run s es s' \<Longrightarrow> co_step s' e s'' \<Longrightarrow> co_run s (es @ [e]) s''"

definition admitted_ids :: "co_state \<Rightarrow> nat set" where
  "admitted_ids s = {i. \<exists>e. co_entries s i = Some e \<and> en_admitted e}"

definition co_inv :: "co_state \<Rightarrow> bool" where
  "co_inv s \<longleftrightarrow>
     (\<forall>i e. co_entries s i = Some e \<longrightarrow> i < co_next_id s) \<and>
     (\<forall>g i. i \<in> set (co_queues s g) \<longleftrightarrow>
        (\<exists>e. co_entries s i = Some e \<and> en_group e = g \<and> \<not> en_admitted e)) \<and>
     (\<forall>g. distinct (co_queues s g)) \<and>
     (\<forall>i e. co_entries s i = Some e \<longrightarrow> en_admitted e \<longrightarrow> co_active s = Some (en_group e)) \<and>
     co_holders s = card (admitted_ids s) \<and>
     (co_holders s = 0 \<longleftrightarrow> co_active s = None) \<and>
     (co_active s = None \<longrightarrow> (\<forall>g. co_queues s g = []) \<and> \<not> co_sealed s) \<and>
     (\<forall>g. co_queues s g \<noteq> [] \<longrightarrow> co_sealed s)"

section \<open>Lemmas\<close>

lemma opposite_simps [simp]: "opposite (opposite g) = g" "opposite g \<noteq> g" "g \<noteq> opposite g"
  by (cases g; simp)+

lemma group_cases: "h = g \<or> h = opposite g"
  by (cases g; cases h) simp_all

abbreviation (input) admit_entry :: "entry \<Rightarrow> entry" where
  "admit_entry e \<equiv> e\<lparr>en_admitted := True, en_waker := None\<rparr>"

definition wakers_of :: "(nat \<rightharpoonup> entry) \<Rightarrow> nat list \<Rightarrow> nat list" where
  "wakers_of es b = concat (map (\<lambda>i. case Option.bind (es i) en_waker of None \<Rightarrow> [] | Some w \<Rightarrow> [w]) b)"

lemma wakers_of_mem: "j \<in> set b \<Longrightarrow> Option.bind (es j) en_waker = Some w \<Longrightarrow> w \<in> set (wakers_of es b)"
  by (induction b) (auto simp: wakers_of_def)

lemma admit_batch_eq:
  assumes "distinct b" "\<forall>i \<in> set b. es i \<noteq> None"
  shows "admit_batch b es = Some (\<lambda>i. if i \<in> set b then map_option admit_entry (es i) else es i, wakers_of es b)"
  using assms
proof (induction b arbitrary: es)
  case Nil
  then show ?case by (simp add: wakers_of_def)
next
  case (Cons i b)
  then obtain e where e: "es i = Some e" by auto
  let ?es = "es(i \<mapsto> admit_entry e)"
  have w: "wakers_of ?es b = wakers_of es b"
    using Cons.prems(1) by (auto simp: wakers_of_def intro!: arg_cong [where f = concat])
  have "admit_batch b ?es = Some (\<lambda>j. if j \<in> set b then map_option admit_entry (?es j) else ?es j, wakers_of ?es b)"
    using Cons by auto
  moreover have "(\<lambda>j. if j \<in> set b then map_option admit_entry (?es j) else ?es j) =
      (\<lambda>j. if j \<in> set (i # b) then map_option admit_entry (es j) else es j)"
    using e by (auto simp: fun_eq_iff)
  ultimately show ?case
    using e w by (simp add: wakers_of_def split: option.splits)
qed

lemma co_inv_default: "co_inv co_default"
  by (simp add: co_inv_def co_default_def admitted_ids_def)

lemma finite_admitted: "co_inv s \<Longrightarrow> finite (admitted_ids s)"
  by (rule finite_subset [of _ "{..<co_next_id s}"]) (auto simp: co_inv_def admitted_ids_def)

lemma queued_iff: "co_inv s \<Longrightarrow> i \<in> set (co_queues s g) \<longleftrightarrow>
    (\<exists>e. co_entries s i = Some e \<and> en_group e = g \<and> \<not> en_admitted e)"
  unfolding co_inv_def by blast

lemma queues_distinct: "co_inv s \<Longrightarrow> distinct (co_queues s g)"
  unfolding co_inv_def by blast

lemma admitted_active: "co_inv s \<Longrightarrow> co_entries s i = Some e \<Longrightarrow> en_admitted e \<Longrightarrow> co_active s = Some (en_group e)"
  unfolding co_inv_def by blast

lemma no_holder_no_queue: "co_inv s \<Longrightarrow> co_holders s = 0 \<Longrightarrow> co_queues s g = []"
  unfolding co_inv_def by blast

lemma entry_lt_next: "co_inv s \<Longrightarrow> co_entries s i = Some e \<Longrightarrow> i < co_next_id s"
  unfolding co_inv_def by blast

lemma waiting_holders:
  assumes "co_inv s" "co_entries s i = Some e" "\<not> en_admitted e"
  shows "co_holders s \<noteq> 0 \<and> co_active s \<noteq> None"
proof -
  have "i \<in> set (co_queues s (en_group e))" using assms queued_iff by blast
  then have "co_holders s \<noteq> 0" using no_holder_no_queue [OF assms(1)] by (metis empty_iff list.set(1))
  then show ?thesis using assms(1) by (simp add: co_inv_def)
qed

lemma poll_inv:
  assumes "co_inv s" "poll i w s = Some (r, s')"
  shows "co_inv s'"
proof (cases "r")
  case True
  then show ?thesis using assms by (auto simp: poll_def split: option.splits if_splits)
next
  case False
  then obtain e where e: "co_entries s i = Some e" "\<not> en_admitted e"
    and s': "s' = s\<lparr>co_entries := (co_entries s)(i \<mapsto> e\<lparr>en_waker := Some w\<rparr>)\<rparr>"
    using assms(2) by (auto simp: poll_def split: option.splits if_splits)
  have "admitted_ids s' = admitted_ids s" using e by (auto simp: admitted_ids_def s')
  then show ?thesis using assms(1) e unfolding co_inv_def s' by auto
qed

lemma request_inv:
  assumes inv: "co_inv s" and r: "request g s = Some (i, s')"
  shows "co_inv s'"
proof -
  let ?a = "co_active s = None \<or> (co_active s = Some g \<and> \<not> co_sealed s)"
  have i: "i = co_next_id s" using r by (auto simp: request_def Let_def split: if_splits)
  have fresh: "co_entries s i = None" "\<And>g. i \<notin> set (co_queues s g)"
    using inv unfolding co_inv_def i by fastforce+
  show ?thesis
  proof (cases ?a)
    case True
    then have s': "s' = s\<lparr>co_next_id := i + 1, co_active := Some g, co_holders := co_holders s + 1,
        co_entries := (co_entries s)(i \<mapsto> \<lparr>en_group = g, en_admitted = True, en_waker = None\<rparr>)\<rparr>"
      using r i by (auto simp: request_def Let_def split: if_splits)
    have "admitted_ids s' = insert i (admitted_ids s)" "i \<notin> admitted_ids s"
      using fresh by (auto simp: admitted_ids_def s')
    then have "card (admitted_ids s') = card (admitted_ids s) + 1" using finite_admitted [OF inv] by simp
    moreover have "co_queues s h = []" if "co_active s = None" for h using inv that by (simp add: co_inv_def)
    ultimately show ?thesis using inv fresh True i unfolding co_inv_def s' by (auto simp: less_Suc_eq)
  next
    case False
    then have s': "s' = s\<lparr>co_next_id := i + 1, co_sealed := True, co_queues := (co_queues s)(g := co_queues s g @ [i]),
        co_entries := (co_entries s)(i \<mapsto> \<lparr>en_group = g, en_admitted = False, en_waker = None\<rparr>)\<rparr>"
      using r i by (auto simp: request_def Let_def split: if_splits)
    have "admitted_ids s' = admitted_ids s"
      using fresh by (auto simp: admitted_ids_def s')
    then show ?thesis using inv fresh False i unfolding co_inv_def s' by (auto simp: less_Suc_eq)
  qed
qed

text \<open>The four ways a release can go in a state that satisfies the invariant.\<close>

lemma release_cases:
  assumes inv: "co_inv s" and r: "release i s = Some (wake, s')"
  obtains
    (cancel) e where "co_entries s i = Some e" "\<not> en_admitted e" "wake = []"
      "s' = s\<lparr>co_entries := (co_entries s)(i := None),
             co_queues := (co_queues s)(en_group e := filter (\<lambda>q. q \<noteq> i) (co_queues s (en_group e)))\<rparr>"
      "co_holders s \<noteq> 0"
  | (leave) e where "co_entries s i = Some e" "en_admitted e" "1 < co_holders s" "wake = []"
      "s' = s\<lparr>co_entries := (co_entries s)(i := None), co_holders := co_holders s - 1\<rparr>"
  | (idle) e where "co_entries s i = Some e" "en_admitted e" "co_holders s = 1" "wake = []"
      "\<And>g. co_queues s g = []"
      "s' = s\<lparr>co_entries := (co_entries s)(i := None), co_holders := 0, co_active := None, co_sealed := False\<rparr>"
  | (batch) e g where "co_entries s i = Some e" "en_admitted e" "co_holders s = 1"
      "co_active s = Some (en_group e)"
      "g = (if co_queues s (opposite (en_group e)) \<noteq> [] then opposite (en_group e) else en_group e)"
      "co_queues s g \<noteq> []" "wake = wakers_of (co_entries s) (co_queues s g)"
      "s' = s\<lparr>co_entries := (\<lambda>j. if j \<in> set (co_queues s g) then map_option admit_entry (co_entries s j)
                              else ((co_entries s)(i := None)) j),
             co_holders := length (co_queues s g), co_active := Some g, co_sealed := True,
             co_queues := (co_queues s)(g := [])\<rparr>"
proof -
  obtain e where e: "co_entries s i = Some e" using r by (auto simp: release_def split: option.splits)
  note queues = queued_iff [OF inv] and dist = queues_distinct [OF inv]
    and act = admitted_active [OF inv e]
  consider "\<not> en_admitted e" | "en_admitted e" "1 < co_holders s" | "en_admitted e" "co_holders s = 1"
    using r e by (cases "co_holders s") (auto simp: release_def Let_def split: if_splits)
  then show thesis
  proof cases
    case 1
    then have "co_holders s \<noteq> 0" using waiting_holders [OF inv e] by blast
    then show thesis using 1 e r cancel by (simp add: release_def Let_def)
  next
    case 2
    then show thesis using e r leave by (simp add: release_def Let_def)
  next
    case 3
    let ?o = "opposite (en_group e)" and ?es = "(co_entries s)(i := None)"
    let ?g = "if co_queues s ?o \<noteq> [] then ?o else en_group e"
    show thesis
    proof (cases "co_queues s ?g = []")
      case True
      then have q: "co_queues s ?o = []" "co_queues s (en_group e) = []" by (auto split: if_splits)
      then have "co_queues s g = []" for g using group_cases [of g "en_group e"] by auto
      then show thesis
        using 3 e r act q idle by (simp add: release_def hand_over_def Let_def)
    next
      case False
      have i: "i \<notin> set (co_queues s g)" for g using queues e 3 by force
      have "\<forall>j \<in> set (co_queues s ?g). ?es j \<noteq> None" using queues i by fastforce
      from admit_batch_eq [OF dist this]
      have ab: "admit_batch (co_queues s ?g) ?es = Some (\<lambda>j. if j \<in> set (co_queues s ?g)
          then map_option admit_entry (?es j) else ?es j, wakers_of ?es (co_queues s ?g))" .
      have w: "wakers_of ?es (co_queues s ?g) = wakers_of (co_entries s) (co_queues s ?g)"
        using i [of ?g] by (auto simp: wakers_of_def intro!: arg_cong [where f = concat])
      have es: "(\<lambda>j. if j \<in> set (co_queues s ?g) then map_option admit_entry (?es j) else ?es j) =
          (\<lambda>j. if j \<in> set (co_queues s ?g) then map_option admit_entry (co_entries s j) else ?es j)"
        using i [of ?g] by (auto simp: fun_eq_iff)
      have "find (\<lambda>g. co_queues s g \<noteq> []) [?o, en_group e] = Some ?g" using False by auto
      then have "release i s = Some (wakers_of (co_entries s) (co_queues s ?g),
          s\<lparr>co_entries := (\<lambda>j. if j \<in> set (co_queues s ?g) then map_option admit_entry (co_entries s j) else ?es j),
             co_holders := length (co_queues s ?g), co_active := Some ?g, co_sealed := True,
             co_queues := (co_queues s)(?g := [])\<rparr>)"
        using 3 e act [OF 3(1)] ab unfolding w es
        by (simp add: release_def hand_over_def Let_def del: find.simps)
      with r batch [OF e 3 act [OF 3(1)] refl False] show thesis by simp
    qed
  qed
qed

lemma release_total:
  assumes inv: "co_inv s" and e: "co_entries s i = Some e"
  shows "release i s \<noteq> None"
proof (cases "en_admitted e")
  case True
  then have "i \<in> admitted_ids s" using e by (simp add: admitted_ids_def)
  then have pos: "co_holders s \<noteq> 0" using inv finite_admitted [OF inv] by (auto simp: co_inv_def)
  have ab: "\<exists>x y. admit_batch (co_queues s g) ((co_entries s)(i := None)) = Some (x, y)" for g
  proof -
    have "\<forall>j \<in> set (co_queues s g). ((co_entries s)(i := None)) j \<noteq> None"
      using queued_iff [OF inv] e True by auto
    then show ?thesis using admit_batch_eq [OF queues_distinct [OF inv]] by simp
  qed
  obtain x y where "admit_batch (co_queues s g) ((co_entries s)(i := None)) = Some (x g, y g)" for g
    using ab by metis
  then show ?thesis using e pos True
    by (simp add: release_def hand_over_def Let_def split: option.split)
next
  case False
  then show ?thesis using e waiting_holders [OF inv e] by (simp add: release_def Let_def)
qed

lemma release_inv:
  assumes inv: "co_inv s" and r: "release i s = Some (wake, s')"
  shows "co_inv s'"
  using inv r
proof (cases rule: release_cases)
  case (cancel e)
  have "admitted_ids s' = admitted_ids s" using cancel by (auto simp: admitted_ids_def)
  then show ?thesis using inv cancel(1,2,5) unfolding co_inv_def cancel(4) by (auto simp: filter_empty_conv)
next
  case (leave e)
  have a: "admitted_ids s' = admitted_ids s - {i}" "i \<in> admitted_ids s" using leave by (auto simp: admitted_ids_def)
  then have "card (admitted_ids s') = co_holders s - 1"
    using inv finite_admitted [OF inv] by (simp add: co_inv_def)
  then show ?thesis using inv leave(1,2,3) unfolding co_inv_def leave(5) by (auto, metis+)
next
  case (idle e)
  have "i \<in> admitted_ids s" "card (admitted_ids s) = 1"
    using idle(1,2,3) inv by (auto simp: admitted_ids_def co_inv_def)
  then have "admitted_ids s = {i}" by (metis card_1_singletonE singletonD)
  then have "en_admitted f \<Longrightarrow> co_entries s j = Some f \<Longrightarrow> j = i" for j f by (auto simp: admitted_ids_def)
  moreover have "co_entries s j = Some f \<Longrightarrow> en_admitted f" for j f
    using inv idle(5) unfolding co_inv_def by (metis list.set(1) empty_iff)
  ultimately have "co_entries s' = Map.empty"
    unfolding idle(6) by (auto simp: fun_eq_iff) (metis not_None_eq)
  then show ?thesis using idle(5) by (simp add: co_inv_def admitted_ids_def) (simp add: idle(6))
next
  case (batch e g)
  let ?q = "co_queues s g"
  have "i \<in> admitted_ids s" "card (admitted_ids s) = 1"
    using batch(1,2,3) inv by (auto simp: admitted_ids_def co_inv_def)
  then have ai: "admitted_ids s = {i}" by (metis card_1_singletonE singletonD)
  have q: "j \<in> set (co_queues s h) \<longleftrightarrow> (\<exists>e. co_entries s j = Some e \<and> en_group e = h \<and> \<not> en_admitted e)"
    and d: "distinct (co_queues s h)" for j h
    using inv unfolding co_inv_def by blast+
  have other: "co_entries s j = Some f \<Longrightarrow> en_admitted f \<Longrightarrow> j = i" for j f
    using ai by (auto simp: admitted_ids_def)
  note lt = entry_lt_next [OF inv]
  have e1: "co_entries s' j = Some f \<Longrightarrow> en_admitted f \<longleftrightarrow> j \<in> set ?q" for j f
    using other [of j f] q [of j g] unfolding batch(8) by (auto split: if_splits)
  have e2: "co_entries s' j \<noteq> None \<longleftrightarrow> co_entries s j \<noteq> None \<and> j \<noteq> i" for j
    using q [of i g] batch(1,2) unfolding batch(8) by auto
  have e3: "co_entries s' j = Some f \<Longrightarrow> \<exists>e. co_entries s j = Some e \<and> en_group f = en_group e" for j f
    unfolding batch(8) by (auto split: if_splits)
  have "admitted_ids s' = set ?q"
  proof (intro set_eqI iffI)
    fix j assume "j \<in> set ?q"
    moreover then have "co_entries s j \<noteq> None" "j \<noteq> i" using q [of j g] q [of i g] batch(1,2) by auto
    ultimately show "j \<in> admitted_ids s'" using e1 [of j] e2 [of j] by (auto simp: admitted_ids_def)
  qed (use e1 in \<open>auto simp: admitted_ids_def\<close>)
  then have card: "card (admitted_ids s') = length ?q" using d by (simp add: distinct_card)
  have fields: "co_next_id s' = co_next_id s" "co_active s' = Some g" "co_holders s' = length ?q"
    "co_sealed s'" "co_queues s' = (co_queues s)(g := [])"
    by (simp_all add: batch(8))
  show ?thesis unfolding co_inv_def fields card
  proof (intro conjI allI impI)
    fix j f assume j: "co_entries s' j = Some f"
    show "j < co_next_id s" using e3 [OF j] lt by blast
    show "Some g = Some (en_group f)" if "en_admitted f" using e1 [OF j] e3 [OF j] q [of j g] that by auto
  next
    fix h j
    show "(j \<in> set (((co_queues s)(g := [])) h)) = (\<exists>e. co_entries s' j = Some e \<and> en_group e = h \<and> \<not> en_admitted e)"
    proof (cases "j \<in> set ?q")
      case True
      then have "en_group f = h \<Longrightarrow> co_entries s j = Some f \<Longrightarrow> h = g" for f using q [of j g] by auto
      then show ?thesis using True e1 [of j] q [of j h] by auto
    next
      case False
      then have "co_entries s' j = (if j = i then None else co_entries s j)" by (simp add: batch(8))
      then show ?thesis using False q [of j h] batch(1,2) by auto
    qed
  next
    show "distinct (((co_queues s)(g := [])) h)" for h using d by simp
  qed (use batch(6) fields(4) in auto)
qed

lemma co_step_inv: "co_step s e s' \<Longrightarrow> co_inv s \<Longrightarrow> co_inv s'"
  by (erule co_step.cases) (auto intro: request_inv poll_inv release_inv)

lemma co_run_inv: "co_run s es s' \<Longrightarrow> co_inv s \<Longrightarrow> co_inv s'"
  by (induction rule: co_run.induct) (auto intro: co_step_inv)

lemma reach_inv: "co_run co_default es s \<Longrightarrow> co_inv s"
  using co_run_inv co_inv_default by blast

text \<open>
  A hand-over is the release of the last holder. A waiting request is one hand-over away from its
  admission when the other group is active and at most two when its own group is.
\<close>

definition is_handover :: "co_state \<Rightarrow> co_event \<Rightarrow> bool" where
  "is_handover s e = (case e of Released i _ \<Rightarrow> i \<in> admitted_ids s \<and> co_holders s = 1 | _ \<Rightarrow> False)"

definition rounds_left :: "co_state \<Rightarrow> nat \<Rightarrow> nat" where
  "rounds_left s i = (case co_entries s i of None \<Rightarrow> 0
     | Some e \<Rightarrow> if en_admitted e then 0 else if co_active s = Some (en_group e) then 2 else 1)"

text \<open>A run during which the request \<open>i\<close> is not dropped, with the number of its hand-overs.\<close>

inductive co_path :: "nat \<Rightarrow> co_state \<Rightarrow> nat \<Rightarrow> co_state \<Rightarrow> bool" for i s where
  path_nil: "co_entries s i \<noteq> None \<Longrightarrow> co_path i s 0 s"
| path_step: "co_path i s n s' \<Longrightarrow> co_step s' e s'' \<Longrightarrow> co_entries s'' i \<noteq> None \<Longrightarrow>
    co_path i s (n + (if is_handover s' e then 1 else 0)) s''"

lemma single_holder: "co_inv s \<Longrightarrow> co_holders s = 1 \<Longrightarrow> j \<in> admitted_ids s \<Longrightarrow> i \<in> admitted_ids s \<Longrightarrow> i = j"
  unfolding co_inv_def by (metis card_1_singletonE singletonD)

lemma rounds_release:
  assumes inv: "co_inv s" and r: "release j s = Some (wake, s')" and i: "co_entries s' i \<noteq> None"
  shows "(if is_handover s (Released j wake) then 1 else 0) + rounds_left s' i \<le> rounds_left s i"
  using inv r
proof (cases rule: release_cases)
  case (cancel e)
  then have "\<not> is_handover s (Released j wake)" by (auto simp: is_handover_def admitted_ids_def)
  then show ?thesis using i cancel(4) by (auto simp: rounds_left_def)
next
  case (leave e)
  then have "\<not> is_handover s (Released j wake)" by (auto simp: is_handover_def)
  then show ?thesis using i leave(5) by (auto simp: rounds_left_def)
next
  case (idle e)
  from i idle(6) obtain f where f: "co_entries s i = Some f" "i \<noteq> j" by (auto split: if_splits)
  then have "i \<in> admitted_ids s" using queued_iff [OF inv, of i "en_group f"] idle(5) by (auto simp: admitted_ids_def)
  moreover have "j \<in> admitted_ids s" using idle(1,2) by (simp add: admitted_ids_def)
  ultimately show ?thesis using single_holder [OF inv idle(3)] f(2) by blast
next
  case (batch e g)
  have j: "j \<in> admitted_ids s" using batch(1,2) by (simp add: admitted_ids_def)
  have "j \<notin> set (co_queues s g)" using queued_iff [OF inv] batch(1,2) by auto
  then obtain f where f: "co_entries s i = Some f" "i \<noteq> j" using i batch(8) by (auto split: if_splits)
  then have na: "\<not> en_admitted f" using single_holder [OF inv batch(3) j] by (auto simp: admitted_ids_def)
  then have q: "i \<in> set (co_queues s (en_group f))" using queued_iff [OF inv] f by blast
  show ?thesis
  proof (cases "en_group f = g")
    case True
    then have "rounds_left s' i = 0" using q f by (simp add: rounds_left_def batch(8))
    then show ?thesis using f na by (simp add: rounds_left_def)
  next
    case False
    have "en_group f = en_group e"
    proof (rule ccontr)
      assume "en_group f \<noteq> en_group e"
      then have "en_group f = opposite (en_group e)" using group_cases by blast
      with q False batch(5) show False by (auto split: if_splits)
    qed
    moreover have "i \<notin> set (co_queues s g)" using False queued_iff [OF inv] f by auto
    ultimately show ?thesis using f na False batch(4)
      by (simp add: rounds_left_def batch(8))
  qed
qed

lemma rounds_step:
  assumes inv: "co_inv s" and st: "co_step s e s'" and i: "co_entries s i \<noteq> None" "co_entries s' i \<noteq> None"
  shows "(if is_handover s e then 1 else 0) + rounds_left s' i \<le> rounds_left s i"
  using st
proof cases
  case (requested g j)
  then have j: "j = co_next_id s" by (auto simp: request_def Let_def split: if_splits)
  then have "i \<noteq> j" using inv i unfolding co_inv_def by auto
  then have same: "co_entries s' i = co_entries s i" and
    act: "co_active s' = co_active s \<or> co_active s = None"
    using requested by (auto simp: request_def Let_def split: if_splits)
  show ?thesis
  proof (cases "\<exists>f. co_entries s i = Some f \<and> \<not> en_admitted f")
    case True
    then have "co_active s \<noteq> None" using waiting_holders [OF inv] by blast
    then have "co_active s' = co_active s" using act by (elim disjE) simp_all
    then show ?thesis using same requested(1) by (simp add: is_handover_def rounds_left_def split: option.split)
  next
    case False
    then show ?thesis using same requested(1) by (auto simp: is_handover_def rounds_left_def split: option.splits)
  qed
next
  case (polled j w r)
  then show ?thesis by (auto simp: is_handover_def rounds_left_def poll_def split: option.splits if_splits)
next
  case (released j wake)
  then show ?thesis using rounds_release [OF inv _ i(2)] by blast
qed

lemma co_path_inv:
  "co_path i s n s' \<Longrightarrow> co_inv s \<Longrightarrow> co_inv s' \<and> co_entries s' i \<noteq> None \<and> n + rounds_left s' i \<le> rounds_left s i"
proof (induction rule: co_path.induct)
  case (path_step n s' e s'')
  then have "co_inv s'" "co_entries s' i \<noteq> None" and le: "n + rounds_left s' i \<le> rounds_left s i" by auto
  moreover from rounds_step [OF this(1) path_step.hyps(2) this(2) path_step.hyps(3)]
  have "(if is_handover s' e then 1 else 0) + rounds_left s'' i \<le> rounds_left s' i" .
  ultimately show ?case using co_step_inv path_step.hyps(2,3) by (auto split: if_splits)
qed simp

section \<open>Properties\<close>

text \<open>
  C11: the two groups exclude each other: in every state that any interleaving of requests, polls and
  releases reaches, all admitted requests belong to the one active group, and the holder count is
  the number of admitted requests.
\<close>

theorem groups_exclusive:
  assumes "co_run co_default es s"
  shows "(\<forall>i \<in> admitted_ids s. map_option en_group (co_entries s i) = co_active s) \<and>
     co_holders s = card (admitted_ids s) \<and>
     (co_active s = None \<longrightarrow> dom (co_entries s) = {})"
proof -
  have inv: "co_inv s" using assms by (rule reach_inv)
  have "co_entries s i = None" if "co_active s = None" for i
  proof (rule ccontr)
    assume "co_entries s i \<noteq> None"
    then obtain e where "co_entries s i = Some e" by blast
    then show False using that waiting_holders [OF inv] admitted_active [OF inv] by (cases "en_admitted e") auto
  qed
  moreover have "\<forall>i \<in> admitted_ids s. map_option en_group (co_entries s i) = co_active s"
    using admitted_active [OF inv] by (auto simp: admitted_ids_def)
  moreover have "co_holders s = card (admitted_ids s)" using inv by (simp add: co_inv_def)
  ultimately show ?thesis by auto
qed

definition ex_s1 :: co_state where "ex_s1 = snd (the (request Write co_default))"
definition ex_s2 :: co_state where "ex_s2 = snd (the (request Spawn ex_s1))"
definition ex_s3 :: co_state where "ex_s3 = snd (the (request Write ex_s2))"
definition ex_s4 :: co_state where "ex_s4 = snd (the (poll 2 7 ex_s3))"
definition ex_s5 :: co_state where "ex_s5 = snd (the (release 0 ex_s4))"
definition ex_s6 :: co_state where "ex_s6 = snd (the (release 1 ex_s5))"

lemmas ex_defs = ex_s1_def ex_s2_def ex_s3_def ex_s4_def ex_s5_def ex_s6_def
  request_def release_def poll_def hand_over_def co_default_def u64_max_def Let_def

lemma ex_steps:
  "request Write co_default = Some (0, ex_s1)" "request Spawn ex_s1 = Some (1, ex_s2)"
  "request Write ex_s2 = Some (2, ex_s3)" "poll 2 7 ex_s3 = Some (False, ex_s4)"
  "release 0 ex_s4 = Some ([], ex_s5)" "release 1 ex_s5 = Some ([7], ex_s6)"
  by (simp_all add: ex_defs)

lemma ex_run: "co_run co_default [Requested Write 0, Requested Spawn 1, Requested Write 2] ex_s3"
  using run_snoc [OF run_snoc [OF run_snoc [OF run_nil requested [OF ex_steps(1)]] requested [OF ex_steps(2)]]
      requested [OF ex_steps(3)]] by simp

theorem groups_exclusive_witness: "co_holders ex_s3 = card (admitted_ids ex_s3)"
  using groups_exclusive [OF ex_run] by blast

text \<open>
  C12: bounded waiting: while a request is live, at most two hand-overs happen before it is
  admitted, only one when the other group is active, and none after it. Later requests of either
  group cannot delay it further.
\<close>

theorem bounded_waiting:
  assumes "co_run co_default es s" "co_path i s n s'"
  shows "n \<le> 2 \<and> (n = 2 \<longrightarrow> i \<in> admitted_ids s') \<and>
     (co_active s \<noteq> map_option en_group (co_entries s i) \<longrightarrow> n \<le> 1 \<and> (n = 1 \<longrightarrow> i \<in> admitted_ids s'))"
proof -
  have inv: "co_inv s" using assms(1) by (rule reach_inv)
  have p: "co_entries s' i \<noteq> None" "n + rounds_left s' i \<le> rounds_left s i"
    using co_path_inv [OF assms(2) inv] by auto
  have z: "rounds_left s' i = 0 \<Longrightarrow> i \<in> admitted_ids s'"
    using p(1) by (auto simp: rounds_left_def admitted_ids_def split: option.splits if_splits)
  have "rounds_left s i \<le> 2" by (simp add: rounds_left_def split: option.splits)
  moreover have "rounds_left s i \<le> 1" if "co_active s \<noteq> map_option en_group (co_entries s i)"
    using that by (auto simp: rounds_left_def split: option.splits)
  ultimately show ?thesis using p(2) z by auto
qed

lemma ex_path: "co_path 2 ex_s3 2 ex_s6"
proof -
  have "co_entries ex_s3 2 \<noteq> None" "co_entries ex_s4 2 \<noteq> None" "co_entries ex_s5 2 \<noteq> None" "co_entries ex_s6 2 \<noteq> None"
    "\<not> is_handover ex_s3 (Polled 2 7 False)"
    "is_handover ex_s4 (Released 0 [])" "is_handover ex_s5 (Released 1 [7])"
    by (simp_all add: is_handover_def admitted_ids_def ex_defs)
  then show ?thesis
    using path_step [OF path_step [OF path_step [OF path_nil polled [OF ex_steps(4)]] released [OF ex_steps(5)]]
      released [OF ex_steps(6)], of 2] by (simp add: numeral_2_eq_2)
qed

theorem bounded_waiting_witness: "2 \<in> admitted_ids ex_s6"
  using bounded_waiting [OF ex_run ex_path] by blast

text \<open>
  C36: the critical sections never panic on a live request, and no wake-up is lost: a release keeps
  every other request live, and it calls the waker of every request that it admits.
\<close>

theorem no_lost_wakeup:
  assumes "co_run co_default es s" "co_entries s i \<noteq> None"
  shows "\<exists>wake s'. release i s = Some (wake, s') \<and> poll i w s \<noteq> None \<and>
     dom (co_entries s') = dom (co_entries s) - {i} \<and>
     (\<forall>j \<in> admitted_ids s' - admitted_ids s. \<forall>w. Option.bind (co_entries s j) en_waker = Some w \<longrightarrow> w \<in> set wake)"
proof -
  have inv: "co_inv s" using assms(1) by (rule reach_inv)
  obtain e where e: "co_entries s i = Some e" using assms(2) by blast
  have rel: "release i s \<noteq> None" by (rule release_total [OF inv e])
  then obtain wake s' where r: "release i s = Some (wake, s')" by (metis option.exhaust prod.exhaust)
  have pl: "poll i w s \<noteq> None" using e by (cases "en_admitted e") (simp_all add: poll_def)
  have dw: "dom (co_entries s') = dom (co_entries s) - {i} \<and>
     (\<forall>j \<in> admitted_ids s' - admitted_ids s. \<forall>w. Option.bind (co_entries s j) en_waker = Some w \<longrightarrow> w \<in> set wake)"
    using inv r
  proof (cases rule: release_cases)
    case (batch f g)
    have "i \<notin> set (co_queues s g)" using queued_iff [OF inv] batch(1,2) by auto
    then have "dom (co_entries s') = dom (co_entries s) - {i}" using batch(1) by (auto simp: batch(8) split: if_splits)
    moreover have "w \<in> set wake" if j: "j \<in> admitted_ids s' - admitted_ids s"
      and w: "Option.bind (co_entries s j) en_waker = Some w" for j w
    proof -
      have "j \<in> set (co_queues s g)"
        using j by (auto simp: batch(8) admitted_ids_def split: if_splits)
      then show ?thesis unfolding batch(7) using w by (rule wakers_of_mem)
    qed
    ultimately show ?thesis by simp
  next
    case (cancel f)
    have "admitted_ids s' \<subseteq> admitted_ids s" "dom (co_entries s') = dom (co_entries s) - {i}"
      unfolding cancel(4) by (auto simp: admitted_ids_def)
    then show ?thesis by blast
  next
    case (leave f)
    have "admitted_ids s' \<subseteq> admitted_ids s" "dom (co_entries s') = dom (co_entries s) - {i}"
      unfolding leave(5) by (auto simp: admitted_ids_def)
    then show ?thesis by blast
  next
    case (idle f)
    have "admitted_ids s' \<subseteq> admitted_ids s" "dom (co_entries s') = dom (co_entries s) - {i}"
      unfolding idle(6) by (auto simp: admitted_ids_def)
    then show ?thesis by blast
  qed
  show ?thesis by (rule exI, rule exI, rule conjI [OF r conjI [OF pl dw]])
qed

theorem no_lost_wakeup_witness:
  "\<exists>wake s'. release 0 ex_s3 = Some (wake, s') \<and> dom (co_entries s') = dom (co_entries ex_s3) - {0}"
proof -
  have "co_entries ex_s3 0 \<noteq> None" by (simp add: ex_defs)
  from no_lost_wakeup [OF ex_run this, of 0] show ?thesis
    by (elim exE conjE, intro exI conjI)
qed

end
