(* ===== verification/Lease.thy ===== *)
theory Lease
  imports Prelude
begin

text \<open>
  The attach leases of the gateway (\<open>apps/shared/src/gateway/session_lease.rs\<close>) and the guards
  built on them (\<open>session_service_impl.rs\<close>, \<open>session_handle.rs\<close>, \<open>httpserver/router.rs\<close>). The table
  is a list of shards, each a hash map behind its own mutex; an operation locks the shard of its
  session, so its body is a function on that map. The clock is an argument: the milliseconds
  since the epoch, or \<^term>\<open>None\<close> when the wall clock is before the epoch. The hash function is an
  argument too: nothing depends on its values. The lemmas show that the shards behave like one
  table and that a live lease admits one writer.
\<close>

section \<open>Leases\<close>

definition stale_lease_threshold_ms :: nat where
  "stale_lease_threshold_ms = 45000"

definition orphan_session_threshold_ms :: nat where
  "orphan_session_threshold_ms = 7200000"

definition lease_table_shard_count :: nat where
  "lease_table_shard_count = 16"

definition daemon_principal_prefix :: rstr where
  "daemon_principal_prefix = lit ''daemon:''"

definition is_daemon_principal :: "rstr \<Rightarrow> bool" where
  "is_daemon_principal client_id = starts_with daemon_principal_prefix client_id"

definition daemon_principal :: "rstr \<Rightarrow> rstr" where
  "daemon_principal sfx = daemon_principal_prefix @ sfx"

definition daemon_cron_principal :: rstr where
  "daemon_cron_principal = daemon_principal (lit ''cron'')"

definition daemon_hook_principal :: "rstr \<Rightarrow> rstr" where
  "daemon_hook_principal hook_id = daemon_principal (lit ''hook:'' @ hook_id)"

definition daemon_channel_principal :: "rstr \<Rightarrow> rstr" where
  "daemon_channel_principal channel_id = daemon_principal (lit ''channel:'' @ channel_id)"

record session_lease =
  sl_client_id :: rstr
  sl_client_pid :: "nat option"
  sl_client_hostname :: "rstr option"
  sl_last_heartbeat_ms :: nat

definition is_stale :: "session_lease \<Rightarrow> nat \<Rightarrow> nat \<Rightarrow> bool" where
  "is_stale lease now threshold_ms =
     (sl_last_heartbeat_ms lease = 0 \<or> threshold_ms < now - sl_last_heartbeat_ms lease)"

definition fresh_lease :: "rstr \<Rightarrow> nat option \<Rightarrow> rstr option \<Rightarrow> nat \<Rightarrow> session_lease" where
  "fresh_lease client_id pid hostname now =
     \<lparr>sl_client_id = client_id, sl_client_pid = pid, sl_client_hostname = hostname,
      sl_last_heartbeat_ms = now\<rparr>"

type_synonym lease_map = "rstr \<rightharpoonup> session_lease"
type_synonym lease_table = "lease_map list"

text \<open>The data of \<open>Busy\<close>: holder, host, pid, last heartbeat, staleness.\<close>

datatype lease_acquire_outcome =
    Acquired
  | AcquireBusy rstr "rstr option" "nat option" nat bool
  | AcquireClockSkew

datatype lease_check_failure =
    LeaseBusy rstr "rstr option" "nat option" nat bool
  | LeaseSkew

definition busy :: "session_lease \<Rightarrow> bool \<Rightarrow> lease_check_failure" where
  "busy lease stale = LeaseBusy (sl_client_id lease) (sl_client_hostname lease) (sl_client_pid lease)
     (sl_last_heartbeat_ms lease) stale"

section \<open>The critical sections\<close>

definition acquire_in ::
  "nat \<Rightarrow> rstr \<Rightarrow> nat option \<Rightarrow> rstr option \<Rightarrow> rstr \<Rightarrow> lease_map \<Rightarrow> lease_acquire_outcome \<times> lease_map" where
  "acquire_in now client_id pid hostname sid table =
     (case table sid of
        Some lease \<Rightarrow>
          if sl_client_id lease = client_id then
            (Acquired, table(sid \<mapsto> lease\<lparr>sl_last_heartbeat_ms := now,
               sl_client_pid := (if pid \<noteq> None then pid else sl_client_pid lease),
               sl_client_hostname := (if hostname \<noteq> None then hostname else sl_client_hostname lease)\<rparr>))
          else if is_stale lease now stale_lease_threshold_ms then
            (Acquired, table(sid \<mapsto> fresh_lease client_id pid hostname now))
          else (AcquireBusy (sl_client_id lease) (sl_client_hostname lease) (sl_client_pid lease)
                  (sl_last_heartbeat_ms lease) False, table)
      | None \<Rightarrow> (Acquired, table(sid \<mapsto> fresh_lease client_id pid hostname now)))"

definition heartbeat_in ::
  "nat \<Rightarrow> rstr \<Rightarrow> nat option \<Rightarrow> rstr option \<Rightarrow> rstr \<Rightarrow> lease_map \<Rightarrow> (lease_check_failure + unit) \<times> lease_map" where
  "heartbeat_in now client_id pid hostname sid table =
     (case table sid of
        Some lease \<Rightarrow>
          if sl_client_id lease = client_id then
            (Inr (), table(sid \<mapsto> lease\<lparr>sl_last_heartbeat_ms := now\<rparr>))
          else (Inl (busy lease (is_stale lease now stale_lease_threshold_ms)), table)
      | None \<Rightarrow> (Inr (), table(sid \<mapsto> fresh_lease client_id pid hostname now)))"

definition detach_in :: "rstr \<Rightarrow> rstr \<Rightarrow> lease_map \<Rightarrow> unit \<times> lease_map" where
  "detach_in client_id sid table =
     (case table sid of
        Some lease \<Rightarrow> ((), if sl_client_id lease = client_id then table(sid := None) else table)
      | None \<Rightarrow> ((), table))"

definition has_live_lease_in :: "nat \<Rightarrow> nat \<Rightarrow> rstr \<Rightarrow> lease_map \<Rightarrow> bool \<times> lease_map" where
  "has_live_lease_in now threshold sid table =
     (case table sid of Some lease \<Rightarrow> (\<not> is_stale lease now threshold, table) | None \<Rightarrow> (False, table))"

definition check_holder_in ::
  "nat \<Rightarrow> rstr option \<Rightarrow> rstr \<Rightarrow> lease_map \<Rightarrow> (lease_check_failure + unit) \<times> lease_map" where
  "check_holder_in now client_id sid table =
     (case table sid of
        None \<Rightarrow> (Inr (), table)
      | Some lease \<Rightarrow>
          if client_id = Some (sl_client_id lease) \<or> is_stale lease now stale_lease_threshold_ms
          then (Inr (), table)
          else (Inl (busy lease False), table))"

definition check_or_takeover_in ::
  "nat \<Rightarrow> rstr option \<Rightarrow> rstr \<Rightarrow> lease_map \<Rightarrow> (lease_check_failure + unit) \<times> lease_map" where
  "check_or_takeover_in now client_id sid table =
     (case table sid of
        None \<Rightarrow> (Inr (), table)
      | Some lease \<Rightarrow>
          if client_id = Some (sl_client_id lease) then (Inr (), table)
          else if is_stale lease now stale_lease_threshold_ms then
            (Inr (), case client_id of
                       Some cid \<Rightarrow> if cid \<noteq> [] then table(sid \<mapsto> fresh_lease cid None None now) else table
                     | None \<Rightarrow> table)
          else (Inl (busy lease False), table))"

definition remove_in :: "rstr \<Rightarrow> lease_map \<Rightarrow> unit \<times> lease_map" where
  "remove_in sid table = ((), table(sid := None))"

section \<open>The sharded table\<close>

definition lease_table_new :: lease_table where
  "lease_table_new = replicate lease_table_shard_count Map.empty"

definition shard_for :: "(rstr \<Rightarrow> nat) \<Rightarrow> lease_table \<Rightarrow> rstr \<Rightarrow> nat" where
  "shard_for hash shards sid = hash sid mod length shards"

definition with_shard ::
  "(rstr \<Rightarrow> nat) \<Rightarrow> rstr \<Rightarrow> (rstr \<Rightarrow> lease_map \<Rightarrow> 'r \<times> lease_map) \<Rightarrow> lease_table \<Rightarrow> 'r \<times> lease_table" where
  "with_shard hash sid f shards =
     (let i = shard_for hash shards sid; (r, table) = f sid (shards ! i) in (r, shards[i := table]))"

definition acquire where
  "acquire hash clock sid client_id pid hostname shards =
     (case clock of
        None \<Rightarrow> (AcquireClockSkew, shards)
      | Some now \<Rightarrow> with_shard hash sid (acquire_in now client_id pid hostname) shards)"

definition heartbeat where
  "heartbeat hash clock sid client_id pid hostname shards =
     (case clock of
        None \<Rightarrow> (Inl LeaseSkew, shards)
      | Some now \<Rightarrow> with_shard hash sid (heartbeat_in now client_id pid hostname) shards)"

definition detach where
  "detach hash sid client_id shards = with_shard hash sid (detach_in client_id) shards"

definition has_live_lease where
  "has_live_lease hash clock sid threshold shards =
     (case clock of None \<Rightarrow> False | Some now \<Rightarrow> fst (with_shard hash sid (has_live_lease_in now threshold) shards))"

definition check_holder where
  "check_holder hash clock sid client_id shards =
     (case clock of
        None \<Rightarrow> Inl LeaseSkew
      | Some now \<Rightarrow> fst (with_shard hash sid (check_holder_in now client_id) shards))"

definition check_or_takeover_holder where
  "check_or_takeover_holder hash clock sid client_id shards =
     (case clock of
        None \<Rightarrow> (Inl LeaseSkew, shards)
      | Some now \<Rightarrow> with_shard hash sid (check_or_takeover_in now client_id) shards)"

definition remove_lease where
  "remove_lease hash sid shards = with_shard hash sid remove_in shards"

text \<open>\<open>snapshot\<close>, grouped by session: the holder and heartbeat of every entry, shard by shard.\<close>

definition snapshot :: "lease_table \<Rightarrow> rstr \<Rightarrow> (rstr \<times> nat) list" where
  "snapshot shards sid =
     List.map_filter (\<lambda>table. map_option (\<lambda>l. (sl_client_id l, sl_last_heartbeat_ms l)) (table sid)) shards"

section \<open>The guards of the service\<close>

datatype session_service_error =
    SessionStoreError rstr
  | SessionNotFound rstr
  | SessionBusy rstr rstr
  | SessionClosed rstr
  | SessionAttachedByAnotherClient rstr rstr rstr nat nat bool
  | LeaseRequired rstr
  | LeaseClockSkew rstr
  | OtherSessionError rstr

fun from_lease_check_failure :: "rstr \<Rightarrow> lease_check_failure \<Rightarrow> session_service_error" where
  "from_lease_check_failure sid (LeaseBusy cid host pid hb stale) =
     SessionAttachedByAnotherClient sid cid (case host of None \<Rightarrow> [] | Some h \<Rightarrow> h)
       (case pid of None \<Rightarrow> 0 | Some p \<Rightarrow> p) hb stale"
| "from_lease_check_failure sid LeaseSkew = LeaseClockSkew sid"

text \<open>\<open>client_id.filter(|s| !s.is_empty())\<close>\<close>

definition identified :: "rstr option \<Rightarrow> rstr option" where
  "identified client_id = (case client_id of Some c \<Rightarrow> if c = [] then None else Some c | None \<Rightarrow> None)"

definition assert_lease_holder where
  "assert_lease_holder hash clock enforce sid client_id shards =
     (case identified client_id of
        None \<Rightarrow> (if enforce then Inl (LeaseRequired sid) else Inr (), shards)
      | Some cid \<Rightarrow>
          if is_daemon_principal cid then (Inr (), shards)
          else
            let (r, shards) = check_or_takeover_holder hash clock sid (Some cid) shards
            in (map_err (from_lease_check_failure sid) r, shards))"

text \<open>
  \<open>open_session\<close>: the lease is taken before the session is opened and given back when opening
  fails. \<open>open_inner\<close> is the rest of the operation; it may take time, so it maps the table to the one
  at its end.
\<close>

definition open_session where
  "open_session hash clock enforce open_inner sid client_id pid hostname shards =
     (case identified client_id of
        None \<Rightarrow> if enforce then (Inl (LeaseRequired sid), shards) else open_inner shards
      | Some cid \<Rightarrow>
          let (outcome, shards) =
            (if is_daemon_principal cid then (Acquired, shards)
             else acquire hash clock sid cid pid hostname shards) in
          (case outcome of
             AcquireClockSkew \<Rightarrow> (Inl (LeaseClockSkew sid), shards)
           | AcquireBusy holder host hpid hb stale \<Rightarrow>
               (Inl (from_lease_check_failure sid (LeaseBusy holder host hpid hb stale)), shards)
           | Acquired \<Rightarrow>
               (case open_inner shards of
                  (Inr record, shards) \<Rightarrow> (Inr record, shards)
                | (Inl error, shards) \<Rightarrow> (Inl error, snd (detach hash sid cid shards)))))"

definition heartbeat_session where
  "heartbeat_session hash clock sid client_id pid hostname shards =
     (case identified client_id of
        None \<Rightarrow> (Inr (), shards)
      | Some cid \<Rightarrow>
          let (r, shards) = heartbeat hash clock sid cid pid hostname shards
          in (map_err (from_lease_check_failure sid) r, shards))"

definition detach_session where
  "detach_session hash sid client_id shards =
     (case identified client_id of None \<Rightarrow> shards | Some cid \<Rightarrow> snd (detach hash sid cid shards))"

text \<open>\<open>force_close_session_with_lease\<close>, up to the close itself: the error, or the permission.\<close>

definition force_close_guard where
  "force_close_guard hash clock enforce sid client_id shards =
     (case identified client_id of
        None \<Rightarrow> if enforce then Inl (LeaseRequired sid) else Inr ()
      | Some cid \<Rightarrow>
          if is_daemon_principal cid then Inr ()
          else map_err (from_lease_check_failure sid) (check_holder hash clock sid (Some cid) shards))"

definition should_reject_at_pop_time where
  "should_reject_at_pop_time hash clock sid client_id shards =
     (case identified client_id of
        None \<Rightarrow> None
      | Some cid \<Rightarrow>
          if is_daemon_principal cid then None
          else (case check_holder hash clock sid (Some cid) shards of
                  Inl failure \<Rightarrow> Some (from_lease_check_failure sid failure)
                | Inr _ \<Rightarrow> None))"

datatype router_rejection = ForgedDaemonPrincipal rstr | SessionRejection session_service_error

definition reject_forged_daemon_principal :: "rstr option \<Rightarrow> router_rejection + unit" where
  "reject_forged_daemon_principal client_id =
     (case client_id of
        Some cid \<Rightarrow> if is_daemon_principal cid then Inl (ForgedDaemonPrincipal cid) else Inr ()
      | None \<Rightarrow> Inr ())"

definition require_lease_holder where
  "require_lease_holder hash clock enforce has_control_plane sid client_id shards =
     (case reject_forged_daemon_principal client_id of
        Inl e \<Rightarrow> (Inl e, shards)
      | Inr _ \<Rightarrow>
          if \<not> has_control_plane then (Inr (), shards)
          else let (r, shards) = assert_lease_holder hash clock enforce sid client_id shards
               in (map_err SessionRejection r, shards))"

section \<open>One table behind the shards\<close>

text \<open>The table that the shards represent: a session's lease lives in the shard of its hash.\<close>

definition flat :: "(rstr \<Rightarrow> nat) \<Rightarrow> lease_table \<Rightarrow> lease_map" where
  "flat hash shards sid = (shards ! shard_for hash shards sid) sid"

text \<open>
  What the sharding relies on: the body of an operation reads and writes the entry of its own
  session only.
\<close>

locale session_op =
  fixes f :: "rstr \<Rightarrow> lease_map \<Rightarrow> 'r \<times> lease_map"
  assumes reads_own: "t sid = t' sid \<Longrightarrow> fst (f sid t) = fst (f sid t') \<and> snd (f sid t) sid = snd (f sid t') sid"
    and writes_own: "sid' \<noteq> sid \<Longrightarrow> snd (f sid t) sid' = t sid'"
begin

lemma refines:
  assumes "shards \<noteq> []"
  shows "fst (with_shard hash sid f shards) = fst (f sid (flat hash shards)) \<and>
    flat hash (snd (with_shard hash sid f shards)) = snd (f sid (flat hash shards)) \<and>
    length (snd (with_shard hash sid f shards)) = length shards"
proof -
  let ?i = "shard_for hash shards sid"
  obtain r t where f: "f sid (shards ! ?i) = (r, t)" by (rule prod.exhaust)
  have i: "?i < length shards" using assms by (simp add: shard_for_def)
  have same: "(shards ! ?i) sid = flat hash shards sid" by (simp add: flat_def)
  note own = reads_own [where t = "shards ! ?i" and t' = "flat hash shards" and sid = sid, OF same]
  have w: "with_shard hash sid f shards = (r, shards[?i := t])" using f by (simp add: with_shard_def)
  have "flat hash (shards[?i := t]) s = snd (f sid (flat hash shards)) s" for s
  proof (cases "s = sid")
    case True
    then show ?thesis using own f i by (simp add: flat_def shard_for_def)
  next
    case False
    then have "snd (f sid (flat hash shards)) s = flat hash shards s" "t s = (shards ! ?i) s"
      using writes_own [of s sid] f by (auto, metis snd_conv)
    then show ?thesis using i by (auto simp: flat_def shard_for_def nth_list_update)
  qed
  then show ?thesis using own f w by auto
qed

end

interpretation acquire: session_op "acquire_in now client_id pid hostname"
  by unfold_locales (auto simp: acquire_in_def split: option.splits)

interpretation heartbeat: session_op "heartbeat_in now client_id pid hostname"
  by unfold_locales (auto simp: heartbeat_in_def split: option.splits)

interpretation detach: session_op "detach_in client_id"
  by unfold_locales (auto simp: detach_in_def split: option.splits)

interpretation live: session_op "has_live_lease_in now threshold"
  by unfold_locales (auto simp: has_live_lease_in_def split: option.splits)

interpretation check: session_op "check_holder_in now client_id"
  by unfold_locales (auto simp: check_holder_in_def split: option.splits)

interpretation takeover: session_op "check_or_takeover_in now client_id"
  by unfold_locales (auto simp: check_or_takeover_in_def split: option.splits)

interpretation removal: session_op remove_in
  by unfold_locales (auto simp: remove_in_def)

section \<open>Sequences of operations\<close>

text \<open>
  The operations that clients send, each with the clock it reads, and whether it is granted.
  \<open>Takeover\<close> is the check of a turn-driving call.
\<close>

datatype lease_op =
    Acquire "nat option" rstr rstr "nat option" "rstr option"
  | Heartbeat "nat option" rstr rstr "nat option" "rstr option"
  | Takeover "nat option" rstr "rstr option"
  | Detach rstr rstr

fun run_op :: "(rstr \<Rightarrow> nat) \<Rightarrow> lease_op \<Rightarrow> lease_table \<Rightarrow> bool \<times> lease_table" where
  "run_op hash (Acquire clock sid cid pid host) shards =
     (let (r, shards) = acquire hash clock sid cid pid host shards in (r = Acquired, shards))"
| "run_op hash (Heartbeat clock sid cid pid host) shards =
     (let (r, shards) = heartbeat hash clock sid cid pid host shards in (is_ok r, shards))"
| "run_op hash (Takeover clock sid cid) shards =
     (let (r, shards) = check_or_takeover_holder hash clock sid cid shards in (is_ok r, shards))"
| "run_op hash (Detach sid cid) shards = (False, snd (detach hash sid cid shards))"

fun run_ops :: "(rstr \<Rightarrow> nat) \<Rightarrow> lease_op list \<Rightarrow> lease_table \<Rightarrow> bool list \<times> lease_table" where
  "run_ops hash [] shards = ([], shards)"
| "run_ops hash (op # ops) shards =
     (let (g, shards) = run_op hash op shards; (gs, shards) = run_ops hash ops shards in (g # gs, shards))"

fun op_session :: "lease_op \<Rightarrow> rstr" where
  "op_session (Acquire _ sid _ _ _) = sid"
| "op_session (Heartbeat _ sid _ _ _) = sid"
| "op_session (Takeover _ sid _) = sid"
| "op_session (Detach sid _) = sid"

fun op_client :: "lease_op \<Rightarrow> rstr option" where
  "op_client (Acquire _ _ cid _ _) = Some cid"
| "op_client (Heartbeat _ _ cid _ _) = Some cid"
| "op_client (Takeover _ _ cid) = cid"
| "op_client (Detach _ cid) = Some cid"

fun op_clock :: "lease_op \<Rightarrow> nat option" where
  "op_clock (Acquire clock _ _ _ _) = clock"
| "op_clock (Heartbeat clock _ _ _ _) = clock"
| "op_clock (Takeover clock _ _) = clock"
| "op_clock (Detach _ _) = None"

text \<open>An operation of another client while the lease is fresh.\<close>

definition intruding :: "rstr \<Rightarrow> session_lease \<Rightarrow> lease_op \<Rightarrow> bool" where
  "intruding sid lease op \<longleftrightarrow>
     op_session op = sid \<longrightarrow>
       op_client op \<noteq> Some (sl_client_id lease) \<and>
       (\<forall>now. op_clock op = Some now \<longrightarrow> now \<le> sl_last_heartbeat_ms lease + stale_lease_threshold_ms)"

lemmas op_refines = acquire.refines heartbeat.refines takeover.refines detach.refines

lemma run_op_length: "shards \<noteq> [] \<Longrightarrow> length (snd (run_op hash op shards)) = length shards"
  by (cases op) (simp_all add: acquire_def heartbeat_def check_or_takeover_holder_def detach_def
      op_refines split_beta split: option.split)

lemma run_op_other:
  "shards \<noteq> [] \<Longrightarrow> op_session op \<noteq> sid \<Longrightarrow> flat hash (snd (run_op hash op shards)) sid = flat hash shards sid"
  by (cases op) (auto simp: acquire_def heartbeat_def check_or_takeover_holder_def detach_def op_refines split_beta
      acquire.writes_own heartbeat.writes_own takeover.writes_own detach.writes_own split: option.split)

lemma fresh_not_stale:
  "0 < sl_last_heartbeat_ms lease \<Longrightarrow> now \<le> sl_last_heartbeat_ms lease + stale_lease_threshold_ms \<Longrightarrow>
   \<not> is_stale lease now stale_lease_threshold_ms"
  by (simp add: is_stale_def)

lemma run_op_intruding:
  assumes "shards \<noteq> []" "flat hash shards sid = Some lease" "0 < sl_last_heartbeat_ms lease" "intruding sid lease op"
    "op_session op = sid"
  shows "\<not> fst (run_op hash op shards) \<and> flat hash (snd (run_op hash op shards)) sid = Some lease"
proof (cases op)
  case (Acquire clock s cid pid host)
  with assms fresh_not_stale [OF assms(3)] show ?thesis
    by (cases clock) (auto simp: acquire_def acquire.refines split_beta acquire_in_def intruding_def)
next
  case (Heartbeat clock s cid pid host)
  with assms show ?thesis
    by (cases clock) (auto simp: heartbeat_def heartbeat.refines split_beta heartbeat_in_def intruding_def is_ok_def)
next
  case (Takeover clock s cid)
  with assms fresh_not_stale [OF assms(3)] show ?thesis
    by (cases clock) (auto simp: check_or_takeover_holder_def takeover.refines split_beta check_or_takeover_in_def
        intruding_def is_ok_def)
next
  case (Detach s cid)
  with assms show ?thesis by (auto simp: detach_def detach.refines detach_in_def intruding_def)
qed

lemma run_ops_intruding:
  "shards \<noteq> [] \<Longrightarrow> flat hash shards sid = Some lease \<Longrightarrow> 0 < sl_last_heartbeat_ms lease \<Longrightarrow>
   list_all (intruding sid lease) ops \<Longrightarrow>
   flat hash (snd (run_ops hash ops shards)) sid = Some lease \<and>
   length (fst (run_ops hash ops shards)) = length ops \<and>
   (\<forall>i < length ops. op_session (ops ! i) = sid \<longrightarrow> \<not> fst (run_ops hash ops shards) ! i)"
proof (induction ops arbitrary: shards)
  case (Cons op ops)
  obtain g shards' where r: "run_op hash op shards = (g, shards')" by (rule prod.exhaust)
  obtain gs shards'' where rs: "run_ops hash ops shards' = (gs, shards'')" by (rule prod.exhaust)
  have ne: "shards' \<noteq> []" using run_op_length [OF Cons.prems(1), of hash op] r Cons.prems(1) by auto
  have fl: "flat hash shards' sid = Some lease \<and> (op_session op = sid \<longrightarrow> \<not> g)"
  proof (cases "op_session op = sid")
    case True
    with run_op_intruding [OF Cons.prems(1-3) _ True] Cons.prems(4) r show ?thesis by simp
  next
    case False
    with run_op_other [OF Cons.prems(1) False, of hash] r Cons.prems(2) show ?thesis by simp
  qed
  have "list_all (intruding sid lease) ops" using Cons.prems(4) by simp
  from Cons.IH [OF ne conjunct1 [OF fl] Cons.prems(3) this] rs
  have ih: "flat hash shards'' sid = Some lease" "length gs = length ops"
    "\<forall>i < length ops. op_session (ops ! i) = sid \<longrightarrow> \<not> gs ! i" by simp_all
  have "run_ops hash (op # ops) shards = (g # gs, shards'')" by (simp add: r rs)
  then show ?case using ih fl by (auto simp: nth_Cons split: nat.split)
qed simp

section \<open>Properties\<close>

text \<open>
  C18: the sharded table refines a single table: every operation returns what its body returns on
  the one table that the shards represent, and leaves the shards representing the table that the
  body leaves, for every hash function and every positive number of shards.
\<close>

theorem shards_refine_table:
  assumes "shards \<noteq> []"
  shows "(let (r, s) = acquire hash (Some now) sid cid pid host shards in
            (r, flat hash s) = acquire_in now cid pid host sid (flat hash shards)) \<and>
         (let (r, s) = heartbeat hash (Some now) sid cid pid host shards in
            (r, flat hash s) = heartbeat_in now cid pid host sid (flat hash shards)) \<and>
         (let (r, s) = check_or_takeover_holder hash (Some now) sid client shards in
            (r, flat hash s) = check_or_takeover_in now client sid (flat hash shards)) \<and>
         (let (r, s) = detach hash sid cid shards in (r, flat hash s) = detach_in cid sid (flat hash shards)) \<and>
         (let (r, s) = remove_lease hash sid shards in (r, flat hash s) = remove_in sid (flat hash shards)) \<and>
         check_holder hash (Some now) sid client shards = fst (check_holder_in now client sid (flat hash shards)) \<and>
         has_live_lease hash (Some now) sid th shards = fst (has_live_lease_in now th sid (flat hash shards))"
  using assms by (simp add: acquire_def heartbeat_def check_or_takeover_holder_def detach_def remove_lease_def
      check_holder_def has_live_lease_def split_beta op_refines check.refines live.refines removal.refines prod_eq_iff)

theorem shards_refine_table_witness:
  "flat (\<lambda>s. length s) (snd (acquire (\<lambda>s. length s) (Some 5) (lit ''s'') (lit ''c'') None None lease_table_new)) (lit ''s'')
   = Some (fresh_lease (lit ''c'') None None 5)"
proof -
  have ne: "lease_table_new \<noteq> []" by (simp add: lease_table_new_def lease_table_shard_count_def)
  obtain r t where rt: "acquire (\<lambda>s. length s) (Some 5) (lit ''s'') (lit ''c'') None None lease_table_new = (r, t)"
    by (rule prod.exhaust)
  have "(r, flat (\<lambda>s. length s) t) = acquire_in 5 (lit ''c'') None None (lit ''s'') (flat (\<lambda>s. length s) lease_table_new)"
    using conjunct1 [OF shards_refine_table [OF ne, of "\<lambda>s. length s" 5 "lit ''s''" "lit ''c''" None None]]
    unfolding rt by (simp only: Let_def split)
  moreover have "flat (\<lambda>s. length s) lease_table_new = Map.empty"
    by (simp add: fun_eq_iff flat_def shard_for_def lease_table_new_def lease_table_shard_count_def)
  ultimately show ?thesis by (simp add: rt acquire_in_def)
qed

text \<open>
  C13: one writer at a time: while the lease of a session is fresh, whatever operations other clients
  send on whatever sessions, every acquire, heartbeat and turn check on this session is refused and
  the lease stays exactly as it is.
\<close>

theorem live_lease_excludes:
  assumes "shards \<noteq> []" "flat hash shards sid = Some lease" "0 < sl_last_heartbeat_ms lease"
    "list_all (intruding sid lease) ops"
  shows "flat hash (snd (run_ops hash ops shards)) sid = Some lease \<and>
     (\<forall>i < length ops. op_session (ops ! i) = sid \<longrightarrow> \<not> fst (run_ops hash ops shards) ! i)"
  using run_ops_intruding [OF assms] by blast

theorem live_lease_excludes_witness:
  "flat (\<lambda>s. 0) (snd (run_ops (\<lambda>s. 0) [Acquire (Some 30000) (lit ''s'') (lit ''other'') None None,
      Detach (lit ''s'') (lit ''other''), Takeover (Some 45001) (lit ''s'') (Some (lit ''other''))]
      [Map.empty(lit ''s'' \<mapsto> fresh_lease (lit ''c'') None None 1)])) (lit ''s'')
   = Some (fresh_lease (lit ''c'') None None 1)"
  by (rule live_lease_excludes [THEN conjunct1])
     (simp_all add: flat_def shard_for_def fresh_lease_def intruding_def stale_lease_threshold_ms_def lit_def)



end
