(* ===== verification/SessionActor.thy ===== *)
theory SessionActor
  imports Lease
begin

text \<open>
  The session actor of \<open>apps/shared/src/gateway/session_handle.rs\<close> and the fields of the session
  record its supervisor keeps for it (\<open>session_supervisor.rs\<close>: \<open>snapshot\<close>, \<open>force_close\<close>,
  \<open>hibernate_idle\<close>). The state holds the command channel, the queue of pending turns, the active turn and
  the atomics shared with the handles. A one-shot reply channel is a number, sending on it
  appends to \<open>ac_replies\<close>. The turn itself runs in a task of its own, so its end is a step of the
  environment, as is the lease table the pop-time check reads: that check is an argument. The step
  relation interleaves the callers, the orphan reaper, the running task and the actor. The lemmas
  show the queue counter exact, every request answered exactly once, one active turn at a time,
  and \<open>Closed\<close> final.
\<close>

section \<open>Data\<close>

datatype session_lifecycle_status = SIdle | SRunning | SPaused | SFailed | SClosed

datatype session_phase = Idle | Running | Paused | Closing | Closed

text \<open>The fields of \<open>SessionRecord\<close> that the actor reads or writes.\<close>

record session_record =
  sr_session_id :: rstr
  sr_status :: session_lifecycle_status
  sr_updated_at_ms :: nat

record handle_status =
  hs_lifecycle :: session_lifecycle_status
  hs_phase :: session_phase
  hs_active_turn_id :: "nat option"
  hs_queue_depth :: nat
  hs_last_active_at_ms :: nat

text \<open>A queued turn: its reply channel, its submitter and the instant of its submission.\<close>

record turn =
  tn_reply :: nat
  tn_client :: "rstr option"
  tn_submitted_at :: nat

datatype command =
    RunTurn turn
  | Snapshot nat
  | CancelActiveTurn nat
  | ForceClose nat
  | HibernateIdle nat nat
  | Nop

datatype 'r reply =
    TurnDone "session_service_error + 'r"
  | TurnDropped
  | RecordReply "session_service_error + session_record"
  | CancelReceipt rstr
  | HibernateReply "session_record option"

record active_turn =
  at_turn_id :: nat
  at_turn :: turn
  at_cancelled :: bool
  at_done :: bool

record 'r actor =
  ac_session_id :: rstr
  ac_rx :: "command list"
  ac_reserved :: "turn list"
  ac_queue_depth :: nat
  ac_pending :: "turn list"
  ac_active :: "active_turn option"
  ac_phase :: session_phase
  ac_idle_cancel_at :: "nat option"
  ac_close_reply :: "nat option"
  ac_closing :: bool
  ac_record :: session_record
  ac_status :: handle_status
  ac_replies :: "(nat \<times> 'r reply) list"

definition session_command_queue_capacity :: nat where
  "session_command_queue_capacity = 16"

definition actor_new :: "session_record \<Rightarrow> 'r actor" where
  "actor_new rec =
     \<lparr>ac_session_id = sr_session_id rec, ac_rx = [], ac_reserved = [], ac_queue_depth = 0, ac_pending = [],
      ac_active = None, ac_phase = Idle, ac_idle_cancel_at = None, ac_close_reply = None,
      ac_closing = False, ac_record = rec,
      ac_status = \<lparr>hs_lifecycle = sr_status rec, hs_phase = Idle, hs_active_turn_id = None,
        hs_queue_depth = 0, hs_last_active_at_ms = sr_updated_at_ms rec\<rparr>,
      ac_replies = []\<rparr>"

section \<open>The supervisor's record\<close>

definition supervisor_force_close :: "nat \<Rightarrow> session_record \<Rightarrow> session_record" where
  "supervisor_force_close now rec = rec\<lparr>sr_status := SClosed, sr_updated_at_ms := now\<rparr>"

definition supervisor_hibernate_idle :: "nat \<Rightarrow> session_record \<Rightarrow> session_record" where
  "supervisor_hibernate_idle now rec = rec\<lparr>sr_status := SPaused, sr_updated_at_ms := now\<rparr>"

section \<open>The handle\<close>

text \<open>\<open>fetch_sub\<close> on an \<open>AtomicUsize\<close> wraps.\<close>

definition fetch_sub :: "nat \<Rightarrow> nat" where
  "fetch_sub n = (if n = 0 then u64_max else n - 1)"

definition send_reply :: "nat \<Rightarrow> 'r reply \<Rightarrow> 'r actor \<Rightarrow> 'r actor" where
  "send_reply i r a = a\<lparr>ac_replies := ac_replies a @ [(i, r)]\<rparr>"

definition mark_closing :: "'r actor \<Rightarrow> 'r actor" where
  "mark_closing a = a\<lparr>ac_closing := True\<rparr>"

definition try_send :: "command \<Rightarrow> 'r actor \<Rightarrow> 'r actor option" where
  "try_send c a = (if length (ac_rx a) < session_command_queue_capacity
     then Some (a\<lparr>ac_rx := ac_rx a @ [c]\<rparr>) else None)"

definition clear_closing :: "'r actor \<Rightarrow> 'r actor" where
  "clear_closing a = (let a = a\<lparr>ac_closing := False\<rparr> in case try_send Nop a of Some a \<Rightarrow> a | None \<Rightarrow> a)"

text \<open>
  \<open>run_turn\<close> in its two atomic parts: reserving a place in the queue counter (an exchange loop that
  ends when the value it read is still current), and sending the command. A refusal is the
  value of the call, recorded as its reply.
\<close>

definition try_increment_queue_depth :: "turn \<Rightarrow> 'r actor \<Rightarrow> 'r actor" where
  "try_increment_queue_depth t a =
     (if ac_closing a then send_reply (tn_reply t) (TurnDone (Inl (SessionClosed (ac_session_id a)))) a
      else if session_command_queue_capacity \<le> ac_queue_depth a then
        send_reply (tn_reply t)
          (TurnDone (Inl (SessionBusy (ac_session_id a) (lit ''session root turn queue is full'')))) a
      else a\<lparr>ac_queue_depth := ac_queue_depth a + 1, ac_reserved := ac_reserved a @ [t]\<rparr>)"

definition run_turn_send :: "turn \<Rightarrow> 'r actor \<Rightarrow> 'r actor" where
  "run_turn_send t a =
     (let a = a\<lparr>ac_reserved := remove1 t (ac_reserved a)\<rparr> in
      case try_send (RunTurn t) a of
        Some a \<Rightarrow> a
      | None \<Rightarrow> send_reply (tn_reply t)
          (TurnDone (Inl (SessionBusy (ac_session_id a) (lit ''session command queue is full''))))
          (a\<lparr>ac_queue_depth := fetch_sub (ac_queue_depth a)\<rparr>))"

section \<open>The actor\<close>

definition publish_status :: "nat option \<Rightarrow> 'r actor \<Rightarrow> 'r actor" where
  "publish_status active_turn_id a =
     (let lifecycle = (case ac_phase a of
            Idle \<Rightarrow> sr_status (ac_record a)
          | Running \<Rightarrow> SRunning
          | Closing \<Rightarrow> SRunning
          | Paused \<Rightarrow> SPaused
          | Closed \<Rightarrow> SClosed)
      in a\<lparr>ac_status := \<lparr>hs_lifecycle = lifecycle, hs_phase = ac_phase a, hs_active_turn_id = active_turn_id,
             hs_queue_depth = ac_queue_depth a, hs_last_active_at_ms = sr_updated_at_ms (ac_record a)\<rparr>\<rparr>)"

definition active_id :: "'r actor \<Rightarrow> nat option" where
  "active_id a = map_option at_turn_id (ac_active a)"

definition halted :: "session_phase \<Rightarrow> bool" where
  "halted p \<longleftrightarrow> p = Paused \<or> p = Closing \<or> p = Closed"

text \<open>
  \<open>next_runnable_turn\<close>: the loop pops until a turn passes the check of its submitter's lease; a turn
  popped while \<open>closing\<close> is set goes back to the front.
\<close>

fun pop_runnable :: "(turn \<Rightarrow> session_service_error option) \<Rightarrow> turn list \<Rightarrow> 'r actor \<Rightarrow> turn option \<times> 'r actor" where
  "pop_runnable reject [] a = (None, a\<lparr>ac_pending := []\<rparr>)"
| "pop_runnable reject (next # rest) a =
     (if ac_closing a then (None, a\<lparr>ac_pending := next # rest\<rparr>)
      else case reject next of
             Some error \<Rightarrow>
               pop_runnable reject rest
                 (send_reply (tn_reply next) (TurnDone (Inl error)) (a\<lparr>ac_queue_depth := fetch_sub (ac_queue_depth a)\<rparr>))
           | None \<Rightarrow> (Some next, a\<lparr>ac_pending := rest\<rparr>))"

definition next_runnable_turn ::
  "(turn \<Rightarrow> session_service_error option) \<Rightarrow> 'r actor \<Rightarrow> turn option \<times> 'r actor" where
  "next_runnable_turn reject a =
     (if ac_active a \<noteq> None \<or> halted (ac_phase a) then (None, a)
      else pop_runnable reject (ac_pending a) a)"

text \<open>
  \<open>start_next_turn_if_possible\<close>: \<open>fresh\<close> is the new turn id, \<open>token\<close> tells whether the turn's own
  cancel token has been cancelled already.
\<close>

definition start_next_turn_if_possible ::
  "(turn \<Rightarrow> session_service_error option) \<Rightarrow> nat \<Rightarrow> (turn \<Rightarrow> bool) \<Rightarrow> 'r actor \<Rightarrow> 'r actor" where
  "start_next_turn_if_possible reject fresh token a =
     (case next_runnable_turn reject a of
        (None, a) \<Rightarrow> a
      | (Some t, a) \<Rightarrow>
          let a = a\<lparr>ac_queue_depth := fetch_sub (ac_queue_depth a)\<rparr>;
              idle_cancel = (case ac_idle_cancel_at a of
                               Some cancelled_at \<Rightarrow> tn_submitted_at t < cancelled_at | None \<Rightarrow> False);
              a = a\<lparr>ac_active := Some \<lparr>at_turn_id = fresh, at_turn = t, at_cancelled = token t \<or> idle_cancel,
                      at_done = False\<rparr>, ac_phase := Running\<rparr>
          in publish_status (Some fresh) a)"

fun fail_turns :: "turn list \<Rightarrow> 'r actor \<Rightarrow> 'r actor" where
  "fail_turns [] a = a\<lparr>ac_pending := []\<rparr>"
| "fail_turns (t # ts) a =
     fail_turns ts (send_reply (tn_reply t) (TurnDone (Inl (SessionClosed (ac_session_id a))))
       (a\<lparr>ac_queue_depth := fetch_sub (ac_queue_depth a)\<rparr>))"

definition fail_pending_turns :: "'r actor \<Rightarrow> 'r actor" where
  "fail_pending_turns a = fail_turns (ac_pending a) a"

definition finish_force_close :: "nat \<Rightarrow> nat \<Rightarrow> 'r actor \<Rightarrow> 'r actor" where
  "finish_force_close now i a =
     (let a = a\<lparr>ac_record := supervisor_force_close now (ac_record a), ac_phase := Closed\<rparr>;
          a = publish_status None a
      in send_reply i (RecordReply (Inr (ac_record a))) a)"

definition cancel_active :: "'r actor \<Rightarrow> 'r actor" where
  "cancel_active a = a\<lparr>ac_active := map_option (at_cancelled_update (\<lambda>_. True)) (ac_active a)\<rparr>"

definition begin_force_close :: "nat \<Rightarrow> nat \<Rightarrow> 'r actor \<Rightarrow> 'r actor" where
  "begin_force_close now i a =
     (if ac_phase a = Closed then send_reply i (RecordReply (Inr (ac_record a))) a
      else
        let a = cancel_active (a\<lparr>ac_phase := Closing\<rparr>);
            a = fail_pending_turns a;
            a = publish_status (active_id a) a
        in if ac_active a \<noteq> None then
             (if ac_close_reply a \<noteq> None then
                send_reply i (RecordReply (Inl (SessionBusy (ac_session_id a) (lit ''session is already closing'')))) a
              else a\<lparr>ac_close_reply := Some i\<rparr>)
           else finish_force_close now i a)"

definition handle_command :: "nat \<Rightarrow> command \<Rightarrow> 'r actor \<Rightarrow> 'r actor" where
  "handle_command now c a =
     (case c of
        RunTurn t \<Rightarrow>
          if halted (ac_phase a) then
            publish_status (active_id a)
              (send_reply (tn_reply t) (TurnDone (Inl (SessionClosed (ac_session_id a))))
                (a\<lparr>ac_queue_depth := fetch_sub (ac_queue_depth a)\<rparr>))
          else publish_status (active_id a) (a\<lparr>ac_pending := ac_pending a @ [t]\<rparr>)
      | Snapshot i \<Rightarrow> send_reply i (RecordReply (Inr (ac_record a))) a
      | CancelActiveTurn i \<Rightarrow>
          send_reply i (CancelReceipt (ac_session_id a))
            (if ac_active a \<noteq> None then cancel_active a else a\<lparr>ac_idle_cancel_at := Some now\<rparr>)
      | ForceClose i \<Rightarrow> begin_force_close now i a
      | HibernateIdle idle_before i \<Rightarrow>
          if ac_phase a \<noteq> Idle \<or> ac_active a \<noteq> None \<or> ac_pending a \<noteq> [] \<or> 0 < ac_queue_depth a then
            send_reply i (HibernateReply None) a
          else if idle_before < sr_updated_at_ms (ac_record a) then send_reply i (HibernateReply None) a
          else
            let a = a\<lparr>ac_record := supervisor_hibernate_idle now (ac_record a), ac_phase := Paused\<rparr>;
                a = publish_status None a
            in send_reply i (HibernateReply (Some (ac_record a))) a
      | Nop \<Rightarrow> a)"

text \<open>The arm \<open>ActiveDone\<close> of \<open>handle_event\<close>.\<close>

definition handle_active_done :: "nat \<Rightarrow> 'r actor \<Rightarrow> 'r actor" where
  "handle_active_done now a =
     (let a = a\<lparr>ac_active := None\<rparr> in
      case ac_close_reply a of
        Some i \<Rightarrow> finish_force_close now i (a\<lparr>ac_close_reply := None\<rparr>)
      | None \<Rightarrow> if ac_phase a \<noteq> Closed then publish_status None (a\<lparr>ac_phase := Idle\<rparr>) else a)"

section \<open>Interleavings\<close>

text \<open>
  The task of the active turn writes the session record (its status and time) while it runs, then
  replies (or drops the reply when it panics) and signals its end.
\<close>

definition finish_turn :: "'r reply \<Rightarrow> session_record \<Rightarrow> 'r actor \<Rightarrow> 'r actor" where
  "finish_turn r rec a =
     (case ac_active a of
        None \<Rightarrow> a
      | Some act \<Rightarrow> send_reply (tn_reply (at_turn act)) r
                      (a\<lparr>ac_record := rec, ac_active := Some (act\<lparr>at_done := True\<rparr>)\<rparr>))"

fun command_reply :: "command \<Rightarrow> nat list" where
  "command_reply (RunTurn t) = [tn_reply t]"
| "command_reply (Snapshot i) = [i]"
| "command_reply (CancelActiveTurn i) = [i]"
| "command_reply (ForceClose i) = [i]"
| "command_reply (HibernateIdle _ i) = [i]"
| "command_reply Nop = []"

text \<open>
  The steps; the label lists the reply channels that the step introduces. A plain \<open>send\<close> waits
  for room in the channel.
\<close>

inductive actor_step :: "'r actor \<Rightarrow> nat list \<Rightarrow> 'r actor \<Rightarrow> bool" where
  submit: "actor_step a [tn_reply t] (try_increment_queue_depth t a)"
| enqueue: "t \<in> set (ac_reserved a) \<Longrightarrow> actor_step a [] (run_turn_send t a)"
| post: "(\<forall>t. c \<noteq> RunTurn t) \<Longrightarrow> try_send c a = Some a' \<Longrightarrow> actor_step a (command_reply c) a'"
| start_closing: "actor_step a [] (mark_closing a)"
| stop_closing: "actor_step a [] (clear_closing a)"
| start_turn: "actor_step a [] (start_next_turn_if_possible reject fresh token a)"
| receive: "ac_rx a = c # cs \<Longrightarrow> actor_step a [] (handle_command now c (a\<lparr>ac_rx := cs\<rparr>))"
| end_turn: "ac_active a = Some act \<Longrightarrow> \<not> at_done act \<Longrightarrow> actor_step a [] (finish_turn r rec a)"
| active_done: "ac_active a = Some act \<Longrightarrow> at_done act \<Longrightarrow> actor_step a [] (handle_active_done now a)"

inductive actor_run :: "'r actor \<Rightarrow> nat list \<Rightarrow> 'r actor \<Rightarrow> bool" where
  run_nil: "actor_run a [] a"
| run_step: "actor_run a is a' \<Longrightarrow> actor_step a' js a'' \<Longrightarrow> actor_run a (is @ js) a''"

section \<open>Lemmas\<close>

text \<open>The reply channels that are still open, and those that were answered.\<close>

definition active_reply :: "'r actor \<Rightarrow> nat list" where
  "active_reply a = (case ac_active a of
     Some act \<Rightarrow> if at_done act then [] else [tn_reply (at_turn act)] | None \<Rightarrow> [])"

definition open_replies :: "'r actor \<Rightarrow> nat multiset" where
  "open_replies a = mset (map tn_reply (ac_reserved a)) + mset (concat (map command_reply (ac_rx a))) +
     mset (map tn_reply (ac_pending a)) + mset (active_reply a) + mset_set (set_option (ac_close_reply a))"

definition answered :: "'r actor \<Rightarrow> nat multiset" where
  "answered a = mset (map fst (ac_replies a))"

fun is_run_turn :: "command \<Rightarrow> bool" where
  "is_run_turn (RunTurn _) = True"
| "is_run_turn _ = False"

definition queued_turns :: "'r actor \<Rightarrow> nat" where
  "queued_turns a = length (ac_reserved a) + length (filter is_run_turn (ac_rx a)) + length (ac_pending a)"

definition phase_ok :: "'r actor \<Rightarrow> bool" where
  "phase_ok a \<longleftrightarrow>
     (ac_active a \<noteq> None \<longleftrightarrow> ac_phase a = Running \<or> ac_phase a = Closing) \<and>
     (ac_close_reply a \<noteq> None \<longleftrightarrow> ac_phase a = Closing) \<and>
     (halted (ac_phase a) \<longrightarrow> ac_pending a = [])"

definition actor_inv :: "'r actor \<Rightarrow> bool" where
  "actor_inv a \<longleftrightarrow> ac_queue_depth a = queued_turns a \<and> ac_queue_depth a \<le> session_command_queue_capacity \<and> phase_ok a"

lemmas obs_defs = open_replies_def answered_def active_reply_def

lemma actor_inv_new: "actor_inv (actor_new rec)"
  by (simp add: actor_inv_def actor_new_def queued_turns_def phase_ok_def)

lemma send_reply_obs [simp]:
  "open_replies (send_reply i r a) = open_replies a"
  "answered (send_reply i r a) = add_mset i (answered a)"
  "queued_turns (send_reply i r a) = queued_turns a"
  "phase_ok (send_reply i r a) = phase_ok a"
  "ac_queue_depth (send_reply i r a) = ac_queue_depth a"
  "ac_phase (send_reply i r a) = ac_phase a"
  by (simp_all add: obs_defs send_reply_def queued_turns_def phase_ok_def)

lemma publish_status_obs [simp]:
  "open_replies (publish_status t a) = open_replies a"
  "answered (publish_status t a) = answered a"
  "queued_turns (publish_status t a) = queued_turns a"
  "phase_ok (publish_status t a) = phase_ok a"
  "ac_queue_depth (publish_status t a) = ac_queue_depth a"
  "ac_phase (publish_status t a) = ac_phase a"
  "ac_active (publish_status t a) = ac_active a"
  "ac_close_reply (publish_status t a) = ac_close_reply a"
  by (simp_all add: obs_defs publish_status_def Let_def queued_turns_def phase_ok_def)

lemma send_reply_fields [simp]:
  "ac_session_id (send_reply i r a) = ac_session_id a"
  "ac_rx (send_reply i r a) = ac_rx a"
  "ac_reserved (send_reply i r a) = ac_reserved a"
  "ac_pending (send_reply i r a) = ac_pending a"
  "ac_active (send_reply i r a) = ac_active a"
  "ac_idle_cancel_at (send_reply i r a) = ac_idle_cancel_at a"
  "ac_close_reply (send_reply i r a) = ac_close_reply a"
  "ac_closing (send_reply i r a) = ac_closing a"
  "ac_record (send_reply i r a) = ac_record a"
  "ac_replies (send_reply i r a) = ac_replies a @ [(i, r)]"
  by (simp_all add: send_reply_def)

lemma publish_status_fields [simp]:
  "ac_session_id (publish_status t a) = ac_session_id a"
  "ac_rx (publish_status t a) = ac_rx a"
  "ac_reserved (publish_status t a) = ac_reserved a"
  "ac_pending (publish_status t a) = ac_pending a"
  "ac_idle_cancel_at (publish_status t a) = ac_idle_cancel_at a"
  "ac_closing (publish_status t a) = ac_closing a"
  "ac_record (publish_status t a) = ac_record a"
  "ac_replies (publish_status t a) = ac_replies a"
  by (simp_all add: publish_status_def Let_def)

lemma send_reply_inv [simp]: "actor_inv (send_reply i r a) = actor_inv a"
  by (simp add: actor_inv_def)

lemma publish_status_inv [simp]: "actor_inv (publish_status t a) = actor_inv a"
  by (simp add: actor_inv_def)

lemma pop_runnable_spec:
  assumes "length p \<le> ac_queue_depth a"
  shows "\<exists>r q d rs. pop_runnable reject p a = (r, a\<lparr>ac_pending := q, ac_queue_depth := d, ac_replies := rs\<rparr>) \<and>
    d + length p = ac_queue_depth a + length q + (if r = None then 0 else 1) \<and> d \<le> ac_queue_depth a \<and>
    mset (map tn_reply q) + mset (map fst rs) + mset (map tn_reply (case r of None \<Rightarrow> [] | Some t \<Rightarrow> [t])) =
      mset (map tn_reply p) + mset (map fst (ac_replies a)) \<and>
    (\<forall>t. r = Some t \<longrightarrow> reject t = None \<and> \<not> ac_closing a)"
  using assms
proof (induction p arbitrary: a)
  case Nil
  show ?case by (rule exI [of _ None], rule exI [of _ "[]"]) (rule exI [of _ "ac_queue_depth a"], auto intro!: exI [of _ "ac_replies a"])
next
  case (Cons t p)
  consider (closing) "ac_closing a" | (run) "\<not> ac_closing a" "reject t = None"
    | (rejected) e where "\<not> ac_closing a" "reject t = Some e" by (cases "reject t") auto
  then show ?case
  proof cases
    case closing
    then show ?thesis
      by (intro exI [of _ None] exI [of _ "t # p"] exI [of _ "ac_queue_depth a"] exI [of _ "ac_replies a"]) simp
  next
    case run
    then show ?thesis
      by (intro exI [of _ "Some t"] exI [of _ p] exI [of _ "ac_queue_depth a"] exI [of _ "ac_replies a"]) simp
  next
    case rejected
    let ?b = "send_reply (tn_reply t) (TurnDone (Inl e)) (a\<lparr>ac_queue_depth := fetch_sub (ac_queue_depth a)\<rparr>)"
    have b: "ac_queue_depth ?b + 1 = ac_queue_depth a" "ac_closing ?b = ac_closing a"
      "map fst (ac_replies ?b) = map fst (ac_replies a) @ [tn_reply t]"
      using Cons.prems by (simp_all add: send_reply_def fetch_sub_def)
    have "length p \<le> ac_queue_depth ?b" using Cons.prems b(1) by simp
    from Cons.IH [OF this] obtain r q d rs where
      ih: "pop_runnable reject p ?b = (r, ?b\<lparr>ac_pending := q, ac_queue_depth := d, ac_replies := rs\<rparr>)"
        "d + length p = ac_queue_depth ?b + length q + (if r = None then 0 else 1)" "d \<le> ac_queue_depth ?b"
        "mset (map tn_reply q) + mset (map fst rs) + mset (map tn_reply (case r of None \<Rightarrow> [] | Some t \<Rightarrow> [t])) =
           mset (map tn_reply p) + mset (map fst (ac_replies ?b))"
        "\<forall>t. r = Some t \<longrightarrow> reject t = None \<and> \<not> ac_closing ?b" by blast
    have "pop_runnable reject (t # p) a = (r, a\<lparr>ac_pending := q, ac_queue_depth := d, ac_replies := rs\<rparr>)"
      using rejected ih(1) by (simp add: send_reply_def)
    moreover have "d + length (t # p) = ac_queue_depth a + length q + (if r = None then 0 else 1)"
      using ih(2) b(1) by simp
    moreover have "mset (map tn_reply q) + mset (map fst rs) + mset (map tn_reply (case r of None \<Rightarrow> [] | Some t \<Rightarrow> [t])) =
           mset (map tn_reply (t # p)) + mset (map fst (ac_replies a))"
      using ih(4) by (simp add: b(3))
    moreover have "d \<le> ac_queue_depth a" using ih(3) b(1) by simp
    moreover have "\<forall>t. r = Some t \<longrightarrow> reject t = None \<and> \<not> ac_closing a" using ih(5) b(2) by simp
    ultimately show ?thesis by (intro exI conjI)
  qed
qed

lemma fail_turns_eq:
  "length ts \<le> ac_queue_depth a \<Longrightarrow>
   fail_turns ts a = a\<lparr>ac_pending := [], ac_queue_depth := ac_queue_depth a - length ts,
     ac_replies := ac_replies a @ map (\<lambda>t. (tn_reply t, TurnDone (Inl (SessionClosed (ac_session_id a))))) ts\<rparr>"
proof (induction ts arbitrary: a)
  case (Cons t ts)
  let ?b = "send_reply (tn_reply t) (TurnDone (Inl (SessionClosed (ac_session_id a)))) (a\<lparr>ac_queue_depth := fetch_sub (ac_queue_depth a)\<rparr>)"
  have "length ts \<le> ac_queue_depth ?b" using Cons.prems by (simp add: fetch_sub_def)
  from Cons.IH [OF this] show ?case using Cons.prems by (simp add: send_reply_def fetch_sub_def)
qed simp

text \<open>What a step owes: the invariant, and every reply channel either open or answered.\<close>

definition step_ok :: "'r actor \<Rightarrow> nat list \<Rightarrow> 'r actor \<Rightarrow> bool" where
  "step_ok a js a' \<longleftrightarrow> actor_inv a' \<and>
     open_replies a' + answered a' = open_replies a + answered a + mset js"

lemma depth_facts:
  assumes "actor_inv a"
  shows "length (ac_pending a) \<le> ac_queue_depth a" "ac_reserved a \<noteq> [] \<Longrightarrow> 0 < ac_queue_depth a"
    "ac_rx a = RunTurn t # cs \<Longrightarrow> 0 < ac_queue_depth a"
  using assms by (auto simp: actor_inv_def queued_turns_def)

lemma submit_ok: "actor_inv a \<Longrightarrow> step_ok a [tn_reply t] (try_increment_queue_depth t a)"
  by (auto simp: step_ok_def try_increment_queue_depth_def actor_inv_def queued_turns_def phase_ok_def obs_defs
      session_command_queue_capacity_def)

lemma enqueue_ok:
  assumes inv: "actor_inv a" and t: "t \<in> set (ac_reserved a)"
  shows "step_ok a [] (run_turn_send t a)"
proof -
  define R where "R = remove1 t (ac_reserved a)"
  have "mset (ac_reserved a) = add_mset t (mset R)" using t by (simp add: R_def)
  then have m: "image_mset tn_reply (mset (ac_reserved a)) = add_mset (tn_reply t) (image_mset tn_reply (mset R))"
    and l: "length (ac_reserved a) = length R + 1"
    by (simp, metis add.commute plus_1_eq_Suc size_add_mset size_mset)
  then have d: "fetch_sub (ac_queue_depth a) = ac_queue_depth a - 1"
    using inv by (auto simp: fetch_sub_def actor_inv_def queued_turns_def)
  show ?thesis
  proof (cases "length (ac_rx a) < session_command_queue_capacity")
    case True
    then have "run_turn_send t a = a\<lparr>ac_reserved := R, ac_rx := ac_rx a @ [RunTurn t]\<rparr>"
      by (simp add: run_turn_send_def try_send_def R_def)
    then show ?thesis using inv l m by (simp add: step_ok_def actor_inv_def queued_turns_def phase_ok_def obs_defs)
  next
    case False
    then have "run_turn_send t a = send_reply (tn_reply t)
        (TurnDone (Inl (SessionBusy (ac_session_id a) (lit ''session command queue is full''))))
        (a\<lparr>ac_reserved := R, ac_queue_depth := ac_queue_depth a - 1\<rparr>)"
      by (simp add: run_turn_send_def try_send_def R_def d)
    then show ?thesis using inv l m by (simp add: step_ok_def actor_inv_def queued_turns_def phase_ok_def obs_defs)
  qed
qed

lemma post_ok:
  assumes "actor_inv a" "\<forall>t. c \<noteq> RunTurn t" "try_send c a = Some a'"
  shows "step_ok a (command_reply c) a'"
proof -
  have "\<not> is_run_turn c" using assms(2) by (cases c) auto
  moreover have "a' = a\<lparr>ac_rx := ac_rx a @ [c]\<rparr>" using assms(3) by (simp add: try_send_def split: if_splits)
  ultimately show ?thesis using assms(1)
    by (simp add: step_ok_def actor_inv_def queued_turns_def phase_ok_def obs_defs)
qed

lemma closing_ok: "actor_inv a \<Longrightarrow> step_ok a [] (mark_closing a)" "actor_inv a \<Longrightarrow> step_ok a [] (clear_closing a)"
  by (auto simp: step_ok_def mark_closing_def clear_closing_def try_send_def actor_inv_def queued_turns_def
      phase_ok_def obs_defs Let_def)

lemma start_ok:
  assumes inv: "actor_inv a"
  shows "step_ok a [] (start_next_turn_if_possible reject fresh token a)"
proof (cases "ac_active a \<noteq> None \<or> halted (ac_phase a)")
  case True
  then show ?thesis using inv by (simp add: step_ok_def start_next_turn_if_possible_def next_runnable_turn_def)
next
  case False
  obtain r q d rs where p: "pop_runnable reject (ac_pending a) a = (r, a\<lparr>ac_pending := q, ac_queue_depth := d, ac_replies := rs\<rparr>)"
    "d + length (ac_pending a) = ac_queue_depth a + length q + (if r = None then 0 else 1)" "d \<le> ac_queue_depth a"
    "mset (map tn_reply q) + mset (map fst rs) + mset (map tn_reply (case r of None \<Rightarrow> [] | Some t \<Rightarrow> [t])) =
      mset (map tn_reply (ac_pending a)) + mset (map fst (ac_replies a))"
    using pop_runnable_spec [OF depth_facts(1) [OF inv], of reject] by blast
  have ph: "ac_phase a = Idle" "ac_close_reply a = None" "ac_active a = None" using False inv
    by (auto simp: actor_inv_def phase_ok_def halted_def) (cases "ac_phase a"; simp)+
  have nr: "next_runnable_turn reject a = (r, a\<lparr>ac_pending := q, ac_queue_depth := d, ac_replies := rs\<rparr>)"
    using False p(1) by (simp add: next_runnable_turn_def)
  show ?thesis
  proof (cases r)
    case None
    then have e: "start_next_turn_if_possible reject fresh token a = a\<lparr>ac_pending := q, ac_queue_depth := d, ac_replies := rs\<rparr>"
      by (simp add: start_next_turn_if_possible_def nr)
    show ?thesis unfolding e using inv p(2,3,4) ph None
      by (simp add: step_ok_def actor_inv_def queued_turns_def phase_ok_def obs_defs halted_def)
  next
    case (Some t)
    have d: "fetch_sub d = d - 1" "0 < d" using p(2) Some depth_facts(1) [OF inv] by (auto simp: fetch_sub_def)
    let ?c = "token t \<or> (case ac_idle_cancel_at a of Some cancelled_at \<Rightarrow> tn_submitted_at t < cancelled_at | None \<Rightarrow> False)"
    have e: "start_next_turn_if_possible reject fresh token a = publish_status (Some fresh)
        (a\<lparr>ac_pending := q, ac_replies := rs, ac_queue_depth := d - 1,
           ac_active := Some \<lparr>at_turn_id = fresh, at_turn = t, at_cancelled = ?c, at_done = False\<rparr>, ac_phase := Running\<rparr>)"
      by (simp add: start_next_turn_if_possible_def nr Some d)
    show ?thesis unfolding e using inv p(2,3,4) ph Some d(2)
      by (simp add: step_ok_def actor_inv_def queued_turns_def phase_ok_def obs_defs halted_def)
  qed
qed

lemma finish_force_close_ok:
  assumes "ac_queue_depth a = queued_turns a" "ac_queue_depth a \<le> session_command_queue_capacity"
    "ac_active a = None" "ac_close_reply a = None" "ac_pending a = []"
  shows "actor_inv (finish_force_close now i a) \<and>
    open_replies (finish_force_close now i a) + answered (finish_force_close now i a) =
      add_mset i (open_replies a + answered a)"
  using assms by (simp add: finish_force_close_def Let_def actor_inv_def queued_turns_def phase_ok_def obs_defs)

lemma active_done_ok:
  assumes inv: "actor_inv a" and act: "ac_active a = Some act" "at_done act"
  shows "step_ok a [] (handle_active_done now a)"
proof (cases "ac_close_reply a")
  case None
  then have "ac_phase a = Running" using inv act by (auto simp: actor_inv_def phase_ok_def)
  then have e: "handle_active_done now a = publish_status None (a\<lparr>ac_active := None, ac_phase := Idle\<rparr>)"
    using None by (simp add: handle_active_done_def Let_def)
  show ?thesis unfolding e using inv act None \<open>ac_phase a = Running\<close>
    by (simp add: step_ok_def actor_inv_def queued_turns_def phase_ok_def obs_defs halted_def)
next
  case (Some i)
  then have ph: "ac_phase a = Closing" "ac_pending a = []" using inv by (auto simp: actor_inv_def phase_ok_def halted_def)
  let ?b = "a\<lparr>ac_active := None, ac_close_reply := None\<rparr>"
  have e: "handle_active_done now a = finish_force_close now i ?b"
    using Some by (simp add: handle_active_done_def Let_def)
  have "add_mset i (open_replies ?b + answered ?b) = open_replies a + answered a"
    using Some act by (simp add: obs_defs)
  then show ?thesis using finish_force_close_ok [of ?b now i] inv ph unfolding e
    by (simp add: step_ok_def actor_inv_def queued_turns_def)
qed

lemma end_turn_ok:
  assumes "actor_inv a" "ac_active a = Some act" "\<not> at_done act"
  shows "step_ok a [] (finish_turn r rec a)"
  using assms by (simp add: finish_turn_def step_ok_def actor_inv_def queued_turns_def phase_ok_def obs_defs)

lemma cancel_active_none [simp]: "ac_active (cancel_active a) = None \<longleftrightarrow> ac_active a = None"
  by (simp add: cancel_active_def)

lemma force_close_ok:
  assumes inv: "actor_inv a"
  shows "actor_inv (begin_force_close now i a) \<and>
    open_replies (begin_force_close now i a) + answered (begin_force_close now i a) =
      add_mset i (open_replies a + answered a)"
proof (cases "ac_phase a = Closed")
  case True
  then show ?thesis using inv by (simp add: begin_force_close_def)
next
  case False
  let ?b = "publish_status (active_id (cancel_active a)) (a\<lparr>ac_phase := Closing, ac_active := ac_active (cancel_active a),
      ac_pending := [], ac_queue_depth := ac_queue_depth a - length (ac_pending a),
      ac_replies := ac_replies a @ map (\<lambda>t. (tn_reply t, TurnDone (Inl (SessionClosed (ac_session_id a))))) (ac_pending a)\<rparr>)"
  have fp: "fail_pending_turns (cancel_active (a\<lparr>ac_phase := Closing\<rparr>)) = a\<lparr>ac_phase := Closing, ac_active := ac_active (cancel_active a),
      ac_pending := [], ac_queue_depth := ac_queue_depth a - length (ac_pending a),
      ac_replies := ac_replies a @ map (\<lambda>t. (tn_reply t, TurnDone (Inl (SessionClosed (ac_session_id a))))) (ac_pending a)\<rparr>"
    using depth_facts(1) [OF inv] by (simp add: fail_pending_turns_def fail_turns_eq cancel_active_def)
  have e: "begin_force_close now i a =
      (if ac_active a \<noteq> None then
         (if ac_close_reply a \<noteq> None then
            send_reply i (RecordReply (Inl (SessionBusy (ac_session_id a) (lit ''session is already closing'')))) ?b
          else ?b\<lparr>ac_close_reply := Some i\<rparr>)
       else finish_force_close now i ?b)"
    using False unfolding begin_force_close_def Let_def fp by (simp add: active_id_def)
  have q: "ac_queue_depth ?b = queued_turns ?b" "ac_queue_depth ?b \<le> session_command_queue_capacity"
    using inv by (simp_all add: actor_inv_def queued_turns_def)
  have o: "open_replies ?b + answered ?b = open_replies a + answered a"
    by (auto simp: obs_defs cancel_active_def comp_def split: option.split)
  show ?thesis
  proof (cases "ac_active a")
    case None
    then have "ac_close_reply a = None" using inv False by (auto simp: actor_inv_def phase_ok_def)
    then show ?thesis using finish_force_close_ok [of ?b now i] q o None
      by (simp add: e cancel_active_def)
  next
    case (Some act)
    then show ?thesis
    proof (cases "ac_close_reply a")
      case None
      have "open_replies (?b\<lparr>ac_close_reply := Some i\<rparr>) = add_mset i (open_replies ?b)" using None by (simp add: obs_defs)
      moreover have "answered (?b\<lparr>ac_close_reply := Some i\<rparr>) = answered ?b" by (simp add: obs_defs)
      moreover have "actor_inv (?b\<lparr>ac_close_reply := Some i\<rparr>)"
        using q Some by (simp add: actor_inv_def phase_ok_def queued_turns_def cancel_active_def)
      ultimately show ?thesis using Some None o by (simp add: e)
    next
      case (Some j)
      have "actor_inv ?b" using q Some \<open>ac_active a = Some act\<close> by (simp add: actor_inv_def phase_ok_def cancel_active_def)
      then show ?thesis using Some \<open>ac_active a = Some act\<close> o by (simp add: e)
    qed
  qed
qed

lemma receive_other:
  assumes "actor_inv a" "ac_rx a = c # cs" "\<not> is_run_turn c"
  shows "actor_inv (a\<lparr>ac_rx := cs\<rparr>)" "open_replies a = mset (command_reply c) + open_replies (a\<lparr>ac_rx := cs\<rparr>)"
    "answered (a\<lparr>ac_rx := cs\<rparr>) = answered a"
  using assms by (simp_all add: actor_inv_def queued_turns_def phase_ok_def obs_defs)

lemma receive_run_turn_ok:
  assumes inv: "actor_inv a" and rx: "ac_rx a = RunTurn t # cs"
  shows "step_ok a [] (handle_command now (RunTurn t) (a\<lparr>ac_rx := cs\<rparr>))"
proof (cases "halted (ac_phase a)")
  case True
  have d: "fetch_sub (ac_queue_depth a) = ac_queue_depth a - 1"
    using depth_facts(3) [OF inv rx] by (simp add: fetch_sub_def)
  have "handle_command now (RunTurn t) (a\<lparr>ac_rx := cs\<rparr>) = publish_status (active_id a)
      (send_reply (tn_reply t) (TurnDone (Inl (SessionClosed (ac_session_id a))))
        (a\<lparr>ac_rx := cs, ac_queue_depth := ac_queue_depth a - 1\<rparr>))"
    using True d by (simp add: handle_command_def active_id_def)
  then show ?thesis using inv rx by (simp add: step_ok_def actor_inv_def queued_turns_def phase_ok_def obs_defs)
next
  case False
  then have "handle_command now (RunTurn t) (a\<lparr>ac_rx := cs\<rparr>) = publish_status (active_id a)
      (a\<lparr>ac_rx := cs, ac_pending := ac_pending a @ [t]\<rparr>)"
    by (simp add: handle_command_def active_id_def)
  then show ?thesis using inv rx False by (simp add: step_ok_def actor_inv_def queued_turns_def phase_ok_def obs_defs)
qed

lemma receive_ok:
  assumes inv: "actor_inv a" and rx: "ac_rx a = c # cs"
  shows "step_ok a [] (handle_command now c (a\<lparr>ac_rx := cs\<rparr>))"
proof (cases "is_run_turn c")
  case True
  then show ?thesis using receive_run_turn_ok [OF inv] rx by (cases c) auto
next
  case False
  let ?b = "a\<lparr>ac_rx := cs\<rparr>"
  note b = receive_other [OF inv rx False]
  show ?thesis
  proof (cases c)
    case (ForceClose i)
    then show ?thesis using force_close_ok [OF b(1), of now i] b(2,3) by (simp add: step_ok_def handle_command_def)
  next
    case (CancelActiveTurn i)
    have "actor_inv (if ac_active ?b \<noteq> None then cancel_active ?b else ?b\<lparr>ac_idle_cancel_at := Some now\<rparr>)"
      using b(1) by (auto simp: actor_inv_def queued_turns_def phase_ok_def cancel_active_def)
    moreover have "open_replies (if ac_active ?b \<noteq> None then cancel_active ?b else ?b\<lparr>ac_idle_cancel_at := Some now\<rparr>) = open_replies ?b"
      by (auto simp: obs_defs cancel_active_def split: option.split)
    moreover have "answered (if ac_active ?b \<noteq> None then cancel_active ?b else ?b\<lparr>ac_idle_cancel_at := Some now\<rparr>) = answered ?b"
      by (simp add: obs_defs cancel_active_def)
    ultimately show ?thesis using CancelActiveTurn b(2,3) by (simp add: step_ok_def handle_command_def)
  next
    case (HibernateIdle before i)
    let ?p = "?b\<lparr>ac_record := supervisor_hibernate_idle now (ac_record a), ac_phase := Paused\<rparr>"
    have "actor_inv ?p" if "ac_phase a = Idle" "ac_active a = None" "ac_pending a = []"
      using b(1) that by (simp add: actor_inv_def queued_turns_def phase_ok_def)
    moreover have "open_replies ?p = open_replies ?b" "answered ?p = answered ?b" by (simp_all add: obs_defs)
    ultimately show ?thesis using HibernateIdle b by (simp add: step_ok_def handle_command_def Let_def)
  qed (use False b in \<open>auto simp: step_ok_def handle_command_def\<close>)
qed

lemma actor_step_ok: "actor_step a js a' \<Longrightarrow> actor_inv a \<Longrightarrow> step_ok a js a'"
  by (erule actor_step.cases)
     (simp_all add: submit_ok enqueue_ok post_ok closing_ok start_ok receive_ok end_turn_ok active_done_ok)

lemma actor_run_ok:
  "actor_run a js a' \<Longrightarrow> actor_inv a \<Longrightarrow> actor_inv a' \<and> open_replies a' + answered a' = open_replies a + answered a + mset js"
proof (induction rule: actor_run.induct)
  case (run_step a js a' ks a'')
  then show ?case using actor_step_ok [OF run_step.hyps(2)] by (simp add: step_ok_def)
qed simp

lemma closed_step:
  assumes st: "actor_step a js a'" and inv: "actor_inv a" and cl: "ac_phase a = Closed"
  shows "ac_phase a' = Closed"
  using st
proof cases
  case (submit t)
  then show ?thesis using cl by (simp add: try_increment_queue_depth_def)
next
  case (enqueue t)
  then show ?thesis using cl by (simp add: run_turn_send_def try_send_def Let_def)
next
  case (post c)
  then show ?thesis using cl by (auto simp: try_send_def split: if_splits)
next
  case stop_closing
  then show ?thesis using cl by (simp add: clear_closing_def try_send_def Let_def)
next
  case (start_turn reject fresh token)
  then show ?thesis using cl by (simp add: start_next_turn_if_possible_def next_runnable_turn_def halted_def)
next
  case (receive c cs now)
  then show ?thesis using cl
    by (cases c) (simp_all add: handle_command_def begin_force_close_def cancel_active_def halted_def)
qed (use inv cl in \<open>auto simp: mark_closing_def actor_inv_def phase_ok_def\<close>)

lemma closed_run: "actor_run a js a' \<Longrightarrow> actor_inv a \<Longrightarrow> ac_phase a = Closed \<Longrightarrow> ac_phase a' = Closed"
proof (induction rule: actor_run.induct)
  case (run_step a js a' ks a'')
  then show ?case using closed_step [OF run_step.hyps(2)] actor_run_ok [OF run_step.hyps(1)] by blast
qed

lemma started_turn:
  assumes "ac_active a = None" "ac_active (start_next_turn_if_possible reject fresh token a) = Some act"
  shows "reject (at_turn act) = None \<and> \<not> ac_closing a \<and> ac_phase a \<noteq> Closed"
proof -
  have *: "pop_runnable reject p b = (Some t, b') \<Longrightarrow> reject t = None \<and> \<not> ac_closing b" for p t and b b' :: "'a actor"
    by (induction p arbitrary: b) (auto split: if_splits option.splits)
  have a: "pop_runnable reject p b = (None, b') \<Longrightarrow> ac_active b' = ac_active b" for p and b b' :: "'a actor"
    by (induction p arbitrary: b) (auto split: if_splits option.splits)
  obtain r b where n: "next_runnable_turn reject a = (r, b)" by (rule prod.exhaust)
  show ?thesis
  proof (cases r)
    case None
    then have "ac_active b = None" using n assms(1) a by (auto simp: next_runnable_turn_def split: if_splits)
    then show ?thesis using assms(2) n None by (simp add: start_next_turn_if_possible_def)
  next
    case (Some t)
    then have "\<not> halted (ac_phase a)" "pop_runnable reject (ac_pending a) a = (Some t, b)"
      using n by (auto simp: next_runnable_turn_def split: if_splits)
    moreover have "at_turn act = t" using assms(2) n Some by (auto simp: start_next_turn_if_possible_def Let_def)
    ultimately show ?thesis using * by (auto simp: halted_def)
  qed
qed

section \<open>Properties\<close>


definition ex_record :: session_record where
  "ex_record = \<lparr>sr_session_id = lit ''s'', sr_status = SIdle, sr_updated_at_ms = 1\<rparr>"

definition ex_turn :: turn where
  "ex_turn = \<lparr>tn_reply = 0, tn_client = Some (lit ''c''), tn_submitted_at = 5\<rparr>"

definition ex_actor :: "unit actor" where
  "ex_actor = handle_command 9 (ForceClose 1) (try_increment_queue_depth ex_turn (actor_new ex_record))"

lemma ex_actor_run: "actor_run (actor_new ex_record :: unit actor) [0, 1] ex_actor"
proof -
  let ?a1 = "try_increment_queue_depth ex_turn (actor_new ex_record) :: unit actor"
  let ?a2 = "?a1\<lparr>ac_rx := [ForceClose 1]\<rparr>"
  have e: "ac_rx ?a1 = []" by (simp add: try_increment_queue_depth_def actor_new_def session_command_queue_capacity_def)
  have "try_send (ForceClose 1) ?a1 = Some ?a2" using e by (simp add: try_send_def session_command_queue_capacity_def)
  from actor_step.post [OF _ this] have p: "actor_step ?a1 [1] ?a2" by simp
  have "actor_step ?a2 [] (handle_command 9 (ForceClose 1) (?a2\<lparr>ac_rx := []\<rparr>))"
    by (rule actor_step.receive) simp
  moreover have "?a2\<lparr>ac_rx := []\<rparr> = ?a1" using e by simp
  ultimately have r: "actor_step ?a2 [] ex_actor" by (simp add: ex_actor_def)
  have sb: "actor_step (actor_new ex_record) [0] ?a1"
    using actor_step.submit [of "actor_new ex_record" ex_turn] by (simp add: ex_turn_def)
  show ?thesis using run_step [OF run_step [OF run_step [OF run_nil sb] p] r] by simp
qed


text \<open>
  C19: the queue counter is exact: in every reachable state it equals the number of turns that are
  reserved, in the channel or pending. It never wraps below zero and never exceeds the capacity.
\<close>

theorem queue_counter_exact:
  assumes "actor_run (actor_new rec) js a"
  shows "ac_queue_depth a = length (ac_reserved a) + length (filter is_run_turn (ac_rx a)) + length (ac_pending a) \<and>
     ac_queue_depth a \<le> session_command_queue_capacity"
  using actor_run_ok [OF assms actor_inv_new] by (simp add: actor_inv_def queued_turns_def)

theorem queue_counter_exact_witness: "ac_queue_depth ex_actor \<le> session_command_queue_capacity"
  using queue_counter_exact [OF ex_actor_run] by blast

text \<open>
  C38: the phases are sound: a turn is active exactly in the phases running and closing, a close
  waits for its reply exactly while closing, nothing is pending once the session is paused,
  closing or closed, and a closed session stays closed and never runs a turn again.
\<close>

theorem closed_is_final:
  assumes "actor_run (actor_new rec) is a" "actor_run a js b"
  shows "phase_ok b \<and>
     (ac_phase a = Closed \<longrightarrow> ac_phase b = Closed \<and> ac_active b = None \<and> ac_pending b = [])"
proof -
  have inv: "actor_inv a" using actor_run_ok [OF assms(1) actor_inv_new] by blast
  then have "phase_ok b" using actor_run_ok [OF assms(2)] by (simp add: actor_inv_def)
  moreover have "ac_phase b = Closed" if "ac_phase a = Closed" using closed_run [OF assms(2) inv that] .
  ultimately show ?thesis by (auto simp: phase_ok_def halted_def)
qed

theorem closed_is_final_witness: "ac_phase ex_actor = Closed \<and> ac_active ex_actor = None"
proof -
  have "ac_phase ex_actor = Closed"
    by (simp add: ex_actor_def handle_command_def begin_force_close_def finish_force_close_def Let_def
        try_increment_queue_depth_def actor_new_def session_command_queue_capacity_def cancel_active_def
        fail_pending_turns_def)
  then show ?thesis using closed_is_final [OF ex_actor_run run_nil] by blast
qed



end
