(* ===== verification/SandboxCounter.thy ===== *)
theory SandboxCounter
  imports Prelude
begin

text \<open>
  The counter of live sandboxes (\<open>apps/shared/src/backend/sandbox_counter.rs\<close>): a file shared by
  the processes of a host, read and rewritten under a file lock, so each operation is one step on
  the file's contents. The record \<open>counter_io\<close> tells which system calls of an operation
  succeed, \<open>now\<close> is the clock. The key derivation is outside the model: keys are the strings
  \<open>to_string_key\<close> returns. The lemmas show the accounting of the counter against the sandboxes
  that really live, including those confirmed after their reservation expired.
\<close>

section \<open>Data\<close>

definition pending_reservation_ttl_ms :: nat where
  "pending_reservation_ttl_ms = 300000"

definition max_active_sandboxes_per_key :: nat where
  "max_active_sandboxes_per_key = 20"

record counter_key =
  ck_sandbox_type :: rstr
  ck_key_identifier :: rstr

definition to_string_key :: "counter_key \<Rightarrow> rstr" where
  "to_string_key k = ck_sandbox_type k @ lit '':'' @ ck_key_identifier k"

text \<open>Reservations are their times, newest last.\<close>

record counter_data =
  cd_counts :: "rstr \<rightharpoonup> nat"
  cd_pending :: "rstr \<rightharpoonup> nat list"
  cd_ghosts :: "rstr \<rightharpoonup> nat"

definition counter_data_default :: counter_data where
  "counter_data_default = \<lparr>cd_counts = Map.empty, cd_pending = Map.empty, cd_ghosts = Map.empty\<rparr>"

datatype counter_error =
    LimitExceeded nat nat counter_key
  | FileError
  | LockError
  | ParseError

definition or_zero :: "nat option \<Rightarrow> nat" where
  "or_zero x = (case x of None \<Rightarrow> 0 | Some n \<Rightarrow> n)"

definition pending_len :: "counter_data \<Rightarrow> rstr \<Rightarrow> nat" where
  "pending_len d k = (case cd_pending d k of None \<Rightarrow> 0 | Some rs \<Rightarrow> length rs)"

definition pop_pending :: "rstr \<Rightarrow> counter_data \<Rightarrow> bool \<times> counter_data" where
  "pop_pending k d =
     (case cd_pending d k of
        Some rs \<Rightarrow>
          let rs = butlast rs in
          (True, d\<lparr>cd_pending := (if rs = [] then (cd_pending d)(k := None) else (cd_pending d)(k \<mapsto> rs))\<rparr>)
      | None \<Rightarrow> (False, d))"

section \<open>The file\<close>

record counter_io =
  io_lock :: bool
  io_open :: bool
  io_parse :: bool
  io_gc_save :: bool
  io_save :: bool

definition gc_stale_pending :: "nat \<Rightarrow> counter_data \<Rightarrow> counter_data" where
  "gc_stale_pending now d = d\<lparr>cd_pending := (\<lambda>k.
     case cd_pending d k of
       None \<Rightarrow> None
     | Some rs \<Rightarrow>
         let rs = filter (\<lambda>r. now - r < pending_reservation_ttl_ms) rs
         in if rs = [] then None else Some rs)\<rparr>"

text \<open>
  \<open>load_data\<close>: the data and the file, which holds the collected data when that save succeeds. A file
  that does not exist is \<^term>\<open>None\<close>.
\<close>

definition load_data ::
  "counter_io \<Rightarrow> nat \<Rightarrow> counter_data option \<Rightarrow> (counter_error + counter_data) \<times> counter_data option" where
  "load_data io now file =
     (case file of
        None \<Rightarrow> (Inr counter_data_default, None)
      | Some d \<Rightarrow>
          if \<not> io_open io then (Inl FileError, file)
          else if \<not> io_parse io then (Inl ParseError, file)
          else let d = gc_stale_pending now d in (Inr d, if io_gc_save io then Some d else file))"

definition save_data ::
  "counter_io \<Rightarrow> counter_data \<Rightarrow> counter_data option \<Rightarrow> (counter_error + unit) \<times> counter_data option" where
  "save_data io d file = (if io_save io then (Inr (), Some d) else (Inl FileError, file))"

text \<open>The common frame of the operations: lock, load, then the body on the data.\<close>

definition with_data ::
  "counter_io \<Rightarrow> nat \<Rightarrow> (counter_data \<Rightarrow> counter_data option \<Rightarrow> (counter_error + 'a) \<times> counter_data option) \<Rightarrow>
   counter_data option \<Rightarrow> (counter_error + 'a) \<times> counter_data option" where
  "with_data io now body file =
     (if \<not> io_lock io then (Inl LockError, file)
      else case load_data io now file of
             (Inl e, file) \<Rightarrow> (Inl e, file)
           | (Inr d, file) \<Rightarrow> body d file)"

section \<open>Operations\<close>

definition check_and_reserve where
  "check_and_reserve max_per_key io now key = with_data io now (\<lambda>d file.
     let k = to_string_key key;
         current = or_zero (cd_counts d k);
         pending = pending_len d k in
     if max_per_key \<le> current + pending then (Inl (LimitExceeded (current + pending) max_per_key key), file)
     else
       let rs = (case cd_pending d k of None \<Rightarrow> [] | Some rs \<Rightarrow> rs)
       in save_data io (d\<lparr>cd_pending := (cd_pending d)(k \<mapsto> rs @ [now])\<rparr>) file)"

definition confirm_creation where
  "confirm_creation max_per_key io now key = with_data io now (\<lambda>d file.
     let k = to_string_key key;
         d = snd (pop_pending k d);
         current = or_zero (cd_counts d k);
         d = (if current < max_per_key then d\<lparr>cd_counts := (cd_counts d)(k \<mapsto> current + 1)\<rparr>
              else d\<lparr>cd_ghosts := (cd_ghosts d)(k \<mapsto> or_zero (cd_ghosts d k) + 1)\<rparr>)
     in save_data io d file)"

definition cancel_reservation where
  "cancel_reservation io now key = with_data io now (\<lambda>d file.
     let (popped, d) = pop_pending (to_string_key key) d
     in if popped then save_data io d file else (Inr (), file))"

definition release_sandbox where
  "release_sandbox io now key = with_data io now (\<lambda>d file.
     let k = to_string_key key;
         ghosts = or_zero (cd_ghosts d k) in
     if 0 < ghosts then
       save_data io (d\<lparr>cd_ghosts := (if 1 < ghosts then (cd_ghosts d)(k \<mapsto> ghosts - 1) else (cd_ghosts d)(k := None))\<rparr>) file
     else
       let current = or_zero (cd_counts d k) in
       if 0 < current then save_data io (d\<lparr>cd_counts := (cd_counts d)(k \<mapsto> current - 1)\<rparr>) file
       else (Inr (), file))"

text \<open>\<open>reconcile_counts\<close>: the counts become exactly the live counts; it saves when that is a change.\<close>

definition reconcile_counts where
  "reconcile_counts io now live_counts = with_data io now (\<lambda>d file.
     let kept = (\<lambda>k. if live_counts k = None then None else cd_counts d k);
         counts = (\<lambda>k. case live_counts k of Some n \<Rightarrow> Some n | None \<Rightarrow> kept k);
         d' = d\<lparr>cd_counts := counts, cd_ghosts := Map.empty\<rparr>
     in if d' = d then (Inr (), file) else save_data io d' file)"

definition get_total_count where
  "get_total_count io now key = with_data io now (\<lambda>d file.
     let k = to_string_key key in (Inr (or_zero (cd_counts d k) + pending_len d k), file))"

section \<open>Accounting\<close>

text \<open>
  The sandboxes of a key that really live: one more after each confirmation, one fewer after each
  release. A release is only sent for a sandbox that lives.
\<close>

inductive counter_step :: "nat \<Rightarrow> counter_key \<Rightarrow> counter_data option \<times> nat \<Rightarrow> counter_data option \<times> nat \<Rightarrow> bool"
  for max_per_key :: nat and key :: counter_key where
  reserved: "check_and_reserve max_per_key io now key' file = (r, file') \<Longrightarrow>
     counter_step max_per_key key (file, live) (file', live)"
| confirmed: "confirm_creation max_per_key io now key file = (Inr (), file') \<Longrightarrow>
     counter_step max_per_key key (file, live) (file', live + 1)"
| confirmed_other: "to_string_key key' \<noteq> to_string_key key \<Longrightarrow>
     confirm_creation max_per_key io now key' file = (r, file') \<Longrightarrow>
     counter_step max_per_key key (file, live) (file', live)"
| cancelled: "cancel_reservation io now key' file = (r, file') \<Longrightarrow>
     counter_step max_per_key key (file, live) (file', live)"
| released: "0 < live \<Longrightarrow> release_sandbox io now key file = (Inr (), file') \<Longrightarrow>
     counter_step max_per_key key (file, live) (file', live - 1)"
| released_other: "to_string_key key' \<noteq> to_string_key key \<Longrightarrow>
     release_sandbox io now key' file = (r, file') \<Longrightarrow>
     counter_step max_per_key key (file, live) (file', live)"

definition counted :: "counter_data option \<Rightarrow> rstr \<Rightarrow> nat \<times> nat" where
  "counted file k = (case file of None \<Rightarrow> (0, 0) | Some d \<Rightarrow> (or_zero (cd_counts d k), or_zero (cd_ghosts d k)))"

definition counter_inv :: "nat \<Rightarrow> rstr \<Rightarrow> counter_data option \<times> nat \<Rightarrow> bool" where
  "counter_inv max_per_key k s =
     (case s of (file, live) \<Rightarrow> case counted file k of (counts, ghosts) \<Rightarrow>
        counts + ghosts = live \<and> counts \<le> max_per_key \<and> (0 < ghosts \<longrightarrow> counts = max_per_key))"

text \<open>The reservations of a key that are younger than their time to live.\<close>

definition fresh_reservations :: "nat \<Rightarrow> counter_data option \<Rightarrow> rstr \<Rightarrow> nat" where
  "fresh_reservations now file k =
     (case file of
        None \<Rightarrow> 0
      | Some d \<Rightarrow> (case cd_pending d k of
          None \<Rightarrow> 0
        | Some rs \<Rightarrow> length (filter (\<lambda>r. now - r < pending_reservation_ttl_ms) rs)))"

section \<open>Lemmas\<close>

lemma or_zero_simps [simp]: "or_zero None = 0" "or_zero (Some n) = n"
  by (simp_all add: or_zero_def)

lemma gc_counted [simp]: "counted (Some (gc_stale_pending now d)) k = counted (Some d) k"
  by (simp add: counted_def gc_stale_pending_def)

lemma pop_counted [simp]: "counted (Some (snd (pop_pending j d))) k = counted (Some d) k"
  by (simp add: counted_def pop_pending_def Let_def split: option.split)

lemma counted_pending [simp]: "counted (Some (d\<lparr>cd_pending := p\<rparr>)) k = counted (Some d) k"
  by (simp add: counted_def)

lemma counted_Some: "counted (Some d) k = (or_zero (cd_counts d k), or_zero (cd_ghosts d k))"
  by (simp add: counted_def)

lemma counted_default [simp]: "counted None k = (0, 0)" "counted (Some counter_data_default) k = (0, 0)"
  by (simp_all add: counted_def counter_data_default_def)

lemma save_counted:
  "save_data io d file = (r, file') \<Longrightarrow> counted file' k = (if is_ok r then counted (Some d) k else counted file k)"
  by (auto simp: save_data_def split: if_splits)

text \<open>Every operation is either a body that ran on data with the same counts, or an error that left them.\<close>

lemma with_data_cases:
  assumes "with_data io now body file = (r, file')"
  obtains (failed) e where "r = Inl e" "\<And>k. counted file' k = counted file k"
  | (ran) d file'' where "body d file'' = (r, file')" "\<And>k. counted (Some d) k = counted file k"
      "\<And>k. counted file'' k = counted file k"
proof (cases "io_lock io")
  case False
  then have "r = Inl LockError" "file' = file" using assms by (auto simp: with_data_def)
  then show thesis using failed by simp
next
  case True
  obtain l f where l: "load_data io now file = (l, f)" by (rule prod.exhaust)
  have lf: "counted f k = counted file k" "l = Inr d \<Longrightarrow> counted (Some d) k = counted file k" for k d
    using l by (auto simp: load_data_def Let_def split: option.splits if_splits)
  show thesis
  proof (cases l)
    case (Inl e)
    then have "r = Inl e" "file' = f" using assms True l by (auto simp: with_data_def)
    then show thesis using failed lf(1) by simp
  next
    case (Inr d)
    then show thesis using assms True l lf ran by (simp add: with_data_def)
  qed
qed

lemma reserve_counted: "check_and_reserve m io now key file = (r, file') \<Longrightarrow> counted file' k = counted file k"
  unfolding check_and_reserve_def
  by (erule with_data_cases) (auto simp: Let_def dest!: save_counted [where k = k] split: if_splits)

lemma cancel_counted: "cancel_reservation io now key file = (r, file') \<Longrightarrow> counted file' k = counted file k"
  unfolding cancel_reservation_def
  by (erule with_data_cases) (auto simp: split_beta dest!: save_counted [where k = k] split: if_splits)

lemma confirm_counted:
  assumes "confirm_creation m io now key file = (r, file')"
  shows "counted file' k = (if is_ok r \<and> to_string_key key = k
     then (case counted file k of (c, g) \<Rightarrow> if c < m then (c + 1, g) else (c, g + 1)) else counted file k)"
  using assms unfolding confirm_creation_def
proof (cases rule: with_data_cases)
  case (failed e)
  then show ?thesis by (simp add: is_ok_def)
next
  case (ran d file'')
  let ?j = "to_string_key key"
  define p where "p = snd (pop_pending ?j d)"
  let ?c = "or_zero (cd_counts p ?j)"
  define d' where "d' = (if ?c < m then p\<lparr>cd_counts := (cd_counts p)(?j \<mapsto> ?c + 1)\<rparr>
      else p\<lparr>cd_ghosts := (cd_ghosts p)(?j \<mapsto> or_zero (cd_ghosts p ?j) + 1)\<rparr>)"
  have "save_data io d' file'' = (r, file')" using ran(1) unfolding Let_def p_def d'_def by (simp only:)
  then have "counted file' k = (if is_ok r then counted (Some d') k else counted file'' k)" by (rule save_counted)
  moreover have "counted file k = (or_zero (cd_counts p k), or_zero (cd_ghosts p k))"
    using ran(2) [of k] pop_counted [of ?j d k] by (simp add: p_def counted_Some)
  ultimately show ?thesis using ran(3) [of k] by (auto simp: d'_def counted_Some)
qed

lemma release_counted:
  assumes "release_sandbox io now key file = (r, file')"
  shows "counted file' k = (if is_ok r \<and> to_string_key key = k
     then (case counted file k of (c, g) \<Rightarrow> if 0 < g then (c, g - 1) else (c - 1, g)) else counted file k)"
  using assms unfolding release_sandbox_def
proof (cases rule: with_data_cases)
  case (failed e)
  then show ?thesis by (simp add: is_ok_def)
next
  case (ran d file'')
  let ?j = "to_string_key key"
  let ?g = "or_zero (cd_ghosts d ?j)" and ?c = "or_zero (cd_counts d ?j)"
  consider (ghost) "0 < ?g" | (count) "?g = 0" "0 < ?c" | (none) "?g = 0" "?c = 0" by blast
  then show ?thesis
  proof cases
    case ghost
    let ?d = "d\<lparr>cd_ghosts := (if 1 < ?g then (cd_ghosts d)(?j \<mapsto> ?g - 1) else (cd_ghosts d)(?j := None))\<rparr>"
    have "save_data io ?d file'' = (r, file')" using ran(1) ghost by (simp add: Let_def)
    then have "counted file' k = (if is_ok r then counted (Some ?d) k else counted file'' k)" by (rule save_counted)
    moreover have "counted (Some ?d) k = (if ?j = k then (?c, ?g - 1) else counted (Some d) k)"
      using ghost by (auto simp: counted_def)
    moreover have "?j = k \<Longrightarrow> counted file k = (?c, ?g)" using ran(2) [of k] by (simp add: counted_Some)
    ultimately show ?thesis using ran(2,3) [of k] ghost by auto
  next
    case count
    let ?d = "d\<lparr>cd_counts := (cd_counts d)(?j \<mapsto> ?c - 1)\<rparr>"
    have "save_data io ?d file'' = (r, file')" using ran(1) count by (simp add: Let_def)
    then have "counted file' k = (if is_ok r then counted (Some ?d) k else counted file'' k)" by (rule save_counted)
    moreover have "counted (Some ?d) k = (if ?j = k then (?c - 1, ?g) else counted (Some d) k)"
      by (auto simp: counted_def)
    moreover have "?j = k \<Longrightarrow> counted file k = (?c, ?g)" using ran(2) [of k] by (simp add: counted_Some)
    ultimately show ?thesis using ran(2,3) [of k] count by auto
  next
    case none
    then have "file' = file''" using ran(1) by (simp add: Let_def)
    moreover have "?j = k \<Longrightarrow> counted file k = (?c, ?g)" using ran(2) [of k] by (simp add: counted_Some)
    ultimately show ?thesis using ran(3) [of k] none by auto
  qed
qed

lemma counter_step_inv:
  assumes "counter_step m key s s'" "counter_inv m (to_string_key key) s"
  shows "counter_inv m (to_string_key key) s'"
  using assms
  by (cases rule: counter_step.cases)
     (auto simp: counter_inv_def reserve_counted cancel_counted confirm_counted release_counted is_ok_def
       split: prod.splits if_splits)

lemma counter_run_inv:
  "(counter_step m key)\<^sup>*\<^sup>* s s' \<Longrightarrow> counter_inv m (to_string_key key) s \<Longrightarrow> counter_inv m (to_string_key key) s'"
  by (induction rule: rtranclp.induct) (auto intro: counter_step_inv)

lemma reserve_room:
  assumes "is_ok (fst (check_and_reserve m io now key file))"
  shows "fst (counted file (to_string_key key)) + fresh_reservations now file (to_string_key key) < m"
proof (cases "file")
  case None
  with assms show ?thesis
    by (auto simp: check_and_reserve_def with_data_def load_data_def counter_data_default_def counted_def
        fresh_reservations_def pending_len_def Let_def is_ok_def split: if_splits)
next
  case (Some d)
  let ?k = "to_string_key key"
  have "pending_len (gc_stale_pending now d) ?k = fresh_reservations now file ?k"
    by (simp add: Some pending_len_def gc_stale_pending_def fresh_reservations_def Let_def split: option.split)
  moreover have "cd_counts (gc_stale_pending now d) = cd_counts d" by (simp add: gc_stale_pending_def)
  ultimately show ?thesis using assms
    by (auto simp: Some check_and_reserve_def with_data_def load_data_def counted_def Let_def is_ok_def
        split: if_splits)
qed

section \<open>Properties\<close>


definition ex_key :: counter_key where
  "ex_key = \<lparr>ck_sandbox_type = lit ''e2b'', ck_key_identifier = lit ''k''\<rparr>"

definition io_fine :: counter_io where
  "io_fine = \<lparr>io_lock = True, io_open = True, io_parse = True, io_gc_save = True, io_save = True\<rparr>"


end
