(* ===== verification/SandboxPolicy.thy ===== *)
theory SandboxPolicy
  imports Prelude
begin

text \<open>
  The sandbox of the local backend (\<open>crates/operation_backend/src/backends/local/policy.rs\<close> and the path
  normalisation of \<open>backend.rs\<close>): the checks the tools make before they touch a path, the grants a user
  gives, and the arguments with which processes are put into \<open>bubblewrap\<close>. A path is the list of its
  components, as \<open>Path\<close> compares paths; text is turned into components as on Unix, and names are
  valid Unicode. The file system is a parameter. The grant store's lock is never poisoned, because nothing
  panics while it is held. The lemmas relate the checks to the mounts of the sandbox, and show that a
  denial, a grant and a retry fit together.
\<close>

section \<open>Paths\<close>

datatype component = RootDir | CurDir | ParentDir | Normal rstr

type_synonym path = "component list"

definition is_sep :: "rchar \<Rightarrow> bool" where
  "is_sep c \<longleftrightarrow> c = 47"

definition component_of :: "rstr \<Rightarrow> component" where
  "component_of w = (if w = lit ''..'' then ParentDir else Normal w)"

text \<open>\<open>Path::components\<close>: empty segments vanish, and \<open>.\<close> does too except at the start of a relative path.\<close>

definition components :: "rstr \<Rightarrow> path" where
  "components s =
     (let segments = split_on is_sep s in
      (if s \<noteq> [] \<and> is_sep (hd s) then [RootDir]
       else if hd segments = lit ''.'' then [CurDir] else []) @
      map component_of (filter (\<lambda>w. w \<noteq> [] \<and> w \<noteq> lit ''.'') segments))"

fun component_text :: "component \<Rightarrow> rstr" where
  "component_text RootDir = []"
| "component_text CurDir = lit ''.''"
| "component_text ParentDir = lit ''..''"
| "component_text (Normal w) = w"

definition show_path :: "path \<Rightarrow> rstr" where
  "show_path p =
     (case p of
        RootDir # cs \<Rightarrow> 47 # join [47] (map component_text cs)
      | _ \<Rightarrow> join [47] (map component_text p))"

definition is_absolute :: "path \<Rightarrow> bool" where
  "is_absolute p \<longleftrightarrow> p \<noteq> [] \<and> hd p = RootDir"

definition parent_path :: "path \<Rightarrow> path option" where
  "parent_path p = (if p = [] \<or> last p = RootDir then None else Some (butlast p))"

definition file_name :: "path \<Rightarrow> rstr option" where
  "file_name p = (if p = [] then None else case last p of Normal w \<Rightarrow> Some w | _ \<Rightarrow> None)"

definition root_path :: path where
  "root_path = [RootDir]"

definition path_is_within :: "path \<Rightarrow> path \<Rightarrow> bool" where
  "path_is_within p root \<longleftrightarrow> p = root \<or> prefix root p"

section \<open>Data\<close>

datatype capability = CapRead | CapWrite | CapExecCwd | CapExecRuntime

datatype permission_scope = Once | Session

record policy_denial =
  dn_backend_id :: rstr
  dn_isolation :: rstr
  dn_operation :: rstr
  dn_capability :: capability
  dn_path :: rstr

datatype execution_state = NotStarted | RunningOrCompleted

datatype operation_error =
    OpInvalidPath rstr
  | OpNotFound rstr
  | OpAlreadyExists rstr
  | OpNotDirectory rstr
  | OpNotFile rstr
  | OpPermissionDenied rstr
  | OpSandboxPolicyDenied policy_denial
  | OpUnsupported rstr
  | OpExecutionFailed rstr
  | OpExecutionInterrupted rstr "nat list" "nat list" execution_state
  | OpTransport rstr

fun capability_display :: "capability \<Rightarrow> rstr" where
  "capability_display CapRead = lit ''read''"
| "capability_display CapWrite = lit ''write''"
| "capability_display CapExecCwd = lit ''exec_cwd''"
| "capability_display CapExecRuntime = lit ''exec_runtime''"

definition denial_display :: "policy_denial \<Rightarrow> rstr" where
  "denial_display d =
     dn_isolation d @ lit '' blocked '' @ capability_display (dn_capability d) @ lit '' '' @ dn_path d @
     lit '' for '' @ dn_operation d"

fun execution_state_display :: "execution_state \<Rightarrow> rstr" where
  "execution_state_display NotStarted = lit ''not_started''"
| "execution_state_display RunningOrCompleted = lit ''running_or_completed''"

fun operation_error_display :: "operation_error \<Rightarrow> rstr" where
  "operation_error_display (OpInvalidPath message) = lit ''invalid path: '' @ message"
| "operation_error_display (OpNotFound p) = lit ''not found: '' @ p"
| "operation_error_display (OpAlreadyExists p) = lit ''already exists: '' @ p"
| "operation_error_display (OpNotDirectory p) = lit ''not a directory: '' @ p"
| "operation_error_display (OpNotFile p) = lit ''not a file: '' @ p"
| "operation_error_display (OpPermissionDenied p) = lit ''permission denied: '' @ p"
| "operation_error_display (OpSandboxPolicyDenied denial) = lit ''sandbox policy denied: '' @ denial_display denial"
| "operation_error_display (OpUnsupported message) = lit ''unsupported operation: '' @ message"
| "operation_error_display (OpExecutionFailed message) = lit ''execution failed: '' @ message"
| "operation_error_display (OpExecutionInterrupted message stdout stderr state) =
     lit ''execution interrupted ('' @ execution_state_display state @ lit ''): '' @ message"
| "operation_error_display (OpTransport message) = lit ''transport error: '' @ message"

record grant_request =
  gr_denial :: policy_denial
  gr_scope :: permission_scope

record path_isolation =
  pi_allow_network :: bool
  pi_readable_roots :: "path list"
  pi_writable_roots :: "path list"

datatype local_isolation =
    NoIsolation
  | MacosSeatbelt path_isolation
  | LinuxBubblewrap path_isolation
  | LinuxDynsandbox path_isolation

record permission_grant =
  pg_id :: nat
  pg_capability :: capability
  pg_path :: path

record policy =
  pl_isolation :: local_isolation
  pl_next_id :: nat
  pl_grants :: "permission_grant list"

text \<open>What the code asks the file system.\<close>

record file_system =
  fs_canonicalize :: "path \<Rightarrow> path option"
  fs_exists :: "path \<Rightarrow> bool"
  fs_is_dir :: "path \<Rightarrow> bool"
  fs_is_file :: "path \<Rightarrow> bool"

section \<open>Normalisation\<close>

fun normalize_loop :: "rstr \<Rightarrow> path \<Rightarrow> path \<Rightarrow> operation_error + path" where
  "normalize_loop text [] normalized = Inr normalized"
| "normalize_loop text (RootDir # cs) normalized = normalize_loop text cs root_path"
| "normalize_loop text (CurDir # cs) normalized = normalize_loop text cs normalized"
| "normalize_loop text (ParentDir # cs) normalized =
     (case parent_path normalized of
        None \<Rightarrow> Inl (OpInvalidPath (lit ''path escapes root: '' @ text))
      | Some p \<Rightarrow> normalize_loop text cs p)"
| "normalize_loop text (Normal w # cs) normalized = normalize_loop text cs (normalized @ [Normal w])"

text \<open>A path with the text it displays as.\<close>

definition normalize_components :: "rstr \<Rightarrow> path \<Rightarrow> operation_error + path" where
  "normalize_components text p =
     (if \<not> is_absolute p then Inl (OpInvalidPath (lit ''path must be absolute: '' @ text))
      else rbind (normalize_loop text p []) (\<lambda>normalized.
        if \<not> is_absolute normalized then Inl (OpInvalidPath (lit ''path must remain absolute: '' @ text))
        else Inr normalized))"

definition normalize_absolute_host_path :: "rstr \<Rightarrow> operation_error + path" where
  "normalize_absolute_host_path text = normalize_components text (components text)"

definition normalize_path :: "path \<Rightarrow> operation_error + path" where
  "normalize_path p = normalize_components (show_path p) p"

definition normalize_for_read :: "file_system \<Rightarrow> rstr \<Rightarrow> operation_error + path" where
  "normalize_for_read fs text =
     rbind (normalize_absolute_host_path text) (\<lambda>normalized.
     case fs_canonicalize fs normalized of
       Some canonical \<Rightarrow> normalize_path canonical
     | None \<Rightarrow> Inr normalized)"

definition normalize_for_write :: "file_system \<Rightarrow> rstr \<Rightarrow> operation_error + path" where
  "normalize_for_write fs text =
     rbind (normalize_absolute_host_path text) (\<lambda>normalized.
     case fs_canonicalize fs normalized of
       Some canonical \<Rightarrow> normalize_path canonical
     | None \<Rightarrow>
         (case parent_path normalized of
            None \<Rightarrow> Inr normalized
          | Some parent \<Rightarrow>
              (case fs_canonicalize fs parent of
                 None \<Rightarrow> Inr normalized
               | Some canonical_parent \<Rightarrow>
                   (case file_name normalized of
                      None \<Rightarrow> Inr normalized
                    | Some name \<Rightarrow> normalize_path (canonical_parent @ [Normal name])))))"

section \<open>Checks\<close>

fun active_path_isolation :: "local_isolation \<Rightarrow> (rstr \<times> path_isolation) option" where
  "active_path_isolation NoIsolation = None"
| "active_path_isolation (MacosSeatbelt config) = Some (lit ''macos_seatbelt'', config)"
| "active_path_isolation (LinuxBubblewrap config) = Some (lit ''linux_bubblewrap'', config)"
| "active_path_isolation (LinuxDynsandbox config) = Some (lit ''linux_dynsandbox'', config)"

definition grant_allows :: "permission_grant \<Rightarrow> capability \<Rightarrow> bool" where
  "grant_allows g requested \<longleftrightarrow>
     pg_capability g = CapWrite \<and> requested = CapRead \<or>
     pg_capability g = CapExecCwd \<and> requested = CapRead \<or>
     pg_capability g = requested"

definition is_granted :: "policy \<Rightarrow> path \<Rightarrow> capability \<Rightarrow> bool" where
  "is_granted pol p requested \<longleftrightarrow>
     list_ex (\<lambda>g. grant_allows g requested \<and> path_is_within p (pg_path g)) (pl_grants pol)"

definition sandbox_denial :: "rstr \<Rightarrow> rstr \<Rightarrow> capability \<Rightarrow> path \<Rightarrow> operation_error" where
  "sandbox_denial isolation operation cap p =
     OpSandboxPolicyDenied \<lparr>dn_backend_id = lit ''local'', dn_isolation = isolation, dn_operation = operation,
       dn_capability = cap, dn_path = show_path p\<rparr>"

definition check_path ::
  "(rstr \<Rightarrow> operation_error + path) \<Rightarrow> (path_isolation \<Rightarrow> path list) \<Rightarrow> capability \<Rightarrow>
   policy \<Rightarrow> rstr \<Rightarrow> rstr \<Rightarrow> operation_error + unit" where
  "check_path to_path roots cap pol text operation =
     (case active_path_isolation (pl_isolation pol) of
        None \<Rightarrow> Inr ()
      | Some (isolation_name, config) \<Rightarrow>
          rbind (to_path text) (\<lambda>p.
          if list_ex (path_is_within p) (roots config) \<or> is_granted pol p cap then Inr ()
          else Inl (sandbox_denial isolation_name operation cap p)))"

definition check_read :: "file_system \<Rightarrow> policy \<Rightarrow> rstr \<Rightarrow> rstr \<Rightarrow> operation_error + unit" where
  "check_read fs = check_path (normalize_for_read fs) pi_readable_roots CapRead"

definition check_write :: "file_system \<Rightarrow> policy \<Rightarrow> rstr \<Rightarrow> rstr \<Rightarrow> operation_error + unit" where
  "check_write fs = check_path (normalize_for_write fs) pi_writable_roots CapWrite"

definition check_exec_cwd :: "file_system \<Rightarrow> policy \<Rightarrow> rstr \<Rightarrow> operation_error + unit" where
  "check_exec_cwd fs pol text =
     check_path (normalize_for_read fs) pi_readable_roots CapExecCwd pol text (lit ''bash'')"

definition is_authorizable_write_target :: "file_system \<Rightarrow> path \<Rightarrow> bool" where
  "is_authorizable_write_target fs p \<longleftrightarrow>
     p \<noteq> root_path \<and>
     (fs_exists fs p \<or>
      (case parent_path p of Some parent \<Rightarrow> parent \<noteq> root_path \<and> fs_exists fs parent | None \<Rightarrow> False))"

fun sandbox_denial_from_result :: "operation_error + unit \<Rightarrow> operation_error + policy_denial option" where
  "sandbox_denial_from_result (Inr ()) = Inr None"
| "sandbox_denial_from_result (Inl (OpSandboxPolicyDenied denial)) = Inr (Some denial)"
| "sandbox_denial_from_result (Inl e) = Inl e"

definition sandbox_denial_for_path ::
  "file_system \<Rightarrow> policy \<Rightarrow> rstr \<Rightarrow> capability \<Rightarrow> rstr \<Rightarrow> operation_error + policy_denial option" where
  "sandbox_denial_for_path fs pol text cap operation =
     (case cap of
        CapRead \<Rightarrow>
          rbind (normalize_for_read fs text) (\<lambda>p.
          if \<not> fs_exists fs p \<or> p = root_path then Inr None
          else sandbox_denial_from_result (check_read fs pol (show_path p) operation))
      | CapWrite \<Rightarrow>
          rbind (normalize_for_write fs text) (\<lambda>p.
          if \<not> is_authorizable_write_target fs p then Inr None
          else sandbox_denial_from_result (check_write fs pol (show_path p) operation))
      | CapExecCwd \<Rightarrow>
          rbind (normalize_for_read fs text) (\<lambda>p.
          if \<not> fs_is_dir fs p \<or> p = root_path then Inr None
          else sandbox_denial_from_result (check_exec_cwd fs pol (show_path p)))
      | CapExecRuntime \<Rightarrow> Inr None)"

section \<open>Grants\<close>

definition write_grant_root :: "file_system \<Rightarrow> path \<Rightarrow> path" where
  "write_grant_root fs p =
     (if fs_is_dir fs p then p
      else case parent_path p of
             Some parent \<Rightarrow> if parent \<noteq> root_path then parent else p
           | None \<Rightarrow> p)"

definition grant :: "file_system \<Rightarrow> grant_request \<Rightarrow> policy \<Rightarrow> operation_error + nat \<times> policy" where
  "grant fs request pol =
     (let denial = gr_denial request; cap = dn_capability denial in
      if cap = CapExecRuntime \<and> gr_scope request \<noteq> Once then
        Inl (OpUnsupported (lit ''exec runtime sandbox bypass can only be granted for one retry''))
      else
        rbind (case cap of
                 CapRead \<Rightarrow> normalize_for_read fs (dn_path denial)
               | CapExecCwd \<Rightarrow> normalize_for_read fs (dn_path denial)
               | CapExecRuntime \<Rightarrow> Inr []
               | CapWrite \<Rightarrow> rbind (normalize_for_write fs (dn_path denial)) (\<lambda>p. Inr (write_grant_root fs p))) (\<lambda>p.
        let gid = pl_next_id pol + 1 in
        Inr (gid, pol\<lparr>pl_next_id := gid,
          pl_grants := pl_grants pol @ [\<lparr>pg_id = gid, pg_capability = cap, pg_path = p\<rparr>]\<rparr>)))"

definition revoke :: "nat \<Rightarrow> policy \<Rightarrow> policy" where
  "revoke gid pol = pol\<lparr>pl_grants := filter (\<lambda>g. pg_id g \<noteq> gid) (pl_grants pol)\<rparr>"

definition push_unique_path :: "path list \<Rightarrow> path \<Rightarrow> path list" where
  "push_unique_path paths p = (if p \<in> set paths then paths else paths @ [p])"

fun merge_grants_into_roots :: "path list \<Rightarrow> path list \<Rightarrow> permission_grant list \<Rightarrow> path list \<times> path list" where
  "merge_grants_into_roots readable writable [] = (readable, writable)"
| "merge_grants_into_roots readable writable (g # gs) =
     (case pg_capability g of
        CapRead \<Rightarrow> merge_grants_into_roots (push_unique_path readable (pg_path g)) writable gs
      | CapExecCwd \<Rightarrow> merge_grants_into_roots (push_unique_path readable (pg_path g)) writable gs
      | CapExecRuntime \<Rightarrow> merge_grants_into_roots readable writable gs
      | CapWrite \<Rightarrow> merge_grants_into_roots (push_unique_path readable (pg_path g))
                      (push_unique_path writable (pg_path g)) gs)"

definition bypasses_sandbox :: "policy \<Rightarrow> bool" where
  "bypasses_sandbox pol \<longleftrightarrow> list_ex (\<lambda>g. pg_capability g = CapExecRuntime) (pl_grants pol)"

section \<open>Building a policy\<close>

text \<open>\<open>normalize_build_path\<close> falls back to the normalised path when it cannot be resolved; the error names the field.\<close>

definition normalize_build_path :: "file_system \<Rightarrow> rstr \<Rightarrow> rstr \<Rightarrow> rstr + path" where
  "normalize_build_path fs field_name text =
     (case normalize_absolute_host_path text of
        Inl error \<Rightarrow> Inl (field_name @ lit '': '' @ operation_error_display error)
      | Inr p \<Rightarrow> Inr (case fs_canonicalize fs p of Some canonical \<Rightarrow> canonical | None \<Rightarrow> p))"

fun normalize_build_roots :: "file_system \<Rightarrow> rstr \<Rightarrow> rstr list \<Rightarrow> rstr + path list" where
  "normalize_build_roots fs field_name [] = Inr []"
| "normalize_build_roots fs field_name (root # roots) =
     rbind (normalize_build_path fs field_name root) (\<lambda>p.
     rbind (normalize_build_roots fs field_name roots) (\<lambda>ps. Inr (p # ps)))"

definition build_path_isolation_config ::
  "file_system \<Rightarrow> bool \<Rightarrow> rstr list \<Rightarrow> rstr list \<Rightarrow> rstr \<Rightarrow> rstr \<Rightarrow> rstr + path_isolation" where
  "build_path_isolation_config fs allow_network readable_roots writable_roots workspace_root temp_root =
     rbind (if readable_roots = []
            then rbind (normalize_build_path fs (lit ''workspace_root'') workspace_root) (\<lambda>p. Inr [p])
            else normalize_build_roots fs (lit ''readable_roots'') readable_roots) (\<lambda>readable.
     rbind (if writable_roots = []
            then rbind (normalize_build_path fs (lit ''workspace_root'') workspace_root) (\<lambda>w.
                 rbind (normalize_build_path fs (lit ''temp_root'') temp_root) (\<lambda>t. Inr [w, t]))
            else normalize_build_roots fs (lit ''writable_roots'') writable_roots) (\<lambda>writable.
     Inr \<lparr>pi_allow_network = allow_network, pi_readable_roots = foldl push_unique_path readable writable,
          pi_writable_roots = writable\<rparr>))"

section \<open>Bubblewrap\<close>

text \<open>The options of a \<open>bubblewrap\<close> call; \<open>option_args\<close> gives their arguments.\<close>

datatype bw_option =
    BwFlag rstr
  | BwDir path
  | BwRoBind path
  | BwBind path
  | BwProc path
  | BwDev path
  | BwChdir path

fun option_args :: "bw_option \<Rightarrow> rstr list" where
  "option_args (BwFlag flag) = [flag]"
| "option_args (BwDir p) = [lit ''--dir'', show_path p]"
| "option_args (BwRoBind p) = [lit ''--ro-bind'', show_path p, show_path p]"
| "option_args (BwBind p) = [lit ''--bind'', show_path p, show_path p]"
| "option_args (BwProc p) = [lit ''--proc'', show_path p]"
| "option_args (BwDev p) = [lit ''--dev'', show_path p]"
| "option_args (BwChdir p) = [lit ''--chdir'', show_path p]"

record bw_builder =
  bb_options :: "bw_option list"
  bb_dirs :: "path list"

definition add_option :: "bw_option \<Rightarrow> bw_builder \<Rightarrow> bw_builder" where
  "add_option opt b = b\<lparr>bb_options := bb_options b @ [opt]\<rparr>"

definition ensure_one_directory :: "bw_builder \<Rightarrow> path \<Rightarrow> bw_builder" where
  "ensure_one_directory b current =
     (if current = root_path \<or> current \<in> set (bb_dirs b) then b
      else (add_option (BwDir current) b)\<lparr>bb_dirs := bb_dirs b @ [current]\<rparr>)"

definition ensure_directory :: "path \<Rightarrow> bw_builder \<Rightarrow> bw_builder" where
  "ensure_directory dest b = foldl ensure_one_directory b (map (\<lambda>i. take (Suc i) dest) [0..<length dest])"

definition ensure_bind_destination :: "file_system \<Rightarrow> path \<Rightarrow> bw_builder \<Rightarrow> bw_builder" where
  "ensure_bind_destination fs p b =
     ensure_directory
       (if fs_is_file fs p then (case parent_path p of Some parent \<Rightarrow> parent | None \<Rightarrow> root_path) else p) b"

definition ro_bind :: "file_system \<Rightarrow> bw_builder \<Rightarrow> path \<Rightarrow> bw_builder" where
  "ro_bind fs b p = add_option (BwRoBind p) (ensure_bind_destination fs p b)"

definition rw_bind :: "file_system \<Rightarrow> bw_builder \<Rightarrow> path \<Rightarrow> bw_builder" where
  "rw_bind fs b p = add_option (BwBind p) (ensure_bind_destination fs p b)"

definition runtime_roots :: "path list" where
  "runtime_roots = map components [lit ''/usr'', lit ''/bin'', lit ''/sbin'', lit ''/lib'', lit ''/lib64'']"

definition runtime_files :: "path list" where
  "runtime_files = map components
     [lit ''/etc/ld.so.cache'', lit ''/etc/ld.so.conf'', lit ''/etc/ld.so.conf.d'', lit ''/etc/nsswitch.conf'',
      lit ''/etc/passwd'', lit ''/etc/group'', lit ''/etc/hosts'', lit ''/etc/resolv.conf'', lit ''/etc/ssl'',
      lit ''/etc/ca-certificates'', lit ''/etc/pki'', lit ''/etc/localtime'']"

definition proc_path :: path where
  "proc_path = components (lit ''/proc'')"

definition dev_path :: path where
  "dev_path = components (lit ''/dev'')"

definition bind_runtime_roots :: "file_system \<Rightarrow> bw_builder \<Rightarrow> bw_builder" where
  "bind_runtime_roots fs b =
     (let b = foldl (ro_bind fs) b (filter (fs_exists fs) runtime_roots);
          b = (if fs_exists fs proc_path then add_option (BwProc proc_path) b else b);
          b = (if fs_exists fs dev_path then add_option (BwDev dev_path) b else b)
      in foldl (ro_bind fs) b (filter (fs_exists fs) runtime_files))"

definition unshare_flags :: "rstr list" where
  "unshare_flags = [lit ''--die-with-parent'', lit ''--unshare-user'', lit ''--unshare-ipc'', lit ''--unshare-pid'',
     lit ''--unshare-uts'', lit ''--unshare-cgroup-try'']"

definition bubblewrap_profile_options :: "file_system \<Rightarrow> bool \<Rightarrow> path list \<Rightarrow> path list \<Rightarrow> path \<Rightarrow> bw_option list" where
  "bubblewrap_profile_options fs allow_network readable writable cwd =
     (let b = \<lparr>bb_options = map BwFlag unshare_flags @
                 (if allow_network then [] else [BwFlag (lit ''--unshare-net'')]), bb_dirs = []\<rparr>;
          b = bind_runtime_roots fs b;
          b = foldl (ro_bind fs) b (filter (\<lambda>root. root \<notin> set writable) readable);
          b = foldl (rw_bind fs) b writable;
          b = ensure_directory cwd b;
          b = add_option (BwChdir cwd) b
      in bb_options b)"

definition bubblewrap_options :: "file_system \<Rightarrow> policy \<Rightarrow> path \<Rightarrow> bw_option list option" where
  "bubblewrap_options fs pol cwd =
     (case pl_isolation pol of
        LinuxBubblewrap config \<Rightarrow>
          if bypasses_sandbox pol then None
          else let (readable, writable) =
                     merge_grants_into_roots (pi_readable_roots config) (pi_writable_roots config) (pl_grants pol)
               in Some (bubblewrap_profile_options fs (pi_allow_network config) readable writable cwd)
      | _ \<Rightarrow> None)"

definition bubblewrap_args :: "file_system \<Rightarrow> policy \<Rightarrow> path \<Rightarrow> rstr list option" where
  "bubblewrap_args fs pol cwd = map_option (\<lambda>opts. concat (map option_args opts)) (bubblewrap_options fs pol cwd)"

section \<open>The other sandboxes\<close>

definition profile_string :: "path \<Rightarrow> rstr" where
  "profile_string p = [34] @ str_replace (str_replace (show_path p) [92] [92, 92]) [34] [92, 34] @ [34]"

definition literal_rule :: "rstr \<Rightarrow> rstr \<Rightarrow> rstr \<Rightarrow> rstr" where
  "literal_rule operation filter_kind text =
     lit ''(allow '' @ operation @ lit '' ('' @ filter_kind @ lit '' '' @ [34] @ text @ [34] @ lit ''))''"

definition seatbelt_rule :: "rstr \<Rightarrow> rstr \<Rightarrow> path \<Rightarrow> rstr" where
  "seatbelt_rule operation filter_kind root =
     lit ''(allow '' @ operation @ lit '' ('' @ filter_kind @ lit '' '' @ profile_string root @ lit ''))''"

definition seatbelt_fixed_rules :: "rstr list" where
  "seatbelt_fixed_rules =
     [lit ''(version 1)'', lit ''(deny default)'', lit ''(allow process*)'', lit ''(allow sysctl-read)'',
      lit ''(allow file-read-metadata)'', literal_rule (lit ''file-read*'') (lit ''subpath'') (lit ''/bin''),
      literal_rule (lit ''file-read*'') (lit ''subpath'') (lit ''/sbin''), literal_rule (lit ''file-read*'') (lit ''subpath'') (lit ''/usr''),
      literal_rule (lit ''file-read*'') (lit ''subpath'') (lit ''/System''), literal_rule (lit ''file-read*'') (lit ''subpath'') (lit ''/Library/Apple''),
      literal_rule (lit ''file-read*'') (lit ''literal'') (lit ''/dev/null''), literal_rule (lit ''file-write*'') (lit ''literal'') (lit ''/dev/null'')]"

definition seatbelt_profile_text :: "path list \<Rightarrow> path list \<Rightarrow> bool \<Rightarrow> rstr" where
  "seatbelt_profile_text readable writable allow_network =
     join [10]
       (seatbelt_fixed_rules @
        concat (map (\<lambda>root. [seatbelt_rule (lit ''file-read*'') (lit ''literal'') root,
          seatbelt_rule (lit ''file-read*'') (lit ''subpath'') root]) readable) @
        concat (map (\<lambda>root. [seatbelt_rule (lit ''file-read*'') (lit ''literal'') root,
          seatbelt_rule (lit ''file-read*'') (lit ''subpath'') root,
          seatbelt_rule (lit ''file-write*'') (lit ''literal'') root,
          seatbelt_rule (lit ''file-write*'') (lit ''subpath'') root]) writable) @
        (if allow_network then [lit ''(allow network*)''] else []))"

definition seatbelt_profile :: "policy \<Rightarrow> rstr option" where
  "seatbelt_profile pol =
     (case pl_isolation pol of
        MacosSeatbelt config \<Rightarrow>
          if bypasses_sandbox pol then None
          else let (readable, writable) =
                     merge_grants_into_roots (pi_readable_roots config) (pi_writable_roots config) (pl_grants pol)
               in Some (seatbelt_profile_text readable writable (pi_allow_network config))
      | _ \<Rightarrow> None)"

definition linux_dynsandbox_args :: "policy \<Rightarrow> path \<Rightarrow> rstr list option" where
  "linux_dynsandbox_args pol cwd =
     (case pl_isolation pol of
        LinuxDynsandbox config \<Rightarrow>
          if bypasses_sandbox pol then None
          else let (readable, writable) =
                     merge_grants_into_roots (pi_readable_roots config) (pi_writable_roots config) (pl_grants pol)
               in Some (concat (map (\<lambda>root. [lit ''--mount'', show_path root @ lit '':ro''])
                            (filter (\<lambda>root. root \<notin> set writable) readable)) @
                        concat (map (\<lambda>root. [lit ''--mount'', show_path root @ lit '':rw'']) writable) @
                        [lit ''-c'', show_path cwd])
      | _ \<Rightarrow> None)"

definition requires_stdin :: "policy \<Rightarrow> bool" where
  "requires_stdin pol \<longleftrightarrow> (case pl_isolation pol of LinuxDynsandbox _ \<Rightarrow> True | _ \<Rightarrow> False)"

datatype isolation_options =
    OptMacosSeatbelt bool "rstr list" "rstr list"
  | OptLinuxBubblewrap bool "rstr list" "rstr list"
  | OptLinuxDynsandbox bool "rstr list" "rstr list" bool

datatype build_error =
    InvalidConfig rstr
  | UnsupportedBackend rstr
  | BuildUnsupported rstr
  | ResourceLimitExceeded rstr
  | BuildFailed rstr

record host =
  ho_macos :: bool
  ho_linux :: bool
  ho_bubblewrap :: bool
  ho_dynsandbox :: bool

definition unrestricted :: policy where
  "unrestricted = \<lparr>pl_isolation = NoIsolation, pl_next_id = 0, pl_grants = []\<rparr>"

definition isolated :: "local_isolation \<Rightarrow> policy" where
  "isolated isolation = \<lparr>pl_isolation = isolation, pl_next_id = 0, pl_grants = []\<rparr>"

definition from_isolation_options ::
  "host \<Rightarrow> file_system \<Rightarrow> isolation_options option \<Rightarrow> rstr \<Rightarrow> rstr \<Rightarrow> build_error + policy" where
  "from_isolation_options ho fs options workspace_root temp_root =
     (let build = (\<lambda>net readable writable.
            map_err InvalidConfig (build_path_isolation_config fs net readable writable workspace_root temp_root)) in
      case options of
        None \<Rightarrow> Inr unrestricted
      | Some (OptMacosSeatbelt net readable writable) \<Rightarrow>
          if \<not> ho_macos ho then
            Inl (BuildUnsupported (lit ''macos_seatbelt isolation is only supported on macOS''))
          else rbind (build net readable writable) (\<lambda>config. Inr (isolated (MacosSeatbelt config)))
      | Some (OptLinuxBubblewrap net readable writable) \<Rightarrow>
          if \<not> ho_linux ho then
            Inl (BuildUnsupported (lit ''linux_bubblewrap isolation is only supported on Linux''))
          else if \<not> ho_bubblewrap ho then
            Inl (BuildUnsupported (lit ''linux_bubblewrap isolation requires bubblewrap (bwrap) in PATH''))
          else rbind (build net readable writable) (\<lambda>config. Inr (isolated (LinuxBubblewrap config)))
      | Some (OptLinuxDynsandbox net readable writable no_landlock) \<Rightarrow>
          if \<not> ho_linux ho then
            Inl (BuildUnsupported (lit ''linux_dynsandbox isolation is only supported on Linux''))
          else if \<not> ho_dynsandbox ho then
            Inl (BuildUnsupported (lit ''linux_dynsandbox isolation requires dyn-sandbox in PATH''))
          else rbind (build net readable writable) (\<lambda>config. Inr (isolated (LinuxDynsandbox config))))"

section \<open>Mounts\<close>

text \<open>What a list of options mounts, and the access a path has: a later mount covers an earlier one.\<close>

datatype access = ReadOnly | ReadWrite | Kernel

fun mount_of :: "bw_option \<Rightarrow> (path \<times> access) list" where
  "mount_of (BwRoBind p) = [(p, ReadOnly)]"
| "mount_of (BwBind p) = [(p, ReadWrite)]"
| "mount_of (BwProc p) = [(p, Kernel)]"
| "mount_of (BwDev p) = [(p, Kernel)]"
| "mount_of _ = []"

definition mounts :: "bw_option list \<Rightarrow> (path \<times> access) list" where
  "mounts opts = concat (map mount_of opts)"

definition mount_access :: "bw_option list \<Rightarrow> path \<Rightarrow> access option" where
  "mount_access opts p = map_option snd (find (\<lambda>m. path_is_within p (fst m)) (rev (mounts opts)))"

definition runtime_mounts :: "file_system \<Rightarrow> (path \<times> access) list" where
  "runtime_mounts fs = mounts (bb_options (bind_runtime_roots fs \<lparr>bb_options = [], bb_dirs = []\<rparr>))"

section \<open>Lemmas\<close>

lemma mounts_Nil: "mounts [] = []"
  by (simp add: mounts_def)

lemma mounts_add [simp]: "mounts (bb_options (add_option opt b)) = mounts (bb_options b) @ mount_of opt"
  by (simp add: add_option_def mounts_def)

lemma mounts_ensure [simp]: "mounts (bb_options (ensure_directory dest b)) = mounts (bb_options b)"
proof -
  have one: "mounts (bb_options (ensure_one_directory b p)) = mounts (bb_options b)" for b p
    by (simp add: ensure_one_directory_def add_option_def mounts_def)
  have "mounts (bb_options (foldl ensure_one_directory b ps)) = mounts (bb_options b)" for b ps
    by (induction ps arbitrary: b) (simp_all add: one)
  then show ?thesis by (simp add: ensure_directory_def)
qed

lemma mounts_binds [simp]:
  "mounts (bb_options (foldl (ro_bind fs) b ps)) = mounts (bb_options b) @ map (\<lambda>p. (p, ReadOnly)) ps"
  "mounts (bb_options (foldl (rw_bind fs) b ps)) = mounts (bb_options b) @ map (\<lambda>p. (p, ReadWrite)) ps"
  by (induction ps arbitrary: b) (simp_all add: ro_bind_def rw_bind_def ensure_bind_destination_def)

lemma mounts_runtime: "mounts (bb_options (bind_runtime_roots fs b)) = mounts (bb_options b) @ runtime_mounts fs"
  by (simp add: bind_runtime_roots_def runtime_mounts_def Let_def) (simp add: mounts_def)

lemma runtime_not_writable: "m \<in> set (runtime_mounts fs) \<Longrightarrow> snd m \<noteq> ReadWrite"
  by (auto simp: runtime_mounts_def bind_runtime_roots_def Let_def mounts_Nil split: if_splits)

lemma profile_mounts:
  "mounts (bubblewrap_profile_options fs net readable writable cwd) =
     runtime_mounts fs @ map (\<lambda>p. (p, ReadOnly)) (filter (\<lambda>p. p \<notin> set writable) readable) @
     map (\<lambda>p. (p, ReadWrite)) writable"
proof -
  have "mounts (map BwFlag flags @ (if net then [] else [BwFlag f])) = []" for flags f
    by (simp add: mounts_def)
  then show ?thesis
    by (simp add: bubblewrap_profile_options_def Let_def mounts_runtime)
qed

lemma find_rev_append:
  "find P (rev (xs @ ys)) = (case find P (rev ys) of Some y \<Rightarrow> Some y | None \<Rightarrow> find P (rev xs))"
proof -
  have "find P (as @ bs) = (case find P as of Some y \<Rightarrow> Some y | None \<Rightarrow> find P bs)" for as bs
    by (induction as) auto
  then show ?thesis by simp
qed

lemma find_pair:
  "find (\<lambda>m. P (fst m)) (rev (map (\<lambda>p. (p, a)) ps)) = map_option (\<lambda>p. (p, a)) (find P (rev ps))"
proof -
  have "find (\<lambda>m. P (fst m)) (map (\<lambda>p. (p, a)) qs) = map_option (\<lambda>p. (p, a)) (find P qs)" for qs
    by (induction qs) auto
  then show ?thesis by (simp add: rev_map)
qed

lemma find_rev_None: "find P (rev xs) = None \<longleftrightarrow> (\<forall>x \<in> set xs. \<not> P x)"
  by (simp add: find_None_iff Ball_def)

lemma find_rev_SomeD:
  assumes "find P (rev xs) = Some x"
  shows "x \<in> set xs \<and> P x"
proof -
  have "find P ys = Some x \<Longrightarrow> x \<in> set ys \<and> P x" for ys by (induction ys) (auto split: if_splits)
  from this [OF assms] show ?thesis by simp
qed

lemma profile_access:
  "mount_access (bubblewrap_profile_options fs net readable writable cwd) p = Some ReadWrite \<longleftrightarrow>
     (\<exists>root \<in> set writable. path_is_within p root)"
  "mount_access (bubblewrap_profile_options fs net readable writable cwd) p \<noteq> None \<longleftrightarrow>
     (\<exists>root \<in> set readable \<union> set writable. path_is_within p root) \<or>
     (\<exists>m \<in> set (runtime_mounts fs). path_is_within p (fst m))"
proof -
  let ?ro = "filter (\<lambda>p. p \<notin> set writable) readable"
  have acc: "mount_access (bubblewrap_profile_options fs net readable writable cwd) p =
      (case find (path_is_within p) (rev writable) of Some _ \<Rightarrow> Some ReadWrite
       | None \<Rightarrow> case find (path_is_within p) (rev ?ro) of Some _ \<Rightarrow> Some ReadOnly
       | None \<Rightarrow> map_option snd (find (\<lambda>m. path_is_within p (fst m)) (rev (runtime_mounts fs))))"
    unfolding mount_access_def profile_mounts append_assoc [symmetric] find_rev_append find_pair
    by (auto split: option.split)
  have rt: "map_option snd (find (\<lambda>m. path_is_within p (fst m)) (rev (runtime_mounts fs))) \<noteq> Some ReadWrite"
    by (auto dest!: find_rev_SomeD runtime_not_writable)
  show "mount_access (bubblewrap_profile_options fs net readable writable cwd) p = Some ReadWrite \<longleftrightarrow>
     (\<exists>root \<in> set writable. path_is_within p root)"
  proof (cases "find (path_is_within p) (rev writable)")
    case None
    then have "\<forall>root \<in> set writable. \<not> path_is_within p root" by (simp only: find_rev_None)
    then show ?thesis unfolding acc None using rt by (simp split: option.split)
  next
    case (Some root)
    then show ?thesis unfolding acc Some using find_rev_SomeD [OF Some] by auto
  qed
  have "mount_access (bubblewrap_profile_options fs net readable writable cwd) p = None \<longleftrightarrow>
      find (path_is_within p) (rev writable) = None \<and> find (path_is_within p) (rev ?ro) = None \<and>
      find (\<lambda>m. path_is_within p (fst m)) (rev (runtime_mounts fs)) = None"
    unfolding acc by (simp split: option.split)
  also have "\<dots> \<longleftrightarrow> \<not> ((\<exists>root \<in> set readable \<union> set writable. path_is_within p root) \<or>
     (\<exists>m \<in> set (runtime_mounts fs). path_is_within p (fst m)))"
    unfolding find_rev_None by auto
  finally show "mount_access (bubblewrap_profile_options fs net readable writable cwd) p \<noteq> None \<longleftrightarrow>
     (\<exists>root \<in> set readable \<union> set writable. path_is_within p root) \<or>
     (\<exists>m \<in> set (runtime_mounts fs). path_is_within p (fst m))" by (simp only: not_not)
qed

lemma set_push_unique [simp]: "set (push_unique_path ps p) = insert p (set ps)"
  by (auto simp: push_unique_path_def)

lemma set_push_all [simp]: "set (foldl push_unique_path ps qs) = set ps \<union> set qs"
  by (induction qs arbitrary: ps) auto

lemma merged_roots:
  "set (fst (merge_grants_into_roots readable writable gs)) =
     set readable \<union> pg_path ` {g \<in> set gs. pg_capability g \<noteq> CapExecRuntime}"
  "set (snd (merge_grants_into_roots readable writable gs)) =
     set writable \<union> pg_path ` {g \<in> set gs. pg_capability g = CapWrite}"
proof (induction gs arbitrary: readable writable)
  case (Cons g gs)
  {
    case 1
    show ?case by (cases "pg_capability g") (auto simp: Cons)
  next
    case 2
    show ?case by (cases "pg_capability g") (auto simp: Cons)
  }
qed simp_all

section \<open>Reachable policies\<close>

inductive reachable_policy :: "file_system \<Rightarrow> policy \<Rightarrow> bool" for fs where
  built: "from_isolation_options ho fs options workspace_root temp_root = Inr pol \<Longrightarrow> reachable_policy fs pol"
| granted: "reachable_policy fs pol \<Longrightarrow> grant fs request pol = Inr (gid, pol') \<Longrightarrow> reachable_policy fs pol'"
| revoked: "reachable_policy fs pol \<Longrightarrow> reachable_policy fs (revoke gid pol)"

definition policy_ok :: "policy \<Rightarrow> bool" where
  "policy_ok pol \<longleftrightarrow>
     (\<forall>name config. active_path_isolation (pl_isolation pol) = Some (name, config) \<longrightarrow>
        set (pi_writable_roots config) \<subseteq> set (pi_readable_roots config)) \<and>
     (\<forall>g \<in> set (pl_grants pol). pg_id g \<le> pl_next_id pol)"

lemma built_config:
  "build_path_isolation_config fs net rs ws wr tr = Inr config \<Longrightarrow>
   set (pi_writable_roots config) \<subseteq> set (pi_readable_roots config)"
  by (auto simp: build_path_isolation_config_def rbind_eq_Inr)

lemma grant_policy:
  assumes "grant fs request pol = Inr (gid, pol')"
  obtains p where "gid = pl_next_id pol + 1" "pol' = pol\<lparr>pl_next_id := gid,
      pl_grants := pl_grants pol @ [\<lparr>pg_id = gid, pg_capability = dn_capability (gr_denial request), pg_path = p\<rparr>]\<rparr>"
  using assms by (auto simp: grant_def Let_def rbind_eq_Inr split: if_splits)

lemma reachable_ok: "reachable_policy fs pol \<Longrightarrow> policy_ok pol"
proof (induction rule: reachable_policy.induct)
  case (built ho options wr tr pol)
  then show ?case
    by (cases options; cases "the options")
       (auto simp: from_isolation_options_def policy_ok_def unrestricted_def isolated_def rbind_eq_Inr Let_def map_err_eq_Inr
          dest!: built_config split: if_splits)
next
  case (granted pol request gid pol')
  from granted(2) show ?case
    by (rule grant_policy) (use granted(3) in \<open>auto simp: policy_ok_def\<close>)
next
  case (revoked pol gid)
  then show ?case by (auto simp: policy_ok_def revoke_def)
qed

lemma check_path_ok:
  assumes "active_path_isolation (pl_isolation pol) = Some (name, config)"
  shows "is_ok (check_path to_path roots cap pol text op) \<longleftrightarrow>
    (\<exists>p. to_path text = Inr p \<and> ((\<exists>root \<in> set (roots config). path_is_within p root) \<or> is_granted pol p cap))"
  using assms by (cases "to_path text") (auto simp: check_path_def list_ex_iff)

lemma granted_iff:
  "is_granted pol p CapRead \<longleftrightarrow>
     (\<exists>g \<in> set (pl_grants pol). pg_capability g \<noteq> CapExecRuntime \<and> path_is_within p (pg_path g))"
  "is_granted pol p CapWrite \<longleftrightarrow>
     (\<exists>g \<in> set (pl_grants pol). pg_capability g = CapWrite \<and> path_is_within p (pg_path g))"
proof -
  have "grant_allows g CapRead \<longleftrightarrow> pg_capability g \<noteq> CapExecRuntime" for g
    by (cases "pg_capability g") (simp_all add: grant_allows_def)
  then show "is_granted pol p CapRead \<longleftrightarrow>
     (\<exists>g \<in> set (pl_grants pol). pg_capability g \<noteq> CapExecRuntime \<and> path_is_within p (pg_path g))"
    by (simp add: is_granted_def list_ex_iff)
qed (simp add: is_granted_def list_ex_iff grant_allows_def)

section \<open>Well-formed paths\<close>

definition good_name :: "rstr \<Rightarrow> bool" where
  "good_name w \<longleftrightarrow> w \<noteq> [] \<and> w \<noteq> lit ''.'' \<and> w \<noteq> lit ''..'' \<and> list_all (\<lambda>c. \<not> is_sep c) w"

definition good_path :: "path \<Rightarrow> bool" where
  "good_path p \<longleftrightarrow> (\<exists>ws. p = RootDir # map Normal ws \<and> list_all good_name ws)"

lemma split_on_clean: "list_all (\<lambda>c. \<not> P c) w \<Longrightarrow> split_on P w = [w]"
  by (induction w) auto

lemma split_on_sep: "list_all (\<lambda>c. \<not> is_sep c) w \<Longrightarrow> split_on is_sep (w @ 47 # s) = w # split_on is_sep s"
  by (induction w) (auto simp: is_sep_def)

lemma split_on_join:
  "ws \<noteq> [] \<Longrightarrow> list_all (list_all (\<lambda>c. \<not> is_sep c)) ws \<Longrightarrow> split_on is_sep (join [47] ws) = ws"
proof (induction ws rule: induct_list012)
  case (3 w v ws)
  then show ?case using split_on_sep [of w "join [47] (v # ws)"] by simp
qed (simp_all add: split_on_clean)

lemma split_on_no_sep: "w \<in> set (split_on P s) \<Longrightarrow> list_all (\<lambda>c. \<not> P c) w"
proof (induction s arbitrary: w)
  case (Cons c s)
  then show ?case
    by (cases "split_on P s") (auto split: if_splits)
qed simp

lemma components_show: "good_path p \<Longrightarrow> components (show_path p) = p"
proof -
  assume "good_path p"
  then obtain ws where p: "p = RootDir # map Normal ws" and ws: "list_all good_name ws"
    by (auto simp: good_path_def)
  have shown: "show_path p = 47 # join [47] ws" by (simp add: p show_path_def comp_def)
  have "filter (\<lambda>w. w \<noteq> [] \<and> w \<noteq> lit ''.'') (split_on is_sep (join [47] ws)) = ws"
  proof (cases "ws = []")
    case False
    moreover have "list_all (list_all (\<lambda>c. \<not> is_sep c)) ws" using ws by (auto simp: list_all_iff good_name_def)
    moreover have "filter (\<lambda>w. w \<noteq> [] \<and> w \<noteq> lit ''.'') ws = ws"
      using ws by (simp add: filter_id_conv list_all_iff good_name_def)
    ultimately show ?thesis by (simp add: split_on_join)
  qed simp
  moreover have "map component_of ws = map Normal ws"
    using ws by (auto simp: list_all_iff good_name_def component_of_def)
  moreover have "is_sep 47" by (simp add: is_sep_def)
  ultimately have "components (47 # join [47] ws) = RootDir # map Normal ws" by (simp add: components_def Let_def)
  then show ?thesis unfolding shown by (simp add: p)
qed

lemma normalize_loop_good:
  assumes "normalize_loop t cs acc = Inr p" "good_path acc"
    and "\<And>w. Normal w \<in> set cs \<Longrightarrow> good_name w"
  shows "good_path p"
  using assms
proof (induction t cs acc rule: normalize_loop.induct)
  case (4 t cs acc)
  obtain q where q: "parent_path acc = Some q" using 4(2) by (auto split: option.splits)
  obtain ws where ws: "acc = RootDir # map Normal ws" "list_all good_name ws" using 4(3) by (auto simp: good_path_def)
  have "ws \<noteq> []" using q ws by (auto simp: parent_path_def)
  then have "q = RootDir # map Normal (butlast ws)"
    using q ws by (cases ws rule: rev_cases) (auto simp: parent_path_def butlast_append split: if_splits)
  moreover have "list_all good_name (butlast ws)" using ws(2) by (auto simp: list_all_iff dest: in_set_butlastD)
  ultimately have "good_path q" by (auto simp: good_path_def)
  with 4 q show ?case by simp
next
  case (5 t w cs acc)
  obtain ws where "acc = RootDir # map Normal ws" "list_all good_name ws" using 5(3) by (auto simp: good_path_def)
  moreover have "good_name w" using 5(4) by simp
  ultimately have "good_path (acc @ [Normal w])" by (auto simp: good_path_def intro!: exI [of _ "ws @ [w]"])
  with 5 show ?case by simp
qed (auto simp: good_path_def root_path_def)

lemma good_components:
  assumes "Normal w \<in> set (components t)"
  shows "good_name w"
proof -
  from assms have w: "w \<in> set (split_on is_sep t)" "w \<noteq> []" "w \<noteq> lit ''.''" "w \<noteq> lit ''..''"
    by (auto simp: components_def Let_def component_of_def split: if_splits)
  with split_on_no_sep [OF w(1)] show ?thesis by (simp add: good_name_def)
qed

lemma normalize_good:
  assumes "normalize_components t cs = Inr p" "\<And>w. Normal w \<in> set cs \<Longrightarrow> good_name w"
  shows "good_path p"
proof -
  obtain ds where "cs = RootDir # ds" "normalize_loop t ds root_path = Inr p"
    using assms(1) by (cases cs) (auto simp: normalize_components_def is_absolute_def rbind_eq_Inr split: if_splits)
  then show ?thesis
    using normalize_loop_good [of t ds root_path p] assms(2) by (auto simp: good_path_def root_path_def)
qed

lemma normalize_fixed:
  assumes "good_path p"
  shows "normalize_components t p = Inr p"
proof -
  obtain ws where p: "p = RootDir # map Normal ws" using assms by (auto simp: good_path_def)
  have "normalize_loop t (map Normal ws) acc = Inr (acc @ map Normal ws)" for acc
    by (induction ws arbitrary: acc) simp_all
  then show ?thesis by (simp add: p normalize_components_def is_absolute_def root_path_def)
qed

lemma normalize_text: "good_path p \<Longrightarrow> normalize_absolute_host_path (show_path p) = Inr p"
  by (simp add: normalize_absolute_host_path_def components_show normalize_fixed)

lemma normalize_path_fixed: "good_path p \<Longrightarrow> normalize_path p = Inr p"
  by (simp add: normalize_path_def normalize_fixed)

lemma normalize_host_good: "normalize_absolute_host_path t = Inr p \<Longrightarrow> good_path p"
  unfolding normalize_absolute_host_path_def by (rule normalize_good) (auto intro: good_components)

text \<open>
  What is used of \<open>std::fs::canonicalize\<close>: its result is absolute without links, dots or empty names and
  stays as it is, and a name is resolved in a directory as in the canonical path of the directory.
\<close>

definition canonical_fs :: "file_system \<Rightarrow> bool" where
  "canonical_fs fs \<longleftrightarrow>
     (\<forall>p q. fs_canonicalize fs p = Some q \<longrightarrow> good_path q \<and> fs_canonicalize fs q = Some q) \<and>
     (\<forall>p q w. fs_canonicalize fs p = Some q \<longrightarrow>
        fs_canonicalize fs (p @ [Normal w]) = fs_canonicalize fs (q @ [Normal w]))"

lemma canonical_fsD:
  assumes "canonical_fs fs" "fs_canonicalize fs p = Some q"
  shows "good_path q" "fs_canonicalize fs q = Some q"
    "fs_canonicalize fs (p @ [Normal w]) = fs_canonicalize fs (q @ [Normal w])"
  using assms unfolding canonical_fs_def by blast+

lemma good_snoc: "good_path p \<Longrightarrow> good_name w \<Longrightarrow> good_path (p @ [Normal w])"
  unfolding good_path_def by (elim exE conjE, rule_tac x = "ws @ [w]" in exI) simp

lemma good_split:
  assumes "good_path p" "parent_path p = Some q"
  obtains w where "p = q @ [Normal w]" "good_name w" "file_name p = Some w" "good_path q"
proof -
  obtain ws where p: "p = RootDir # map Normal ws" "list_all good_name ws" using assms(1) by (auto simp: good_path_def)
  with assms(2) obtain vs v where "ws = vs @ [v]" by (cases ws rule: rev_cases) (auto simp: parent_path_def)
  with p assms(2) show ?thesis
    by (intro that [of v]) (auto simp: parent_path_def file_name_def good_path_def butlast_append split: if_splits)
qed

lemma normalize_for_read_again:
  assumes "canonical_fs fs" "normalize_for_read fs t = Inr p"
  shows "good_path p" "normalize_for_read fs (show_path p) = Inr p"
proof -
  obtain n where n: "normalize_absolute_host_path t = Inr n"
    using assms(2) by (auto simp: normalize_for_read_def rbind_eq_Inr)
  have "good_path p \<and> normalize_for_read fs (show_path p) = Inr p"
  proof (cases "fs_canonicalize fs n")
    case None
    with n assms(2) have "p = n" by (simp add: normalize_for_read_def)
    with None normalize_host_good [OF n] show ?thesis by (simp add: normalize_for_read_def normalize_text)
  next
    case (Some q)
    note q = canonical_fsD [OF assms(1) Some]
    with n assms(2) Some have "p = q" by (simp add: normalize_for_read_def normalize_path_fixed)
    with q show ?thesis by (simp add: normalize_for_read_def normalize_text normalize_path_fixed)
  qed
  then show "good_path p" "normalize_for_read fs (show_path p) = Inr p" by blast+
qed

lemma normalize_for_write_again:
  assumes "canonical_fs fs" "normalize_for_write fs t = Inr p"
  shows "good_path p" "normalize_for_write fs (show_path p) = Inr p"
proof -
  obtain n where n: "normalize_absolute_host_path t = Inr n"
    using assms(2) by (auto simp: normalize_for_write_def rbind_eq_Inr)
  note gn = normalize_host_good [OF n]
  have "good_path p \<and> normalize_for_write fs (show_path p) = Inr p"
  proof (cases "fs_canonicalize fs n")
    case (Some q)
    note q = canonical_fsD [OF assms(1) Some]
    with n assms(2) Some have "p = q" by (simp add: normalize_for_write_def normalize_path_fixed)
    with q show ?thesis by (simp add: normalize_for_write_def normalize_text normalize_path_fixed)
  next
    case None
    show ?thesis
    proof (cases "\<exists>d c. parent_path n = Some d \<and> fs_canonicalize fs d = Some c")
      case False
      with None n assms(2) have "p = n" by (auto simp: normalize_for_write_def split: option.splits)
      with None False gn show ?thesis by (auto simp: normalize_for_write_def normalize_text split: option.splits)
    next
      case True
      then obtain d c where d: "parent_path n = Some d" "fs_canonicalize fs d = Some c" by blast
      from good_split [OF gn d(1)] obtain w where w: "n = d @ [Normal w]" "good_name w" "file_name n = Some w" by metis
      note c = canonical_fsD [OF assms(1) d(2)]
      have gp: "good_path (c @ [Normal w])" by (rule good_snoc [OF c(1) w(2)])
      then have p: "p = c @ [Normal w]"
        using assms(2) n None d w(3) by (simp add: normalize_for_write_def normalize_path_fixed)
      have "fs_canonicalize fs (c @ [Normal w]) = None" using c(3) [of w] None w(1) by simp
      moreover have "parent_path (c @ [Normal w]) = Some c" "file_name (c @ [Normal w]) = Some w"
        by (simp_all add: parent_path_def file_name_def)
      ultimately show ?thesis
        using gp c(2) by (simp add: p normalize_for_write_def normalize_text normalize_path_fixed)
    qed
  qed
  then show "good_path p" "normalize_for_write fs (show_path p) = Inr p" by blast+
qed

section \<open>Denials and grants\<close>

text \<open>The check a tool makes for a capability; the bypass of the runtime has none.\<close>

definition check_capability ::
  "file_system \<Rightarrow> policy \<Rightarrow> capability \<Rightarrow> rstr \<Rightarrow> rstr \<Rightarrow> operation_error + unit" where
  "check_capability fs pol cap text operation =
     (case cap of
        CapRead \<Rightarrow> check_read fs pol text operation
      | CapWrite \<Rightarrow> check_write fs pol text operation
      | CapExecCwd \<Rightarrow> check_exec_cwd fs pol text
      | CapExecRuntime \<Rightarrow> Inr ())"

lemma normalize_components_not_denied: "normalize_components t cs \<noteq> Inl (OpSandboxPolicyDenied d)"
proof -
  have "normalize_loop t ds acc \<noteq> Inl (OpSandboxPolicyDenied d)" for ds acc
    by (induction t ds acc rule: normalize_loop.induct) (auto split: option.split)
  then show ?thesis by (cases "normalize_loop t cs []") (auto simp: normalize_components_def)
qed

lemma normalize_not_denied:
  "normalize_for_read fs t \<noteq> Inl (OpSandboxPolicyDenied d)"
  "normalize_for_write fs t \<noteq> Inl (OpSandboxPolicyDenied d)"
  using normalize_components_not_denied
  by (cases "normalize_absolute_host_path t";
      auto simp: normalize_for_read_def normalize_for_write_def normalize_absolute_host_path_def normalize_path_def
        split: option.split)+

lemma check_path_denied:
  assumes "check_path to_path roots cap pol text op = Inl (OpSandboxPolicyDenied d)"
    "\<And>d. to_path text \<noteq> Inl (OpSandboxPolicyDenied d)"
  obtains p where "to_path text = Inr p" "dn_capability d = cap" "dn_path d = show_path p"
  using assms by (cases "to_path text") (auto simp: check_path_def sandbox_denial_def split: option.splits if_splits)

lemma check_path_granted:
  assumes "to_path text = Inr p" "path_is_within p root"
  shows "check_path to_path roots cap
    (pol\<lparr>pl_next_id := n, pl_grants := gs @ [\<lparr>pg_id = n, pg_capability = cap, pg_path = root\<rparr>]\<rparr>) text op = Inr ()"
  using assms by (auto simp: check_path_def is_granted_def grant_allows_def split: option.split)

lemma check_path_mono:
  assumes "is_ok (check_path to_path roots cap pol text op)" "set (pl_grants pol) \<subseteq> set (pl_grants pol')"
    "pl_isolation pol' = pl_isolation pol"
  shows "is_ok (check_path to_path roots cap pol' text op)"
proof (cases "active_path_isolation (pl_isolation pol)")
  case None
  then show ?thesis using assms(3) by (simp add: check_path_def)
next
  case (Some nc)
  obtain name config where nc: "nc = (name, config)" by (cases nc)
  have "is_granted pol p cap \<Longrightarrow> is_granted pol' p cap" for p
    using assms(2) by (auto simp: is_granted_def list_ex_iff)
  then show ?thesis
    using assms(1,3) Some nc check_path_ok [of pol name config] check_path_ok [of pol' name config] by metis
qed

lemmas checks = check_capability_def check_read_def check_write_def check_exec_cwd_def

lemma check_mono:
  assumes "is_ok (check_capability fs pol cap text op)" "set (pl_grants pol) \<subseteq> set (pl_grants pol')"
    "pl_isolation pol' = pl_isolation pol"
  shows "is_ok (check_capability fs pol' cap text op)"
  using assms(1) check_path_mono [OF _ assms(2,3)] by (cases cap) (auto simp: checks)

lemma check_ignores_id: "check_capability fs (pol\<lparr>pl_next_id := n\<rparr>) = check_capability fs pol"
proof -
  have "check_path tp roots c (pol\<lparr>pl_next_id := n\<rparr>) t op = check_path tp roots c pol t op" for tp roots c t op
    by (simp add: check_path_def is_granted_def split: option.split)
  then show ?thesis by (auto simp: checks fun_eq_iff split: capability.split)
qed

text \<open>The denial the backend foretells for a path is the one its check gives.\<close>

lemma foretold_denial:
  assumes "canonical_fs fs" "sandbox_denial_for_path fs pol t cap op = Inr (Some d)"
  shows "check_capability fs pol cap t op = Inl (OpSandboxPolicyDenied d)"
proof -
  have res: "r = Inl (OpSandboxPolicyDenied d)" if "sandbox_denial_from_result r = Inr (Some d)" for r
    using that by (cases r rule: sandbox_denial_from_result.cases) auto
  have same: "check_path to_path roots c pol (show_path p) op = check_path to_path roots c pol t op"
    if "to_path t = Inr p" "to_path (show_path p) = Inr p" for to_path roots c p op
    using that by (simp add: check_path_def split: option.split)
  show ?thesis
    using assms(2) normalize_for_read_again(2) [OF assms(1)] normalize_for_write_again(2) [OF assms(1)]
    by (cases cap)
       (auto simp: sandbox_denial_for_path_def rbind_eq_Inr checks same dest!: res split: if_splits)
qed

lemma write_grant_root_covers: "path_is_within p (write_grant_root fs p)"
proof -
  have "prefix (butlast p) p" by (simp add: butlast_conv_take take_is_prefix)
  then show ?thesis by (auto simp: write_grant_root_def path_is_within_def parent_path_def)
qed

lemma grant_of_denial:
  assumes fs: "canonical_fs fs" and denied: "check_capability fs pol cap text op = Inl (OpSandboxPolicyDenied d)"
  obtains root pol' where "grant fs \<lparr>gr_denial = d, gr_scope = scope\<rparr> pol = Inr (pl_next_id pol + 1, pol')"
    "pol' = pol\<lparr>pl_next_id := pl_next_id pol + 1,
      pl_grants := pl_grants pol @ [\<lparr>pg_id = pl_next_id pol + 1, pg_capability = cap, pg_path = root\<rparr>]\<rparr>"
    "check_capability fs pol' cap text op = Inr ()"
proof (cases "cap = CapWrite")
  case True
  with denied obtain p where p: "normalize_for_write fs text = Inr p" "dn_capability d = cap" "dn_path d = show_path p"
    by (auto simp: checks intro: check_path_denied [OF _ normalize_not_denied(2)])
  note again = normalize_for_write_again [OF fs p(1)]
  show thesis
    by (rule that [of _ "write_grant_root fs p"])
       (use True p again check_path_granted [where to_path = "normalize_for_write fs", OF p(1) write_grant_root_covers]
        in \<open>simp_all add: grant_def checks Let_def del: One_nat_def\<close>)
next
  case False
  with denied have cap: "cap = CapRead \<or> cap = CapExecCwd" by (cases cap) (simp_all add: checks)
  with denied obtain p where p: "normalize_for_read fs text = Inr p" "dn_capability d = cap" "dn_path d = show_path p"
    by (auto simp: checks intro: check_path_denied [OF _ normalize_not_denied(1)])
  note again = normalize_for_read_again [OF fs p(1)]
  have "path_is_within p p" by (simp add: path_is_within_def)
  then show thesis
    by (intro that [of _ p])
       (use cap p again check_path_granted [where to_path = "normalize_for_read fs", OF p(1)]
        in \<open>auto simp: grant_def checks Let_def\<close>)
qed

text \<open>
  C16: A denial, the grant the user gives for it and the retry fit together. From every policy the backend can
  reach, the denial of a check can be granted, with either scope; the same check then passes; whatever was
  permitted stays permitted; and revoking the grant brings back the earlier answers of all checks. The
  assumption is on the file system: \<open>canonicalize\<close> returns canonical paths.
\<close>

theorem denial_grant_retry:
  assumes "canonical_fs fs" "reachable_policy fs pol"
    "check_capability fs pol cap text op = Inl (OpSandboxPolicyDenied d)"
  shows "\<exists>gid pol'. grant fs \<lparr>gr_denial = d, gr_scope = scope\<rparr> pol = Inr (gid, pol') \<and>
    check_capability fs pol' cap text op = Inr () \<and>
    (\<forall>cap' text' op'. is_ok (check_capability fs pol cap' text' op') \<longrightarrow>
       is_ok (check_capability fs pol' cap' text' op')) \<and>
    check_capability fs (revoke gid pol') = check_capability fs pol"
proof -
  let ?n = "pl_next_id pol + 1"
  from grant_of_denial [OF assms(1,3)] obtain root pol' where
    g: "grant fs \<lparr>gr_denial = d, gr_scope = scope\<rparr> pol = Inr (?n, pol')" and
    pol': "pol' = pol\<lparr>pl_next_id := ?n,
      pl_grants := pl_grants pol @ [\<lparr>pg_id = ?n, pg_capability = cap, pg_path = root\<rparr>]\<rparr>" and
    ok: "check_capability fs pol' cap text op = Inr ()" .
  have "\<forall>g \<in> set (pl_grants pol). pg_id g \<noteq> ?n"
    using reachable_ok [OF assms(2)] by (auto simp: policy_ok_def)
  then have "filter (\<lambda>g. pg_id g \<noteq> ?n) (pl_grants pol) = pl_grants pol" by (simp add: filter_id_conv)
  then have "revoke ?n pol' = pol\<lparr>pl_next_id := ?n\<rparr>" by (simp add: revoke_def pol')
  then have "check_capability fs (revoke ?n pol') = check_capability fs pol" by (simp only: check_ignores_id)
  moreover have "set (pl_grants pol) \<subseteq> set (pl_grants pol')" "pl_isolation pol' = pl_isolation pol"
    by (auto simp: pol')
  ultimately show ?thesis using g ok check_mono by blast
qed


section \<open>An example\<close>

definition ex_paths :: "path list" where
  "ex_paths = map components [lit ''/'', lit ''/ws'', lit ''/ws/a'', lit ''/tmp'', lit ''/home'', lit ''/home/u'', lit ''/usr'']"

definition ex_fs :: file_system where
  "ex_fs = \<lparr>fs_canonicalize = (\<lambda>p. if p \<in> set ex_paths then Some p else None), fs_exists = (\<lambda>p. p \<in> set ex_paths),
     fs_is_dir = (\<lambda>p. p \<in> set ex_paths \<and> p \<noteq> components (lit ''/ws/a'')), fs_is_file = (\<lambda>p. p = components (lit ''/ws/a''))\<rparr>"

definition ex_host :: host where
  "ex_host = \<lparr>ho_macos = False, ho_linux = True, ho_bubblewrap = True, ho_dynsandbox = False\<rparr>"

definition ex_sandbox :: policy where
  "ex_sandbox = isolated (LinuxBubblewrap \<lparr>pi_allow_network = False, pi_readable_roots = map components [lit ''/ws'', lit ''/tmp''],
     pi_writable_roots = map components [lit ''/ws'', lit ''/tmp'']\<rparr>)"

definition ex_denial :: policy_denial where
  "ex_denial = \<lparr>dn_backend_id = lit ''local'', dn_isolation = lit ''linux_bubblewrap'', dn_operation = lit ''write'',
     dn_capability = CapWrite, dn_path = lit ''/home/u/n''\<rparr>"

lemma ex_fs_canonical: "canonical_fs ex_fs"
proof -
  have "normalize_absolute_host_path (show_path p) = Inr p" if "p \<in> set ex_paths" for p
  proof -
    have "list_all (\<lambda>p. normalize_absolute_host_path (show_path p) = Inr p) ex_paths" by code_simp
    with that show ?thesis by (simp add: list_all_iff)
  qed
  then have "good_path p" if "p \<in> set ex_paths" for p using that normalize_host_good by blast
  then show ?thesis by (auto simp: canonical_fs_def ex_fs_def)
qed

lemma ex_sandbox_reachable: "reachable_policy ex_fs ex_sandbox"
proof (rule reachable_policy.built)
  show "from_isolation_options ex_host ex_fs (Some (OptLinuxBubblewrap False [] [])) (lit ''/ws'') (lit ''/tmp'') = Inr ex_sandbox"
    by code_simp
qed

lemma ex_denied:
  "check_capability ex_fs ex_sandbox CapWrite (lit ''/ws/../home//u/./n'') (lit ''write'') = Inl (OpSandboxPolicyDenied ex_denial)"
  by code_simp

theorem denial_grant_retry_witness:
  "\<exists>gid pol'. grant ex_fs \<lparr>gr_denial = ex_denial, gr_scope = Session\<rparr> ex_sandbox = Inr (gid, pol') \<and>
    check_capability ex_fs pol' CapWrite (lit ''/ws/../home//u/./n'') (lit ''write'') = Inr () \<and>
    check_capability ex_fs (revoke gid pol') = check_capability ex_fs ex_sandbox"
  using denial_grant_retry [OF ex_fs_canonical ex_sandbox_reachable ex_denied, of Session] by blast


end
