(* ===== verification/Spec2Isabelle.thy ===== *)
theory Spec2Isabelle
  imports Resume Coordination SessionActor SandboxCounter SandboxPolicy
begin

text \<open>
  \<^bold>\<open>xiaoO, verified core.\<close> xiaoO is an agent runtime written in Rust: a loop that asks a language
  model for an answer, runs the tools the model calls, feeds the results back and repeats; a gateway
  that hosts many such sessions for several clients; and the front ends. This library models the
  parts of it where correctness is a matter of state and not of I/O, as executable functions, and
  proves what they promise to each other.

  \<^bold>\<open>Parts and how they interact.\<close> A client sends a turn to the gateway, which checks the
  client's lease on the session (\<open>Lease\<close>) and queues the turn with the session's actor
  (\<open>SessionActor\<close>). The actor runs one turn at a time; a turn is a run of the agent loop
  (\<open>AgentLoop\<close>). Each turn of the loop compresses the history when it is long (\<open>Turn\<close> over
  \<open>ContextManager\<close>, \<open>Compaction\<close>, \<open>Summary\<close>, \<open>Budget\<close>, \<open>Estimator\<close>), calls the model while
  streaming its answer with the secrets masked (\<open>Redaction\<close>), prepares the tool calls of the answer
  (\<open>ToolCalls\<close>), runs them and records their results (\<open>ToolRun\<close>, \<open>ToolOutput\<close>). A run that
  waits for subagents is suspended: the coordinator (\<open>Subagent\<close>) keeps the subagents of a session and
  decides when a join is complete, the supervisor (\<open>Supervisor\<close>) wakes the waiting lane, and the lane
  resumes the run with the results (\<open>Resume\<close>). File tools ask the local sandbox before they
  touch a path, and processes run inside it (\<open>SandboxPolicy\<close>). Tools that start processes or write
  executables go through \<open>Coordination\<close>; remote sandboxes are limited by \<open>SandboxCounter\<close>.

  \<^bold>\<open>Theories.\<close>
  \<^item> \<open>Prelude\<close>: Rust strings as lists of scalar values with the operations of the standard library,
    results, saturating arithmetic, list lemmas. \<open>F64\<close>: binary64 arithmetic as exact rational
    results rounded to nearest even.
  \<^item> \<open>Messages\<close>: the data of \<open>crates/agent-types\<close> and the constructors of \<open>crates/agent-llm\<close>.
  \<^item> \<open>Budget\<close>: \<open>crates/compact/src/policy.rs\<close> and \<open>max_tokens.rs\<close>. The severity is monotone in
    the estimate, a full history is blocking, the two implementations of the limits agree, and the
    check of \<open>max_tokens\<close> accepts exactly the configurations that leave room for input.
  \<^item> \<open>Estimator\<close>: \<open>estimator.rs\<close>, the interpretation of the locale \<open>token_estimator\<close>.
  \<^item> \<open>Compaction\<close>: \<open>compaction.rs\<close>. The adjusted cut is the latest one that separates no tool call
    from its result and no two parts of one assistant message; system messages, the first user
    message and the protected tail are never candidates; the replacement keeps results behind calls.
  \<^item> \<open>Summary\<close>: \<open>summary.rs\<close>. An accepted summary fits its token budget whatever the model answers.
  \<^item> \<open>ContextManager\<close>: \<open>manager.rs\<close>, \<open>envelope.rs\<close>, \<open>defaults.rs\<close>, \<open>passthrough.rs\<close>. The contract
    of the loop with a pipeline is the locale \<open>compression_pipeline\<close>, extended by
    \<open>protecting_pipeline\<close>; both pipelines interpret it.
  \<^item> \<open>LoopTypes\<close>: state, snapshot, inputs and outcomes of a run (\<open>crates/core\<close>). \<open>ToolCalls\<close>,
    \<open>ToolOutput\<close>: the pure parts of \<open>tool_exec.rs\<close> with the registry filter and call builder.
  \<^item> \<open>Redaction\<close>: secrets and streaming of \<open>agent_loop.rs\<close>. No event shows a secret, and after the
    last flush the sink shows the whole (masked) answer.
  \<^item> \<open>LoopEnv\<close>: the calculus of the loop. A step takes the context and returns a value or an abort
    with the new context. The record \<open>services\<close> holds what a run calls and does not implement
    (model, executor, prompt builder, hooks, clock, cancellation) as functions over an arbitrary
    outside world. \<open>triple\<close>, \<open>keeps\<close> and \<open>preserves\<close> are its proof rules.
  \<^item> \<open>Turn\<close>, \<open>ToolRun\<close>, \<open>AgentLoop\<close>: \<open>agent_loop.rs\<close> and \<open>tool_exec.rs\<close> as programs of that
    calculus, phase by phase. Results of a batch answer its calls once each and in order, a turn
    that does not compress only appends to the history, and a run with a turn limit returns.
  \<^item> \<open>Subagent\<close>: \<open>crates/subagent\<close>. The coordinator's state as sorted maps, its operations and the
    actions it asks of its host. In every sequence of operations a join is woken once, after all its
    subagents have ended, and the limits on depth and number hold.
  \<^item> \<open>Supervisor\<close>: the table of waiting joins and the actions of \<open>session_supervisor.rs\<close>, with the
    interleavings of registration and wake-up. A waiter is woken exactly if it registered before the
    wake-up; the other order is possible and loses it.
  \<^item> \<open>Resume\<close>: \<open>run_lane_until_terminal\<close>. A suspended lane is resumed with a history in which each
    suspended call has its result.
  \<^item> \<open>SandboxPolicy\<close>: \<open>crates/operation_backend/src/backends/local/policy.rs\<close>. The mounts of the
    processes agree with the checks of the file tools, and a denial, its grant, the retry and the
    revocation fit together. The file system is a parameter; the hypothesis \<open>canonical_fs\<close> states
    what \<open>std::fs::canonicalize\<close> documents.
  \<^item> \<open>Coordination\<close>: \<open>crates/process-coordination\<close>. The groups exclude each other, no wake-up is
    lost, a waiting request is admitted after at most two hand-overs.
  \<^item> \<open>Lease\<close>: \<open>session_lease.rs\<close> and the guards of service, handle and router. The shards refine one
    table (locale \<open>session_op\<close>, interpreted for every operation); a live lease admits one writer.
  \<^item> \<open>SessionActor\<close>: \<open>session_handle.rs\<close>. In every interleaving each request is answered once, the
    queue counter is exact, and a closed session stays closed.
  \<^item> \<open>SandboxCounter\<close>: \<open>sandbox_counter.rs\<close>. The counts are exact and the limit holds.
  \<^item> This theory joins the loop with the context manager: a run keeps every tool result behind
    the call it answers, however it ends, and a suspended run is resumed with every call answered.

  \<^bold>\<open>Conventions.\<close> Errors are the left side of a sum, a panic is \<^term>\<open>None\<close> or the abort \<open>Panic\<close>.
  Unsigned integers are natural numbers with the saturation, truncation or overflow check of the
  source written out. Concurrency is a step relation whose steps are the critical sections of the
  source. Times are arguments. JSON printing and parsing, hashing, the clock, the file system, the
  model and the plugins are parameters; what is assumed of them is a hypothesis of the property.

  \<^bold>\<open>Loops and bounds.\<close> Loops over data are structural recursion. The loop over turns is a partial
  function with \<^term>\<open>None\<close> for not returning; with a positive \<open>max_turns\<close> it returns within that many
  turns. With \<open>max_turns\<close> zero the source has no bound, so none is claimed. \<open>run_within\<close> is the same
  loop with a bound, used to evaluate concrete runs; a result of it is the result of the loop.

  \<^bold>\<open>Not modelled.\<close> Trace spans and log output (nothing modelled reads them); the debug file of the
  KV cache; the front ends (drawing and key handling); the HTTP server beyond its lease checks; the
  LLM clients, MCP and LSP clients and channels (network protocols over libraries); the single
  tools and remote sandboxes (effects on files, processes and the network); the prompt texts, skills and
  memory stores (text assembly and file loading); the vault (a cryptographic library). Where the
  modelled code calls them they are parameters.
\<close>

section \<open>The loop with the context manager\<close>

text \<open>The loop's compression service is some context manager that keeps at least one recent message.\<close>

definition managed_context :: "'e services \<Rightarrow> bool" where
  "managed_context sv \<longleftrightarrow>
     (\<forall>ms b meta e. \<exists>cm. 0 < cm_tail cm \<and> fst (sv_compress sv ms b meta e) = cm_compress cm ms b meta)"

lemma managed_sound_compressor:
  assumes "managed_context sv"
  shows "sound_compressor sv"
  unfolding sound_compressor_def
proof (intro allI impI)
  fix n ms b meta e v
  assume n: "n \<le> 1" and ms: "sound_upto n ms" and v: "fst (sv_compress sv ms b meta e) = Inr v"
  obtain cm where "0 < cm_tail cm" "fst (sv_compress sv ms b meta e) = cm_compress cm ms b meta"
    using assms unfolding managed_context_def by blast
  with n ms v show "sound_upto n (cv_messages v)" by (intro cm.compress_open [of cm ms b meta v n]) auto
qed

definition managed_compress ::
  "context_manager \<Rightarrow> chat_message list \<Rightarrow> token_budget_config \<Rightarrow> compression_meta \<Rightarrow> 'e \<Rightarrow>
   (compression_error + compressed_view) \<times> 'e" where
  "managed_compress cm ms b meta e = (cm_compress cm ms b meta, e)"

definition ex_managed :: "llm_response list services" where
  "ex_managed = ex_services\<lparr>sv_compress := managed_compress ex_cm\<rparr>"

definition ex_replies :: "llm_response list" where
  "ex_replies = [ex_response [ex_call (lit ''a'') (lit ''read'')], ex_response []]"

lemma ex_managed_run:
  "map_option (map_prod is_ok (\<lambda>c. map role (history c)))
     (run_within 3 ex_managed (loop_state_new (lit ''s'')) ex_input ex_replies) =
   Some (True, [User, Assistant, Tool, Assistant])"
  by code_simp

lemma ex_managed_services: "managed_context ex_managed" "honest_executor ex_managed" "polite_hooks ex_managed"
proof -
  have "0 < cm_tail ex_cm" by (simp add: ex_cm_def ex_summary_budget_def)
  then show "managed_context ex_managed"
    by (auto simp: managed_context_def ex_managed_def managed_compress_def)
  show "honest_executor ex_managed"
    using ex_honest by (simp add: honest_executor_def ex_managed_def)
  show "polite_hooks ex_managed"
    by (simp add: polite_hooks_def ex_managed_def ex_services_def)
qed

text \<open>
  C1: the history of an agent run never holds a tool result without the call it answers. When a run
  starts from such a history, uses a context manager that keeps at least one recent message, an
  executor that answers under the ids of the calls it got, and hooks that do not turn the user's
  message into a tool result, then every way of ending the run (an answer, a suspension, a
  cancellation, the turn limit or an error of any phase) leaves a well-formed history in which every
  tool result follows its call, across every compression, retry and interruption in between.
\<close>

theorem run_keeps_pairing:
  assumes "managed_context sv" "honest_executor sv" "polite_hooks sv"
    and "run_agent_loop sv st inp e = Some (r, c')" "r \<noteq> Inl Panic"
    and "sound_history (ls_messages st)"
  shows "sound_history (history c')"
  using run_agent_loop_sound [OF managed_sound_compressor [OF assms(1)] assms(2,3,4,6)] assms(5) by blast

theorem run_keeps_pairing_witness:
  "\<exists>r c'. run_agent_loop ex_managed (loop_state_new (lit ''s'')) ex_input ex_replies = Some (Inr r, c') \<and>
     map role (history c') = [User, Assistant, Tool, Assistant] \<and> sound_history (history c')"
proof -
  obtain x c' where x: "run_within 3 ex_managed (loop_state_new (lit ''s'')) ex_input ex_replies = Some (x, c')"
      "is_ok x" "map role (history c') = [User, Assistant, Tool, Assistant]"
    using ex_managed_run unfolding map_option_eq_Some map_prod_def by (auto simp del: map_eq_Cons_conv)
  from x(2) obtain r where "x = Inr r" by (auto simp: is_ok_iff)
  note run = x(1) [unfolded this] x(3)
  have "sound_history (ls_messages (loop_state_new (lit ''s'')))"
    by (simp add: loop_state_new_def sound_history_def wf_history_def)
  with run_keeps_pairing [OF ex_managed_services run_within_run [OF run(1)]] run run_within_run [OF run(1)]
  show ?thesis by auto
qed

section \<open>Suspension and resumption\<close>

definition ex_env :: resume_env where
  "ex_env = \<lparr>re_to_string = (\<lambda>_. Inr (lit ''{}'')), re_saved = (\<lambda>_. None), re_now = (\<lambda>_. 8)\<rparr>"

definition ex_joins :: "llm_response list" where
  "ex_joins = [ex_response [ex_call (lit ''a'') (lit ''join_subagent''), ex_call (lit ''b'') (lit ''read'')]]"

text \<open>The calls a run suspended with, and the resumption of its history once the child has ended.\<close>

definition ex_resumed :: "(loop_abort + loop_run_result) \<times> llm_response list loop_context \<Rightarrow> nat \<times> bool" where
  "ex_resumed x = (case x of
     (Inr (RunSuspended calls), c) \<Rightarrow>
       (length calls, is_ok (resume_lane ex_env calls False [(0, WaitTerminal ex_terminal)] (history c)))
   | _ \<Rightarrow> (0, False))"

lemma ex_joins_run:
  "map_option ex_resumed (run_within 1 ex_managed (loop_state_new (lit ''s'')) ex_input ex_joins) = Some (1, True)"
  by code_simp

text \<open>
  C2: a suspended run is resumed with a closed history. When a run of the loop suspends, the calls it
  waits for are calls of its history, and however the subagents end (in any order, dropped, or cut off
  by a cancellation), the resumed history is sound, every tool use of an assistant message in it has a
  result, and it ends with one result for each suspended call, in the order of the calls.
\<close>

theorem resumed_history_closed:
  assumes "managed_context sv" "honest_executor sv" "polite_hooks sv" "sound_history (ls_messages st)"
    and "run_agent_loop sv st inp e = Some (Inr (RunSuspended calls), c')"
    and "possible_arrival (length calls) cancelled arrived"
    and "resume_lane env calls cancelled arrived (history c') = Inr ms"
  shows "sound_history ms \<and>
    (\<forall>m \<in> set ms. role m = Assistant \<longrightarrow> set (tool_use_ids m) \<subseteq> result_ids ms) \<and>
    (\<exists>kept results. ms = kept @ results \<and> length kept = length (history c') \<and>
       map tool_result_ids results = map (\<lambda>call. [fc_call_id (stc_final_call call)]) calls)"
proof -
  have "sound_history (history c')"
    using run_agent_loop_sound [OF managed_sound_compressor [OF assms(1)] assms(2,3,5,4)] by simp
  moreover have "calls_in_history calls (history c')"
    using run_agent_loop_calls [OF assms(2,5)] by (simp add: suspension_ok_def)
  ultimately show ?thesis
    using resume_sound [OF _ _ assms(6,7)] by blast
qed

theorem resumed_history_closed_witness:
  "\<exists>calls c' ms. run_agent_loop ex_managed (loop_state_new (lit ''s'')) ex_input ex_joins =
       Some (Inr (RunSuspended calls), c') \<and> length calls = 1 \<and>
     resume_lane ex_env calls False [(0, WaitTerminal ex_terminal)] (history c') = Inr ms \<and> sound_history ms"
proof -
  obtain x c' where run: "run_within 1 ex_managed (loop_state_new (lit ''s'')) ex_input ex_joins = Some (x, c')"
    "ex_resumed (x, c') = (1, True)"
    using ex_joins_run by auto
  then obtain calls ms where calls: "x = Inr (RunSuspended calls)" "length calls = 1"
    "resume_lane ex_env calls False [(0, WaitTerminal ex_terminal)] (history c') = Inr ms"
    by (auto simp: ex_resumed_def is_ok_iff split: sum.splits loop_run_result.splits)
  note r = run_within_run [OF run(1) [unfolded calls(1)]]
  have "sound_history (ls_messages (loop_state_new (lit ''s'')))"
    by (simp add: loop_state_new_def sound_history_def wf_history_def)
  moreover have "possible_arrival (length calls) False [(0, WaitTerminal ex_terminal)]"
    using calls(2) by (simp add: possible_arrival_def)
  ultimately have "sound_history ms"
    using resumed_history_closed [OF ex_managed_services _ r _ calls(3)] by blast
  with r calls show ?thesis by blast
qed

end
